(* ===== verification/Prelude.thy ===== *)
theory Prelude
  imports Main "HOL-Library.Word" "HOL-Library.Monad_Syntax"
begin

text \<open>
  The prelude of the development: names for the machine types of the C++ sources, the
  theorem collections the component theories fill, and the lemmas on bytes, words, lists
  and options that several components share.

  Conventions used throughout:
  \<^item> a C \<open>unsigned int\<close> or \<open>int\<close> is a \<open>32 word\<close>; where the sign matters the word is
    read with \<open>sint\<close>; an \<open>unsigned long long\<close> is a \<open>64 word\<close>;
  \<^item> a \<open>std::string\<close> or a \<open>char\<close> buffer whose bytes are all defined is a list of bytes;
  \<^item> a buffer fresh from \<open>malloc\<close> has indeterminate bytes: a cell is a \<open>u8 option\<close>, with
    \<open>None\<close> for a byte no one has written yet;
  \<^item> \<open>None\<close> as the result of an operation means that the process stops: a failed \<open>assert\<close>,
    a null dereference or another undefined behaviour.
\<close>

unbundle bit_operations_syntax

type_synonym u8 = "8 word"
type_synonym u16 = "16 word"
type_synonym u32 = "32 word"
type_synonym u64 = "64 word"
type_synonym bytes = "u8 list"
type_synonym cells = "u8 option list"

named_theorems marsh_defs \<open>definitions of the marshalling operators\<close>
named_theorems codec_laws \<open>laws of the codecs of the wire types\<close>
named_theorems wf_intros \<open>preservation of the components' well-formedness invariants\<close>

abbreviation INT_MAX :: nat where
  "INT_MAX \<equiv> 2147483647"

section \<open>Bytes of words\<close>

text \<open>\<open>byte_at k x\<close> is the C expression \<open>(x >> k) & 0xff\<close>, stored as an unsigned char.\<close>

definition byte_at :: "nat \<Rightarrow> 'a::len word \<Rightarrow> u8" where
  "byte_at k x = ucast (drop_bit k x AND 0xff)"

lemma and_ff: "(x :: 'a::len word) AND 0xff = take_bit 8 x"
  by (simp add: take_bit_eq_mask mask_eq_exp_minus_1)

lemma bit_byte_at: "bit (byte_at k x) n \<longleftrightarrow> n < 8 \<and> bit x (k + n)"
  unfolding byte_at_def and_ff
  by (auto simp: bit_simps dest: bit_imp_le_length)

lemma byte_at_zero: "byte_at 0 (x :: u8) = x"
  by (rule bit_word_eqI) (simp add: bit_byte_at)

text \<open>
  A byte read back goes through a plain \<open>char\<close> (signed), widened to \<open>unsigned int\<close>, and
  is then masked: the mask undoes the sign extension.
\<close>

lemma bit_u8_high: "bit (x :: u8) n \<Longrightarrow> n < 8"
  by (drule bit_imp_le_length) simp

lemma min_7: "n < 8 \<Longrightarrow> min 7 n = (n :: nat)"
  by simp

lemma scast_mask: "(scast (x :: u8) :: u32) AND 0xff = ucast x"
proof (rule bit_word_eqI)
  fix n assume "n < LENGTH(32)"
  then show "bit ((scast x :: u32) AND 0xff) n = bit (ucast x :: u32) n"
    unfolding and_ff by (cases "n < 8") (auto simp: bit_simps min_7 dest: bit_u8_high)
qed

lemma ucast_scast_u8: "(ucast (scast (x :: u8) :: u32) :: u8) = x"
  by (rule bit_word_eqI) (auto simp: bit_simps min_7)

definition join16 :: "u8 \<Rightarrow> u8 \<Rightarrow> u16" where
  "join16 a b = push_bit 8 (ucast a) OR ucast b"

definition join32 :: "u8 \<Rightarrow> u8 \<Rightarrow> u8 \<Rightarrow> u8 \<Rightarrow> u32" where
  "join32 a b c d = push_bit 24 (ucast a) OR push_bit 16 (ucast b) OR push_bit 8 (ucast c) OR ucast d"

lemma bit_u8_diff: "bit (x :: u8) (n - k) \<Longrightarrow> n < k + 8"
  by (drule bit_u8_high) linarith

lemma join16_byte_at: "join16 (byte_at 8 x) (byte_at 0 x) = x"
proof (rule bit_word_eqI)
  fix n assume "n < LENGTH(16)"
  then consider "n < 8" | "8 \<le> n" "n < 16" by fastforce
  then show "bit (join16 (byte_at 8 x) (byte_at 0 x)) n = bit x n"
    unfolding join16_def by cases (auto simp: bit_simps bit_byte_at)
qed

lemma join32_byte_at: "join32 (byte_at 24 x) (byte_at 16 x) (byte_at 8 x) (byte_at 0 x) = x"
proof (rule bit_word_eqI)
  fix n assume "n < LENGTH(32)"
  then consider "n < 8" | "8 \<le> n" "n < 16" | "16 \<le> n" "n < 24" | "24 \<le> n" "n < 32"
    by fastforce
  then show "bit (join32 (byte_at 24 x) (byte_at 16 x) (byte_at 8 x) (byte_at 0 x)) n = bit x n"
    unfolding join32_def by cases (auto simp: bit_simps bit_byte_at)
qed

text \<open>The two halves of a 64-bit value, as the marshalling code splits and joins them.\<close>

lemma join64_halves:
  fixes x :: u64
  shows "ucast (ucast x :: u32) OR push_bit 32 (ucast (ucast (drop_bit 32 x) :: u32)) = x"
proof (rule bit_word_eqI)
  fix n assume "n < LENGTH(64)"
  then consider "n < 32" | "32 \<le> n" "n < 64" by fastforce
  then show "bit (ucast (ucast x :: u32) OR push_bit 32 (ucast (ucast (drop_bit 32 x) :: u32)) :: u64) n
      = bit x n"
    by cases (auto simp: bit_simps)
qed

section \<open>Big-endian reference encodings\<close>

definition be16 :: "u16 \<Rightarrow> bytes" where
  "be16 x = [byte_at 8 x, byte_at 0 x]"

definition be32 :: "u32 \<Rightarrow> bytes" where
  "be32 x = [byte_at 24 x, byte_at 16 x, byte_at 8 x, byte_at 0 x]"

definition be64 :: "u64 \<Rightarrow> bytes" where
  "be64 x = be32 (ucast (drop_bit 32 x)) @ be32 (ucast x)"

lemma length_be [simp]: "length (be16 x) = 2" "length (be32 y) = 4" "length (be64 z) = 8"
  by (simp_all add: be16_def be32_def be64_def)

lemma be32_inject: "be32 x = be32 y \<longleftrightarrow> x = y"
proof
  assume "be32 x = be32 y"
  then have "join32 (byte_at 24 x) (byte_at 16 x) (byte_at 8 x) (byte_at 0 x)
      = join32 (byte_at 24 y) (byte_at 16 y) (byte_at 8 y) (byte_at 0 y)"
    by (simp add: be32_def)
  then show "x = y" by (simp add: join32_byte_at)
qed simp

section \<open>Sizes as 32-bit words\<close>

lemma unat_of_nat_u32: "n \<le> INT_MAX \<Longrightarrow> unat (of_nat n :: u32) = n"
  by (simp add: unsigned_of_nat take_bit_nat_eq_self)

lemma of_nat_u32_less: "a \<le> INT_MAX \<Longrightarrow> b \<le> INT_MAX \<Longrightarrow> (of_nat a :: u32) < of_nat b \<longleftrightarrow> a < b"
  by (simp add: word_less_nat_alt unat_of_nat_u32)

lemma unat_of_nat_lt: "n < 4294967296 \<Longrightarrow> unat (of_nat n :: u32) = n"
  by (simp add: unsigned_of_nat take_bit_nat_eq_self)

lemma of_nat_u32_le: "a < 4294967296 \<Longrightarrow> b < 4294967296 \<Longrightarrow> (of_nat a :: u32) \<le> of_nat b \<longleftrightarrow> a \<le> b"
  by (simp add: word_le_nat_alt unat_of_nat_lt)

section \<open>Lists and options\<close>

lemma drop_eq_ConsD: "drop i xs = y # ys \<Longrightarrow> i < length xs \<and> xs ! i = y \<and> drop (Suc i) xs = ys"
  by (metis Cons_nth_drop_Suc drop_all list.inject list.simps(3) not_less)

lemma drop_eq_appendD:
  assumes "drop i xs = ys @ zs"
  shows "take (length ys) (drop i xs) = ys" and "drop (i + length ys) xs = zs"
proof -
  from assms show "take (length ys) (drop i xs) = ys" by simp
  from assms show "drop (i + length ys) xs = zs"
    by (metis add.commute append_eq_conv_conj drop_drop)
qed

lemma bind_SomeE:
  assumes "Option.bind a f = Some y"
  obtains x where "a = Some x" and "f x = Some y"
  using assms by (cases a) auto

text \<open>A thread that goes on or ends, in a list of threads.\<close>

definition opt_list :: "'a option \<Rightarrow> 'a list" where
  "opt_list x = (case x of None \<Rightarrow> [] | Some y \<Rightarrow> [y])"

lemma opt_list_simps [simp]: "opt_list None = []" "opt_list (Some y) = [y]"
  by (simp_all add: opt_list_def)

end
