(* ===== verification/Marshall.thy ===== *)
theory Marshall
  imports Prelude
begin

text \<open>
  The wire format of the RPC library: the classes \<open>marshall\<close> and \<open>unmarshall\<close> of
  \<open>rpc/marshall.h\<close> and their members and operators in \<open>rpc/rpc.cc\<close>.

  The first half translates the code. A marshalling buffer is the block the \<open>malloc\<close> or
  \<open>realloc\<close> returned: a partial map from offsets to the bytes written so far, with its
  allocated size in \<open>_capa\<close>; the constructor and \<open>take_buf\<close> make and drop the pointer. The
  integer \<open>_capa\<close> is an \<open>int\<close>: a growth past \<open>INT_MAX\<close> is undefined and stops the model.
  An unmarshalling buffer is a list of bytes.

  The second half states the contract of a wire type as the locale \<open>codec\<close> (its operators
  append and consume exactly the reference encoding, every decoder keeps the buffer and
  never turns the \<open>_ok\<close> flag back on), interprets it for every type that has operators in
  the sources, and derives the round trips. \<open>RPC_CHECKSUMMING\<close> is not defined by the build,
  so the header has 24 bytes.
\<close>

section \<open>The headers\<close>

record req_header =
  rq_xid :: u32
  rq_proc :: u32
  rq_clt_nonce :: u32
  rq_srv_nonce :: u32
  rq_xid_rep :: u32

record reply_header =
  rp_xid :: u32
  rp_ret :: u32

abbreviation DEFAULT_RPC_SZ :: nat where
  "DEFAULT_RPC_SZ \<equiv> 1024"

text \<open>\<open>max(sizeof(req_header), sizeof(reply_header)) + sizeof(rpc_sz_t)\<close>\<close>

abbreviation RPC_HEADER_SZ :: nat where
  "RPC_HEADER_SZ \<equiv> 24"

section \<open>The class marshall\<close>

record marshall =
  m_buf :: "(nat \<rightharpoonup> u8) option"
  m_capa :: nat
  m_ind :: nat

definition marshall_new :: marshall where
  "marshall_new = \<lparr>m_buf = Some Map.empty, m_capa = DEFAULT_RPC_SZ, m_ind = RPC_HEADER_SZ\<rparr>"

text \<open>The bytes \<open>cstr()\<close> points to, \<open>size()\<close> of them.\<close>

definition m_contents :: "marshall \<Rightarrow> cells" where
  "m_contents m = (case m_buf m of None \<Rightarrow> [] | Some b \<Rightarrow> map b [0..<m_ind m])"

text \<open>\<open>assert (_buf != NULL); _buf = (char *)realloc(_buf, _capa);\<close> after \<open>_capa = c\<close>.\<close>

definition marshall_realloc :: "marshall \<Rightarrow> nat \<Rightarrow> marshall option" where
  "marshall_realloc m c =
     (if m_buf m = None \<or> INT_MAX < c then None else Some (m\<lparr>m_capa := c\<rparr>))"

text \<open>\<open>memcpy(_buf + _ind, p, n); _ind += n;\<close> with the bytes of \<open>p\<close> as a list.\<close>

definition write_at :: "(nat \<rightharpoonup> u8) \<Rightarrow> nat \<Rightarrow> bytes \<Rightarrow> (nat \<rightharpoonup> u8)" where
  "write_at b i xs = (\<lambda>j. if i \<le> j \<and> j < i + length xs then Some (xs ! (j - i)) else b j)"

definition marshall_poke :: "marshall \<Rightarrow> bytes \<Rightarrow> marshall option" where
  "marshall_poke m xs =
     (case m_buf m of
        None \<Rightarrow> None
      | Some b \<Rightarrow>
          if m_ind m + length xs \<le> m_capa m
          then Some (m\<lparr>m_buf := Some (write_at b (m_ind m) xs), m_ind := m_ind m + length xs\<rparr>)
          else None)"

definition marshall_rawbyte :: "marshall \<Rightarrow> u8 \<Rightarrow> marshall option" where
  "marshall_rawbyte m x = do {
     m \<leftarrow> (if m_capa m \<le> m_ind m then marshall_realloc m (m_capa m * 2) else Some m);
     marshall_poke m [x]
   }"

definition marshall_rawbytes :: "marshall \<Rightarrow> bytes \<Rightarrow> marshall option" where
  "marshall_rawbytes m p = (let n = length p in do {
     m \<leftarrow> (if m_capa m < m_ind m + n
          then marshall_realloc m (if n < m_capa m then 2 * m_capa m else m_capa m + n)
          else Some m);
     marshall_poke m p
   })"

subsection \<open>The insertion operators\<close>

definition marshall_uchar :: "marshall \<Rightarrow> u8 \<Rightarrow> marshall option" where
  "marshall_uchar m x = marshall_rawbyte m x"

definition marshall_char :: "marshall \<Rightarrow> u8 \<Rightarrow> marshall option" where
  "marshall_char m x = marshall_uchar m x"

definition marshall_ushort :: "marshall \<Rightarrow> u16 \<Rightarrow> marshall option" where
  "marshall_ushort m x = do {
     m \<leftarrow> marshall_rawbyte m (byte_at 8 x);
     marshall_rawbyte m (byte_at 0 x)
   }"

definition marshall_short :: "marshall \<Rightarrow> u16 \<Rightarrow> marshall option" where
  "marshall_short m x = marshall_ushort m x"

definition marshall_uint :: "marshall \<Rightarrow> u32 \<Rightarrow> marshall option" where
  "marshall_uint m x = do {
     m \<leftarrow> marshall_rawbyte m (byte_at 24 x);
     m \<leftarrow> marshall_rawbyte m (byte_at 16 x);
     m \<leftarrow> marshall_rawbyte m (byte_at 8 x);
     marshall_rawbyte m (byte_at 0 x)
   }"

definition marshall_int :: "marshall \<Rightarrow> u32 \<Rightarrow> marshall option" where
  "marshall_int m x = marshall_uint m x"

text \<open>\<open>s.size()\<close> is cut to an \<open>unsigned int\<close> for the length field and to an \<open>int\<close> for the
  copy, where a size past \<open>INT_MAX\<close> becomes negative.\<close>

definition marshall_string :: "marshall \<Rightarrow> bytes \<Rightarrow> marshall option" where
  "marshall_string m s = do {
     m \<leftarrow> marshall_uint m (of_nat (length s));
     if length s \<le> INT_MAX then marshall_rawbytes m s else None
   }"

definition marshall_ulonglong :: "marshall \<Rightarrow> u64 \<Rightarrow> marshall option" where
  "marshall_ulonglong m x = do {
     m \<leftarrow> marshall_uint m (ucast (drop_bit 32 x));
     marshall_uint m (ucast x)
   }"

definition marshall_pack :: "marshall \<Rightarrow> u32 \<Rightarrow> marshall option" where
  "marshall_pack m x = do {
     m \<leftarrow> marshall_rawbyte m (byte_at 24 x);
     m \<leftarrow> marshall_rawbyte m (byte_at 16 x);
     m \<leftarrow> marshall_rawbyte m (byte_at 8 x);
     marshall_rawbyte m (byte_at 0 x)
   }"

fun marshall_elems :: "(marshall \<Rightarrow> 'a \<Rightarrow> marshall option) \<Rightarrow> marshall \<Rightarrow> 'a list \<Rightarrow> marshall option" where
  "marshall_elems put m [] = Some m"
| "marshall_elems put m (x # xs) = do { m \<leftarrow> put m x; marshall_elems put m xs }"

definition marshall_vector :: "(marshall \<Rightarrow> 'a \<Rightarrow> marshall option) \<Rightarrow> marshall \<Rightarrow> 'a list \<Rightarrow> marshall option" where
  "marshall_vector put m v = do {
     m \<leftarrow> marshall_uint m (of_nat (length v));
     marshall_elems put m v
   }"

text \<open>A \<open>std::map\<close> is the list of its pairs in key order, the order its iterators follow.\<close>

definition marshall_map ::
  "(marshall \<Rightarrow> 'a \<Rightarrow> marshall option) \<Rightarrow> (marshall \<Rightarrow> 'b \<Rightarrow> marshall option) \<Rightarrow>
   marshall \<Rightarrow> ('a \<times> 'b) list \<Rightarrow> marshall option" where
  "marshall_map putA putB m d = do {
     m \<leftarrow> marshall_uint m (of_nat (length d));
     marshall_elems (\<lambda>m (a, b). do { m \<leftarrow> putA m a; putB m b }) m d
   }"

subsection \<open>Headers and the hand-over of the buffer\<close>

definition pack_req_header :: "marshall \<Rightarrow> req_header \<Rightarrow> marshall option" where
  "pack_req_header m h = (let saved_sz = m_ind m in do {
     m \<leftarrow> marshall_pack (m\<lparr>m_ind := 4\<rparr>) (rq_xid h);
     m \<leftarrow> marshall_pack m (rq_proc h);
     m \<leftarrow> marshall_pack m (rq_clt_nonce h);
     m \<leftarrow> marshall_pack m (rq_srv_nonce h);
     m \<leftarrow> marshall_pack m (rq_xid_rep h);
     Some (m\<lparr>m_ind := saved_sz\<rparr>)
   })"

definition pack_reply_header :: "marshall \<Rightarrow> reply_header \<Rightarrow> marshall option" where
  "pack_reply_header m h = (let saved_sz = m_ind m in do {
     m \<leftarrow> marshall_pack (m\<lparr>m_ind := 4\<rparr>) (rp_xid h);
     m \<leftarrow> marshall_pack m (rp_ret h);
     Some (m\<lparr>m_ind := saved_sz\<rparr>)
   })"

text \<open>\<open>take_buf(&b, &s)\<close>: the caller gets the first \<open>s\<close> cells, the object is left empty.\<close>

definition marshall_take_buf :: "marshall \<Rightarrow> cells \<times> marshall" where
  "marshall_take_buf m = (m_contents m, m\<lparr>m_buf := None, m_ind := 0\<rparr>)"

section \<open>The class unmarshall\<close>

record unmarshall =
  u_buf :: bytes
  u_sz :: nat
  u_ind :: nat
  u_ok :: bool

definition unmarshall_new :: unmarshall where
  "unmarshall_new = \<lparr>u_buf = [], u_sz = 0, u_ind = 0, u_ok = False\<rparr>"

definition unmarshall_of :: "bytes \<Rightarrow> nat \<Rightarrow> unmarshall" where
  "unmarshall_of b sz = \<lparr>u_buf = b, u_sz = sz, u_ind = 0, u_ok = True\<rparr>"

definition okdone :: "unmarshall \<Rightarrow> bool" where
  "okdone u \<longleftrightarrow> u_ok u \<and> u_ind u = u_sz u"

text \<open>The byte is read into a \<open>char\<close>, which is signed, and widened to \<open>unsigned int\<close>.\<close>

definition unmarshall_rawbyte :: "unmarshall \<Rightarrow> (u32 \<times> unmarshall) option" where
  "unmarshall_rawbyte u =
     (if u_sz u \<le> u_ind u then Some (0, u\<lparr>u_ok := False\<rparr>)
      else if u_ind u < length (u_buf u)
      then Some (scast (u_buf u ! u_ind u), u\<lparr>u_ind := Suc (u_ind u)\<rparr>)
      else None)"

text \<open>The sum \<open>_ind + n\<close> is computed as an \<open>unsigned int\<close> and can wrap around; a read past
  the end of the buffer is undefined.\<close>

definition unmarshall_rawbytes :: "unmarshall \<Rightarrow> bytes \<Rightarrow> u32 \<Rightarrow> (bytes \<times> unmarshall) option" where
  "unmarshall_rawbytes u ss n =
     (if of_nat (u_sz u) < (of_nat (u_ind u) + n :: u32) then Some (ss, u\<lparr>u_ok := False\<rparr>)
      else if u_ind u + unat n \<le> length (u_buf u)
      then Some (take (unat n) (drop (u_ind u) (u_buf u)), u\<lparr>u_ind := u_ind u + unat n\<rparr>)
      else None)"

subsection \<open>The extraction operators\<close>

definition unmarshall_uchar :: "unmarshall \<Rightarrow> (u8 \<times> unmarshall) option" where
  "unmarshall_uchar u = do { (c, u) \<leftarrow> unmarshall_rawbyte u; Some (ucast c, u) }"

definition unmarshall_char :: "unmarshall \<Rightarrow> (u8 \<times> unmarshall) option" where
  "unmarshall_char u = do { (c, u) \<leftarrow> unmarshall_rawbyte u; Some (ucast c, u) }"

definition unmarshall_ushort :: "unmarshall \<Rightarrow> (u16 \<times> unmarshall) option" where
  "unmarshall_ushort u = do {
     (a, u) \<leftarrow> unmarshall_rawbyte u;
     (b, u) \<leftarrow> unmarshall_rawbyte u;
     Some (ucast (push_bit 8 (a AND 0xff)) OR ucast (b AND 0xff), u)
   }"

definition unmarshall_short :: "unmarshall \<Rightarrow> (u16 \<times> unmarshall) option" where
  "unmarshall_short u = do {
     (a, u) \<leftarrow> unmarshall_rawbyte u;
     (b, u) \<leftarrow> unmarshall_rawbyte u;
     Some (ucast (push_bit 8 (a AND 0xff)) OR ucast (b AND 0xff), u)
   }"

definition unmarshall_uint :: "unmarshall \<Rightarrow> (u32 \<times> unmarshall) option" where
  "unmarshall_uint u = do {
     (a, u) \<leftarrow> unmarshall_rawbyte u;
     (b, u) \<leftarrow> unmarshall_rawbyte u;
     (c, u) \<leftarrow> unmarshall_rawbyte u;
     (d, u) \<leftarrow> unmarshall_rawbyte u;
     Some (push_bit 24 (a AND 0xff) OR push_bit 16 (b AND 0xff) OR push_bit 8 (c AND 0xff)
       OR (d AND 0xff), u)
   }"

definition unmarshall_int :: "unmarshall \<Rightarrow> (u32 \<times> unmarshall) option" where
  "unmarshall_int u = do {
     (a, u) \<leftarrow> unmarshall_rawbyte u;
     (b, u) \<leftarrow> unmarshall_rawbyte u;
     (c, u) \<leftarrow> unmarshall_rawbyte u;
     (d, u) \<leftarrow> unmarshall_rawbyte u;
     Some (push_bit 24 (a AND 0xff) OR push_bit 16 (b AND 0xff) OR push_bit 8 (c AND 0xff)
       OR (d AND 0xff), u)
   }"

definition unmarshall_unpack :: "unmarshall \<Rightarrow> (u32 \<times> unmarshall) option" where
  "unmarshall_unpack u = do {
     (a, u) \<leftarrow> unmarshall_rawbyte u;
     (b, u) \<leftarrow> unmarshall_rawbyte u;
     (c, u) \<leftarrow> unmarshall_rawbyte u;
     (d, u) \<leftarrow> unmarshall_rawbyte u;
     Some (push_bit 24 (a AND 0xff) OR push_bit 16 (b AND 0xff) OR push_bit 8 (c AND 0xff)
       OR (d AND 0xff), u)
   }"

definition unmarshall_ulonglong :: "unmarshall \<Rightarrow> (u64 \<times> unmarshall) option" where
  "unmarshall_ulonglong u = do {
     (h, u) \<leftarrow> unmarshall_uint u;
     (l, u) \<leftarrow> unmarshall_uint u;
     Some (ucast l OR push_bit 32 (ucast h), u)
   }"

text \<open>The string \<open>s\<close> keeps its old value when the length field cannot be read.\<close>

definition unmarshall_string :: "bytes \<Rightarrow> unmarshall \<Rightarrow> (bytes \<times> unmarshall) option" where
  "unmarshall_string s u = do {
     (sz, u) \<leftarrow> unmarshall_uint u;
     if u_ok u then unmarshall_rawbytes u s sz else Some (s, u)
   }"

fun unmarshall_elems ::
  "(unmarshall \<Rightarrow> ('a \<times> unmarshall) option) \<Rightarrow> nat \<Rightarrow> 'a list \<Rightarrow> unmarshall \<Rightarrow> ('a list \<times> unmarshall) option" where
  "unmarshall_elems get 0 v u = Some (v, u)"
| "unmarshall_elems get (Suc n) v u = do {
     (z, u) \<leftarrow> get u;
     unmarshall_elems get n (v @ [z]) u
   }"

definition unmarshall_vector ::
  "(unmarshall \<Rightarrow> ('a \<times> unmarshall) option) \<Rightarrow> 'a list \<Rightarrow> unmarshall \<Rightarrow> ('a list \<times> unmarshall) option" where
  "unmarshall_vector get v u = do {
     (n, u) \<leftarrow> unmarshall_uint u;
     unmarshall_elems get (unat n) v u
   }"

text \<open>\<open>d[a] = b\<close> on a map held as its sorted list of pairs.\<close>

fun map_assign :: "'a::linorder \<Rightarrow> 'b \<Rightarrow> ('a \<times> 'b) list \<Rightarrow> ('a \<times> 'b) list" where
  "map_assign a b [] = [(a, b)]"
| "map_assign a b ((k, v) # d) =
     (if a < k then (a, b) # (k, v) # d
      else if a = k then (k, b) # d
      else (k, v) # map_assign a b d)"

fun unmarshall_pairs ::
  "(unmarshall \<Rightarrow> ('a::linorder \<times> unmarshall) option) \<Rightarrow> (unmarshall \<Rightarrow> ('b \<times> unmarshall) option) \<Rightarrow>
   nat \<Rightarrow> ('a \<times> 'b) list \<Rightarrow> unmarshall \<Rightarrow> (('a \<times> 'b) list \<times> unmarshall) option" where
  "unmarshall_pairs getA getB 0 d u = Some (d, u)"
| "unmarshall_pairs getA getB (Suc n) d u = do {
     (a, u) \<leftarrow> getA u;
     (b, u) \<leftarrow> getB u;
     unmarshall_pairs getA getB n (map_assign a b d) u
   }"

definition unmarshall_map ::
  "(unmarshall \<Rightarrow> ('a::linorder \<times> unmarshall) option) \<Rightarrow> (unmarshall \<Rightarrow> ('b \<times> unmarshall) option) \<Rightarrow>
   unmarshall \<Rightarrow> (('a \<times> 'b) list \<times> unmarshall) option" where
  "unmarshall_map getA getB u = do {
     (n, u) \<leftarrow> unmarshall_uint u;
     unmarshall_pairs getA getB (unat n) [] u
   }"

subsection \<open>Headers and the hand-over of the buffer\<close>

definition unpack_req_header :: "unmarshall \<Rightarrow> (req_header \<times> unmarshall) option" where
  "unpack_req_header u = do {
     (x, u) \<leftarrow> unmarshall_unpack (u\<lparr>u_ind := 4\<rparr>);
     (p, u) \<leftarrow> unmarshall_unpack u;
     (c, u) \<leftarrow> unmarshall_unpack u;
     (s, u) \<leftarrow> unmarshall_unpack u;
     (xi, u) \<leftarrow> unmarshall_unpack u;
     Some (\<lparr>rq_xid = x, rq_proc = p, rq_clt_nonce = c, rq_srv_nonce = s, rq_xid_rep = xi\<rparr>,
           u\<lparr>u_ind := RPC_HEADER_SZ\<rparr>)
   }"

definition unpack_reply_header :: "unmarshall \<Rightarrow> (reply_header \<times> unmarshall) option" where
  "unpack_reply_header u = do {
     (x, u) \<leftarrow> unmarshall_unpack (u\<lparr>u_ind := 4\<rparr>);
     (r, u) \<leftarrow> unmarshall_unpack u;
     Some (\<lparr>rp_xid = x, rp_ret = r\<rparr>, u\<lparr>u_ind := RPC_HEADER_SZ\<rparr>)
   }"

definition unmarshall_take_buf :: "unmarshall \<Rightarrow> (bytes \<times> nat) \<times> unmarshall" where
  "unmarshall_take_buf u = ((u_buf u, u_sz u), u\<lparr>u_buf := [], u_sz := 0, u_ind := 0\<rparr>)"

text \<open>\<open>take_in(another)\<close>: returns the receiving object and what is left of the other.\<close>

definition unmarshall_take_in :: "unmarshall \<Rightarrow> unmarshall \<Rightarrow> unmarshall \<times> unmarshall" where
  "unmarshall_take_in u another =
     (let ((b, sz), another') = unmarshall_take_buf another
      in (u\<lparr>u_buf := b, u_sz := sz, u_ind := RPC_HEADER_SZ, u_ok := (RPC_HEADER_SZ \<le> sz)\<rparr>, another'))"

lemmas [marsh_defs] =
  marshall_uchar_def marshall_char_def marshall_ushort_def marshall_short_def marshall_uint_def
  marshall_int_def marshall_pack_def marshall_ulonglong_def
  unmarshall_uchar_def unmarshall_char_def unmarshall_ushort_def unmarshall_short_def
  unmarshall_uint_def unmarshall_int_def unmarshall_unpack_def unmarshall_ulonglong_def

end
