(* ===== verification/Codec.thy ===== *)
theory Codec
  imports Marshall
begin

text \<open>
  The contract of the marshalling layer. \<open>put_ok f bs\<close> says that a marshalling step \<open>f\<close>
  succeeds on every well-formed object with room below the \<open>int\<close> limit and appends exactly
  the bytes \<open>bs\<close>; \<open>get_ok g x bs\<close> says that an unmarshalling step \<open>g\<close> on a buffer whose
  next bytes are \<open>bs\<close> yields \<open>x\<close> and moves the read head past them; \<open>get_frame g\<close> says that
  \<open>g\<close> never changes the buffer, moves the head backwards or clears an earlier error. The
  locale \<open>codec\<close> bundles the three for one wire type. It is interpreted here for the
  arithmetic types, \<open>std::string\<close>, and, from element codecs, \<open>std::vector\<close> and \<open>std::map\<close>.
\<close>

section \<open>Well-formed objects\<close>

abbreviation MARSH_LIMIT :: nat where
  "MARSH_LIMIT \<equiv> 1073741824"

definition marsh_wf :: "marshall \<Rightarrow> bool" where
  "marsh_wf m \<longleftrightarrow> m_buf m \<noteq> None \<and> m_ind m \<le> m_capa m \<and> RPC_HEADER_SZ \<le> m_capa m \<and> m_capa m \<le> INT_MAX"

definition unm_wf :: "unmarshall \<Rightarrow> bool" where
  "unm_wf u \<longleftrightarrow> u_sz u \<le> length (u_buf u) \<and> u_sz u \<le> INT_MAX"

definition u_rest :: "unmarshall \<Rightarrow> bytes" where
  "u_rest u = drop (u_ind u) (take (u_sz u) (u_buf u))"

definition put_ok :: "(marshall \<Rightarrow> marshall option) \<Rightarrow> bytes \<Rightarrow> bool" where
  "put_ok f bs \<longleftrightarrow>
     (\<forall>m. marsh_wf m \<longrightarrow> m_ind m + length bs < MARSH_LIMIT \<longrightarrow>
        (\<exists>m'. f m = Some m' \<and> marsh_wf m' \<and> m_contents m' = m_contents m @ map Some bs))"

definition get_ok :: "(unmarshall \<Rightarrow> ('a \<times> unmarshall) option) \<Rightarrow> 'a \<Rightarrow> bytes \<Rightarrow> bool" where
  "get_ok g x bs \<longleftrightarrow>
     (\<forall>u r. unm_wf u \<longrightarrow> u_ok u \<longrightarrow> u_rest u = bs @ r \<longrightarrow>
        g u = Some (x, u\<lparr>u_ind := u_ind u + length bs\<rparr>))"

definition unm_ext :: "unmarshall \<Rightarrow> unmarshall \<Rightarrow> bool" where
  "unm_ext u u' \<longleftrightarrow> u_buf u' = u_buf u \<and> u_sz u' = u_sz u \<and> u_ind u \<le> u_ind u' \<and> (u_ok u' \<longrightarrow> u_ok u)"

definition get_frame :: "(unmarshall \<Rightarrow> ('a \<times> unmarshall) option) \<Rightarrow> bool" where
  "get_frame g \<longleftrightarrow> (\<forall>u x u'. g u = Some (x, u') \<longrightarrow> unm_ext u u')"

section \<open>Marshalling: appending\<close>

lemma m_contents_Some: "m_buf m = Some b \<Longrightarrow> m_contents m = map b [0..<m_ind m]"
  by (simp add: m_contents_def)

lemma length_m_contents [simp]: "marsh_wf m \<Longrightarrow> length (m_contents m) = m_ind m"
  by (auto simp: marsh_wf_def m_contents_def)

lemma map_write_at:
  "map (write_at b i xs) [0..<i + length xs] = map b [0..<i] @ map Some xs"
  by (rule nth_equalityI) (auto simp: write_at_def nth_append)

lemma marshall_poke_app:
  assumes "marsh_wf m" and "m_ind m + length xs \<le> m_capa m"
  shows "\<exists>m'. marshall_poke m xs = Some m' \<and> marsh_wf m' \<and> m_contents m' = m_contents m @ map Some xs"
proof -
  from assms obtain b where b: "m_buf m = Some b" by (auto simp: marsh_wf_def)
  with assms show ?thesis
    by (simp add: marshall_poke_def marsh_wf_def m_contents_def map_write_at del: upt_Suc)
qed

lemma put_ok_rawbyte [codec_laws]: "put_ok (\<lambda>m. marshall_rawbyte m x) [x]"
  unfolding put_ok_def
proof (intro allI impI)
  fix m assume wf: "marsh_wf m" and room: "m_ind m + length [x] < MARSH_LIMIT"
  define m1 where "m1 = (if m_capa m \<le> m_ind m then m\<lparr>m_capa := m_capa m * 2\<rparr> else m)"
  have grow: "(if m_capa m \<le> m_ind m then marshall_realloc m (m_capa m * 2) else Some m) = Some m1"
    using wf room by (auto simp: m1_def marshall_realloc_def marsh_wf_def)
  have "marsh_wf m1" and "m_ind m1 + length [x] \<le> m_capa m1" and "m_contents m1 = m_contents m"
    using wf room by (auto simp: m1_def marsh_wf_def m_contents_def)
  with marshall_poke_app [of m1 "[x]"] show "\<exists>m'. marshall_rawbyte m x = Some m' \<and> marsh_wf m' \<and>
      m_contents m' = m_contents m @ map Some [x]"
    unfolding marshall_rawbyte_def grow by simp
qed

lemma put_ok_rawbytes [codec_laws]: "put_ok (\<lambda>m. marshall_rawbytes m p) p"
  unfolding put_ok_def
proof (intro allI impI)
  fix m assume wf: "marsh_wf m" and room: "m_ind m + length p < MARSH_LIMIT"
  let ?c = "if length p < m_capa m then 2 * m_capa m else m_capa m + length p"
  define m1 where "m1 = (if m_capa m < m_ind m + length p then m\<lparr>m_capa := ?c\<rparr> else m)"
  have grow: "(if m_capa m < m_ind m + length p then marshall_realloc m ?c else Some m) = Some m1"
    using wf room by (auto simp: m1_def marshall_realloc_def marsh_wf_def)
  have "marsh_wf m1" and "m_ind m1 + length p \<le> m_capa m1" and "m_contents m1 = m_contents m"
    using wf room by (auto simp: m1_def marsh_wf_def m_contents_def)
  with marshall_poke_app [of m1 p] show "\<exists>m'. marshall_rawbytes m p = Some m' \<and> marsh_wf m' \<and>
      m_contents m' = m_contents m @ map Some p"
    unfolding marshall_rawbytes_def Let_def grow by simp
qed

lemma put_okD:
  assumes "put_ok f bs" and "marsh_wf m" and "m_ind m + length bs < MARSH_LIMIT"
  obtains m' where "f m = Some m'" and "marsh_wf m'" and "m_contents m' = m_contents m @ map Some bs"
    and "m_ind m' = m_ind m + length bs"
proof -
  from assms obtain m' where m': "f m = Some m'" "marsh_wf m'" "m_contents m' = m_contents m @ map Some bs"
    unfolding put_ok_def by blast
  then have "m_ind m' = m_ind m + length bs"
    using assms(2) by (metis length_append length_m_contents length_map)
  with m' that show ?thesis by blast
qed

lemma put_ok_Some: "put_ok Some []"
  by (simp add: put_ok_def)

lemma put_ok_bind:
  assumes f: "put_ok f a" and g: "put_ok g b"
  shows "put_ok (\<lambda>m. Option.bind (f m) g) (a @ b)"
  unfolding put_ok_def
proof (intro allI impI)
  fix m assume wf: "marsh_wf m" and room: "m_ind m + length (a @ b) < MARSH_LIMIT"
  from f wf obtain m1 where m1: "f m = Some m1" "marsh_wf m1" "m_contents m1 = m_contents m @ map Some a"
      "m_ind m1 = m_ind m + length a"
    by (rule put_okD) (use room in simp)
  from g m1(2) obtain m2 where "g m1 = Some m2" "marsh_wf m2" "m_contents m2 = m_contents m1 @ map Some b"
    by (rule put_okD) (use room m1(4) in simp)
  with m1 show "\<exists>m'. Option.bind (f m) g = Some m' \<and> marsh_wf m' \<and>
      m_contents m' = m_contents m @ map Some (a @ b)"
    by simp
qed

lemma put_ok_cong: "put_ok f a \<Longrightarrow> a = b \<Longrightarrow> put_ok f b"
  by simp

lemma put_ok_uint [codec_laws]: "put_ok (\<lambda>m. marshall_uint m x) (be32 x)"
  unfolding marshall_uint_def be32_def
  by (rule put_ok_cong, (rule put_ok_bind put_ok_rawbyte)+) simp

lemma put_ok_pack [codec_laws]: "put_ok (\<lambda>m. marshall_pack m x) (be32 x)"
  unfolding marshall_pack_def be32_def
  by (rule put_ok_cong, (rule put_ok_bind put_ok_rawbyte)+) simp

lemma put_ok_ushort [codec_laws]: "put_ok (\<lambda>m. marshall_ushort m x) (be16 x)"
  unfolding marshall_ushort_def be16_def
  by (rule put_ok_cong, (rule put_ok_bind put_ok_rawbyte)+) simp

lemma put_ok_ulonglong [codec_laws]: "put_ok (\<lambda>m. marshall_ulonglong m x) (be64 x)"
  unfolding marshall_ulonglong_def be64_def
  by (rule put_ok_bind put_ok_uint)+

text \<open>The reference encodings of the composite types.\<close>

definition enc_string :: "bytes \<Rightarrow> bytes" where
  "enc_string s = be32 (of_nat (length s)) @ s"

definition enc_vector :: "('a \<Rightarrow> bytes) \<Rightarrow> 'a list \<Rightarrow> bytes" where
  "enc_vector enc v = be32 (of_nat (length v)) @ concat (map enc v)"

definition enc_pair :: "('a \<Rightarrow> bytes) \<Rightarrow> ('b \<Rightarrow> bytes) \<Rightarrow> 'a \<times> 'b \<Rightarrow> bytes" where
  "enc_pair encA encB ab = encA (fst ab) @ encB (snd ab)"

lemma enc_pair_Pair [simp]: "enc_pair encA encB (a, b) = encA a @ encB b"
  by (simp add: enc_pair_def)

definition short_list :: "'a list \<Rightarrow> bool" where
  "short_list xs \<longleftrightarrow> length xs \<le> INT_MAX"

lemma sint_of_nat_u32: "n \<le> INT_MAX \<Longrightarrow> sint (of_nat n :: u32) = int n"
  by (simp add: signed_of_nat signed_take_bit_int_eq_self)

lemma put_ok_string:
  assumes "short_list s"
  shows "put_ok (\<lambda>m. marshall_string m s) (enc_string s)"
  unfolding marshall_string_def enc_string_def
  by (rule put_ok_bind [OF put_ok_uint]) (use assms put_ok_rawbytes in \<open>simp add: short_list_def\<close>)

lemma put_ok_elems:
  assumes "\<And>x. x \<in> set v \<Longrightarrow> put_ok (\<lambda>m. put m x) (enc x)"
  shows "put_ok (\<lambda>m. marshall_elems put m v) (concat (map enc v))"
  using assms
proof (induction v)
  case Nil
  show ?case by (simp add: put_ok_Some)
next
  case (Cons x v)
  have "put_ok (\<lambda>m. put m x) (enc x)" and "put_ok (\<lambda>m. marshall_elems put m v) (concat (map enc v))"
    using Cons by simp_all
  then show ?case using put_ok_bind by fastforce
qed

lemma put_ok_vector:
  assumes "\<And>x. x \<in> set v \<Longrightarrow> put_ok (\<lambda>m. put m x) (enc x)"
  shows "put_ok (\<lambda>m. marshall_vector put m v) (enc_vector enc v)"
  unfolding marshall_vector_def enc_vector_def
  by (rule put_ok_bind [OF put_ok_uint]) (rule put_ok_elems [OF assms])

lemma put_ok_map:
  assumes "\<And>a b. (a, b) \<in> set d \<Longrightarrow> put_ok (\<lambda>m. putA m a) (encA a) \<and> put_ok (\<lambda>m. putB m b) (encB b)"
  shows "put_ok (\<lambda>m. marshall_map putA putB m d) (enc_vector (enc_pair encA encB) d)"
  unfolding marshall_map_def enc_vector_def
proof (rule put_ok_bind [OF put_ok_uint], rule put_ok_elems)
  fix ab assume "ab \<in> set d"
  moreover obtain a b where "ab = (a, b)" by (cases ab)
  ultimately show "put_ok (\<lambda>m. (\<lambda>(a, b). Option.bind (putA m a) (\<lambda>m. putB m b)) ab) (enc_pair encA encB ab)"
    using assms by (auto simp: enc_pair_def intro: put_ok_bind)
qed

section \<open>Unmarshalling: consuming\<close>

lemma u_rest_Cons:
  assumes "unm_wf u" and "u_rest u = c # r"
  shows "u_ind u < u_sz u" and "u_ind u < length (u_buf u)" and "u_buf u ! u_ind u = c"
    and "u_rest (u\<lparr>u_ind := Suc (u_ind u)\<rparr>) = r"
proof -
  from assms(2) have *: "u_ind u < length (take (u_sz u) (u_buf u))" "take (u_sz u) (u_buf u) ! u_ind u = c"
      "drop (Suc (u_ind u)) (take (u_sz u) (u_buf u)) = r"
    unfolding u_rest_def by (auto dest: drop_eq_ConsD)
  then show "u_ind u < u_sz u" "u_ind u < length (u_buf u)" "u_buf u ! u_ind u = c"
    "u_rest (u\<lparr>u_ind := Suc (u_ind u)\<rparr>) = r"
    by (simp_all add: u_rest_def)
qed

lemma u_rest_append:
  assumes "u_rest u = bs @ r"
  shows "u_rest (u\<lparr>u_ind := u_ind u + length bs\<rparr>) = r"
  using drop_eq_appendD(2) [of "u_ind u" "take (u_sz u) (u_buf u)" bs r] assms
  by (simp add: u_rest_def)

lemma unm_wf_ind [simp]: "unm_wf (u\<lparr>u_ind := i\<rparr>) = unm_wf u"
  by (simp add: unm_wf_def)

lemma get_okD:
  "get_ok g x bs \<Longrightarrow> unm_wf u \<Longrightarrow> u_ok u \<Longrightarrow> u_rest u = bs @ r \<Longrightarrow>
   g u = Some (x, u\<lparr>u_ind := u_ind u + length bs\<rparr>)"
  unfolding get_ok_def by blast

lemma get_ok_rawbyte: "get_ok unmarshall_rawbyte (scast c) [c]"
  unfolding get_ok_def by (auto simp: unmarshall_rawbyte_def u_rest_Cons dest: u_rest_Cons(1))

lemma get_ok_Some: "get_ok (\<lambda>u. Some (x, u)) x []"
  by (simp add: get_ok_def)

lemma get_ok_bind:
  assumes g: "get_ok g x a" and h: "get_ok (h x) y b"
  shows "get_ok (\<lambda>u. Option.bind (g u) (\<lambda>(x, u). h x u)) y (a @ b)"
  unfolding get_ok_def
proof (intro allI impI)
  fix u r assume u: "unm_wf u" "u_ok u" "u_rest u = (a @ b) @ r"
  let ?u = "u\<lparr>u_ind := u_ind u + length a\<rparr>"
  have "g u = Some (x, ?u)" using g u get_okD [of g x a u "b @ r"] by simp
  moreover have "u_rest ?u = b @ r" using u u_rest_append [of u a "b @ r"] by simp
  then have "h x ?u = Some (y, ?u\<lparr>u_ind := u_ind ?u + length b\<rparr>)"
    using h u get_okD [of "h x" y b ?u r] by simp
  ultimately show "Option.bind (g u) (\<lambda>(x, u). h x u)
      = Some (y, u\<lparr>u_ind := u_ind u + length (a @ b)\<rparr>)"
    by (simp add: add.assoc)
qed

lemma get_ok_cong: "get_ok g y b \<Longrightarrow> y = x \<Longrightarrow> b = a \<Longrightarrow> get_ok g x a"
  by simp

lemma get_ok_bind_Some:
  "get_ok g x a \<Longrightarrow> get_ok (\<lambda>u. Option.bind (g u) (\<lambda>(x, u). Some (f x, u))) (f x) a"
  using get_ok_bind [of g x a "\<lambda>x u. Some (f x, u)" "f x" "[]"] by (simp add: get_ok_Some)

lemma get_ok_uchar: "get_ok unmarshall_uchar c [c]"
  unfolding unmarshall_uchar_def
  by (rule get_ok_cong, rule get_ok_bind_Some, rule get_ok_rawbyte) (simp_all add: ucast_scast_u8)

lemma get_ok_char: "get_ok unmarshall_char c [c]"
  unfolding unmarshall_char_def
  by (rule get_ok_cong, rule get_ok_bind_Some, rule get_ok_rawbyte) (simp_all add: ucast_scast_u8)

lemmas get_ok_bytes = get_ok_bind get_ok_rawbyte get_ok_Some

lemma ucast_shift16:
  "(ucast (push_bit 8 (ucast (a :: u8) :: u32)) :: u16) OR ucast (ucast (b :: u8) :: u32) = join16 a b"
  unfolding join16_def by (rule bit_word_eqI) (auto simp: bit_simps)

lemma get_ok_ushort: "get_ok unmarshall_ushort x (be16 x)"
  unfolding unmarshall_ushort_def be16_def
  by (rule get_ok_cong, (rule get_ok_bytes)+)
    (simp_all add: scast_mask ucast_shift16 join16_byte_at)

lemma unmarshall_short_ushort [simp]: "unmarshall_short = unmarshall_ushort"
  by (simp add: fun_eq_iff unmarshall_short_def unmarshall_ushort_def)

lemma get_ok_uint: "get_ok unmarshall_uint x (be32 x)"
  unfolding unmarshall_uint_def be32_def
  by (rule get_ok_cong, (rule get_ok_bytes)+)
    (simp_all add: scast_mask join32_byte_at flip: join32_def)

lemma unmarshall_int_uint [simp]: "unmarshall_int = unmarshall_uint" "unmarshall_unpack = unmarshall_uint"
  by (simp_all add: fun_eq_iff unmarshall_int_def unmarshall_unpack_def unmarshall_uint_def)

lemma get_ok_ulonglong: "get_ok unmarshall_ulonglong x (be64 x)"
  unfolding unmarshall_ulonglong_def be64_def
  by (rule get_ok_cong, (rule get_ok_bind get_ok_uint get_ok_Some)+) (simp_all add: join64_halves)

lemma length_u_rest: "unm_wf u \<Longrightarrow> length (u_rest u) = u_sz u - u_ind u"
  by (simp add: unm_wf_def u_rest_def)

lemma u_rest_len:
  assumes "unm_wf u" and "u_rest u = a @ b" and "a \<noteq> []"
  shows "u_ind u + length a + length b = u_sz u"
proof -
  have "u_sz u - u_ind u = length a + length b" using assms length_u_rest [of u] by simp
  moreover have "0 < length a" using assms(3) by simp
  ultimately show ?thesis by linarith
qed

lemma get_ok_string:
  assumes "short_list s"
  shows "get_ok (unmarshall_string s0) s (enc_string s)"
  unfolding get_ok_def
proof (intro allI impI)
  fix u r assume u: "unm_wf u" "u_ok u" "u_rest u = enc_string s @ r"
  let ?u = "u\<lparr>u_ind := u_ind u + 4\<rparr>"
  have r: "u_rest u = be32 (of_nat (length s)) @ s @ r" using u by (simp add: enc_string_def)
  have 1: "unmarshall_uint u = Some (of_nat (length s), ?u)"
    using get_okD [OF get_ok_uint u(1,2) r] by simp
  have len: "u_ind u + 4 + length s + length r = u_sz u"
    using u_rest_len [OF u(1) r] by (simp add: be32_def)
  have "drop (u_ind u + 4) (take (u_sz u) (u_buf u)) = s @ r"
    using u_rest_append [OF r] by (simp add: u_rest_def)
  then have "take (length s) (drop (u_ind u + 4) (take (u_sz u) (u_buf u))) = s"
    by (rule drop_eq_appendD(1))
  then have s: "take (length s) (drop (u_ind u + 4) (u_buf u)) = s"
    using len by (simp add: drop_take min_absorb1)
  have sum: "of_nat (u_ind u + 4) + (of_nat (length s) :: u32) = of_nat (u_ind u + 4 + length s)"
    by simp
  have "unmarshall_rawbytes ?u s0 (of_nat (length s)) = Some (s, ?u\<lparr>u_ind := u_ind ?u + length s\<rparr>)"
    using u(1) len s unfolding unmarshall_rawbytes_def
    by (simp add: unm_wf_def of_nat_u32_less unat_of_nat_u32 sum del: of_nat_add)
  then show "unmarshall_string s0 u = Some (s, u\<lparr>u_ind := u_ind u + length (enc_string s)\<rparr>)"
    using u(2) 1 by (simp add: unmarshall_string_def enc_string_def add.assoc)
qed

lemma get_ok_elems:
  assumes "\<And>x. x \<in> set v \<Longrightarrow> get_ok get x (enc x)"
  shows "get_ok (unmarshall_elems get (length v) w) (w @ v) (concat (map enc v))"
  using assms
proof (induction v arbitrary: w)
  case Nil
  show ?case by (simp add: get_ok_Some)
next
  case (Cons x v)
  have "get_ok (unmarshall_elems get (length v) (w @ [x])) ((w @ [x]) @ v) (concat (map enc v))"
    by (rule Cons.IH) (use Cons.prems in simp)
  moreover have "get_ok get x (enc x)" using Cons.prems by simp
  ultimately show ?case
    using get_ok_bind [of get x "enc x" "\<lambda>z. unmarshall_elems get (length v) (w @ [z])"]
    by simp
qed

lemma get_ok_vector:
  assumes "short_list v" and "\<And>x. x \<in> set v \<Longrightarrow> get_ok get x (enc x)"
  shows "get_ok (unmarshall_vector get []) v (enc_vector enc v)"
  unfolding unmarshall_vector_def enc_vector_def
proof (rule get_ok_bind [OF get_ok_uint])
  show "get_ok (unmarshall_elems get (unat (of_nat (length v) :: u32)) []) v (concat (map enc v))"
    using get_ok_elems [of v get enc "[]"] assms by (simp add: short_list_def unat_of_nat_u32)
qed

text \<open>A map is written in key order, so each insertion of the decoder goes to the end.\<close>

lemma map_assign_last:
  "(\<And>k v. (k, v) \<in> set d \<Longrightarrow> k < a) \<Longrightarrow> map_assign a b d = d @ [(a, b)]"
proof (induction d)
  case (Cons kv d)
  then show ?case by (cases kv) (auto simp: not_less_iff_gr_or_eq dest: less_asym)
qed simp

lemma get_ok_pairs:
  assumes "sorted_wrt (<) (map fst (w @ d))"
    and "\<And>a b. (a, b) \<in> set d \<Longrightarrow> get_ok getA a (encA a) \<and> get_ok getB b (encB b)"
  shows "get_ok (unmarshall_pairs getA getB (length d) w) (w @ d) (concat (map (enc_pair encA encB) d))"
  using assms
proof (induction d arbitrary: w)
  case Nil
  show ?case by (simp add: get_ok_Some)
next
  case (Cons ab d)
  obtain a b where ab: "ab = (a, b)" by (cases ab)
  have last: "map_assign a b w = w @ [(a, b)]"
    by (rule map_assign_last) (use Cons.prems(1) ab in \<open>force simp: sorted_wrt_append\<close>)
  have "get_ok (unmarshall_pairs getA getB (length d) (w @ [(a, b)])) ((w @ [(a, b)]) @ d)
      (concat (map (enc_pair encA encB) d))"
    by (rule Cons.IH) (use Cons.prems ab in auto)
  moreover have "get_ok getA a (encA a)" and "get_ok getB b (encB b)" using Cons.prems(2) ab by auto
  ultimately have "get_ok (\<lambda>u. Option.bind (getA u) (\<lambda>(a, u). Option.bind (getB u)
      (\<lambda>(b, u). unmarshall_pairs getA getB (length d) (map_assign a b w) u)))
      ((w @ [(a, b)]) @ d) (encA a @ encB b @ concat (map (enc_pair encA encB) d))"
    by (intro get_ok_bind [of getA a] get_ok_bind [of getB b]) (simp_all add: last)
  then show ?case by (simp add: ab)
qed

lemma get_ok_map:
  assumes "short_list d" and "sorted_wrt (<) (map fst d)"
    and "\<And>a b. (a, b) \<in> set d \<Longrightarrow> get_ok getA a (encA a) \<and> get_ok getB b (encB b)"
  shows "get_ok (unmarshall_map getA getB) d (enc_vector (enc_pair encA encB) d)"
  unfolding unmarshall_map_def enc_vector_def
proof (rule get_ok_bind [OF get_ok_uint])
  show "get_ok (unmarshall_pairs getA getB (unat (of_nat (length d) :: u32)) []) d
      (concat (map (enc_pair encA encB) d))"
    using get_ok_pairs [of "[]" d getA encA getB encB] assms
    by (simp add: short_list_def unat_of_nat_u32)
qed

section \<open>Decoders and the buffer they read\<close>

lemma unm_ext_refl: "unm_ext u u"
  by (simp add: unm_ext_def)

lemma unm_ext_trans: "unm_ext u v \<Longrightarrow> unm_ext v w \<Longrightarrow> unm_ext u w"
  by (auto simp: unm_ext_def)

lemma unm_ext_wf [wf_intros]: "unm_ext u u' \<Longrightarrow> unm_wf u \<Longrightarrow> unm_wf u'"
  by (simp add: unm_ext_def unm_wf_def)

lemma get_frameD: "get_frame g \<Longrightarrow> g u = Some (x, u') \<Longrightarrow> unm_ext u u'"
  by (auto simp: get_frame_def)

lemma get_frame_Some: "get_frame (\<lambda>u. Some (x, u))"
  by (simp add: get_frame_def unm_ext_refl)

lemma get_frame_bind:
  assumes "get_frame g" and "\<And>x. get_frame (h x)"
  shows "get_frame (\<lambda>u. Option.bind (g u) (\<lambda>(x, u). h x u))"
  unfolding get_frame_def
proof (intro allI impI)
  fix u y u' assume "Option.bind (g u) (\<lambda>(x, u). h x u) = Some (y, u')"
  then obtain x u1 where "g u = Some (x, u1)" and "h x u1 = Some (y, u')"
    by (auto elim!: bind_SomeE)
  with assms show "unm_ext u u'" by (blast intro: unm_ext_trans get_frameD)
qed

lemma get_frame_if: "get_frame g \<Longrightarrow> get_frame h \<Longrightarrow> get_frame (\<lambda>u. if P u then g u else h u)"
  by (auto simp: get_frame_def)

lemma get_frame_rawbyte: "get_frame unmarshall_rawbyte"
  by (auto simp: get_frame_def unmarshall_rawbyte_def unm_ext_def split: if_splits)

lemma get_frame_rawbytes: "get_frame (\<lambda>u. unmarshall_rawbytes u s n)"
  by (auto simp: get_frame_def unmarshall_rawbytes_def unm_ext_def split: if_splits)

lemmas get_frame_rules = get_frame_bind get_frame_Some get_frame_rawbyte get_frame_rawbytes get_frame_if

lemma get_frame_base:
  "get_frame unmarshall_uchar" "get_frame unmarshall_char" "get_frame unmarshall_ushort"
  "get_frame unmarshall_uint"
  unfolding unmarshall_uchar_def unmarshall_char_def unmarshall_ushort_def unmarshall_uint_def
  by (rule get_frame_rules)+

lemma get_frame_ulonglong: "get_frame unmarshall_ulonglong"
  unfolding unmarshall_ulonglong_def by (rule get_frame_rules get_frame_base)+

lemma get_frame_string: "get_frame (unmarshall_string s)"
  unfolding unmarshall_string_def by (rule get_frame_rules get_frame_base)+

lemma get_frame_elems:
  assumes "get_frame get"
  shows "get_frame (unmarshall_elems get n v)"
proof (induction n arbitrary: v)
  case 0
  show ?case by (simp add: get_frame_Some)
next
  case (Suc n)
  then show ?case using assms by (auto intro: get_frame_bind)
qed

lemma get_frame_pairs:
  assumes "get_frame getA" and "get_frame getB"
  shows "get_frame (unmarshall_pairs getA getB n d)"
proof (induction n arbitrary: d)
  case 0
  show ?case by (simp add: get_frame_Some)
next
  case (Suc n)
  then show ?case using assms by (auto intro!: get_frame_bind)
qed

lemma get_frame_vector: "get_frame get \<Longrightarrow> get_frame (unmarshall_vector get v)"
  unfolding unmarshall_vector_def by (rule get_frame_bind get_frame_base get_frame_elems | assumption)+

lemma get_frame_map: "get_frame getA \<Longrightarrow> get_frame getB \<Longrightarrow> get_frame (unmarshall_map getA getB)"
  unfolding unmarshall_map_def by (rule get_frame_bind get_frame_base get_frame_pairs | assumption)+

section \<open>The contract of a wire type\<close>

text \<open>
  A PDU that was written by a \<open>marshall\<close> object reaches the other side with some value for
  each byte the program left indeterminate.
\<close>

definition wire_of :: "cells \<Rightarrow> bytes \<Rightarrow> bool" where
  "wire_of cs bs \<longleftrightarrow> list_all2 (\<lambda>c b. c = None \<or> c = Some b) cs bs"

lemma wire_of_Some: "wire_of (map Some xs) bs \<longleftrightarrow> bs = xs"
  unfolding wire_of_def by (induction xs arbitrary: bs) (auto simp: list_all2_Cons1)

lemma wire_of_append:
  "wire_of (cs @ ds) bs \<longleftrightarrow> (\<exists>xs ys. bs = xs @ ys \<and> wire_of cs xs \<and> wire_of ds ys)"
proof
  assume "wire_of (cs @ ds) bs"
  then show "\<exists>xs ys. bs = xs @ ys \<and> wire_of cs xs \<and> wire_of ds ys"
    unfolding wire_of_def list_all2_append1 by blast
next
  assume "\<exists>xs ys. bs = xs @ ys \<and> wire_of cs xs \<and> wire_of ds ys"
  then show "wire_of (cs @ ds) bs"
    unfolding wire_of_def by (auto intro: list_all2_appendI)
qed

lemma wire_of_length: "wire_of cs bs \<Longrightarrow> length bs = length cs"
  unfolding wire_of_def by (drule list_all2_lengthD) simp

locale codec =
  fixes put :: "marshall \<Rightarrow> 'a \<Rightarrow> marshall option"
    and get :: "unmarshall \<Rightarrow> ('a \<times> unmarshall) option"
    and enc :: "'a \<Rightarrow> bytes"
    and valid :: "'a \<Rightarrow> bool"
  assumes put_enc: "valid x \<Longrightarrow> put_ok (\<lambda>m. put m x) (enc x)"
    and get_enc: "valid x \<Longrightarrow> get_ok get x (enc x)"
    and get_framed: "get_frame get"
begin

lemma roundtrip:
  assumes x: "valid x" and m: "marsh_wf m" "m_ind m + length (enc x) < MARSH_LIMIT"
  shows "\<exists>m'. put m x = Some m' \<and> (\<forall>bs. wire_of (m_contents m') bs \<longrightarrow>
    (\<exists>u'. get ((unmarshall_of bs (length bs))\<lparr>u_ind := m_ind m\<rparr>) = Some (x, u') \<and> okdone u'))"
proof -
  obtain m' where m': "put m x = Some m'" "marsh_wf m'" "m_contents m' = m_contents m @ map Some (enc x)"
      "m_ind m' = m_ind m + length (enc x)"
    using put_enc [OF x] m by (rule put_okD)
  { fix bs assume w: "wire_of (m_contents m') bs"
    then obtain xs where bs: "bs = xs @ enc x" and xs: "wire_of (m_contents m) xs"
      by (auto simp: m'(3) wire_of_append wire_of_Some)
    have len: "length xs = m_ind m" using wire_of_length [OF xs] m(1) by simp
    let ?u = "(unmarshall_of bs (length bs))\<lparr>u_ind := m_ind m\<rparr>"
    have "unm_wf ?u" "u_ok ?u" "u_rest ?u = enc x @ []"
      using m(2) len by (simp_all add: unm_wf_def unmarshall_of_def u_rest_def bs)
    with get_enc [OF x] have "get ?u = Some (x, ?u\<lparr>u_ind := u_ind ?u + length (enc x)\<rparr>)"
      by (rule get_okD)
    then have "\<exists>u'. get ?u = Some (x, u') \<and> okdone u'"
      using len by (simp add: okdone_def unmarshall_of_def bs) }
  with m'(1) show ?thesis by blast
qed

lemma not_ok_stays: "get u = Some (x, u') \<Longrightarrow> \<not> u_ok u \<Longrightarrow> \<not> okdone u'"
  using get_frameD [OF get_framed] by (auto simp: unm_ext_def okdone_def)

lemma vector_codec:
  "codec (marshall_vector put) (unmarshall_vector get []) (enc_vector enc)
     (\<lambda>v. short_list v \<and> list_all valid v)"
  by unfold_locales
    (auto simp: list_all_iff intro!: put_ok_vector get_ok_vector put_enc get_enc get_frame_vector get_framed)

end

text \<open>Two values in sequence, as the operators of a two-argument call write and read them.\<close>

definition put_pair ::
  "(marshall \<Rightarrow> 'a \<Rightarrow> marshall option) \<Rightarrow> (marshall \<Rightarrow> 'b \<Rightarrow> marshall option) \<Rightarrow>
   marshall \<Rightarrow> 'a \<times> 'b \<Rightarrow> marshall option" where
  "put_pair putA putB m ab = do { m \<leftarrow> putA m (fst ab); putB m (snd ab) }"

definition get_pair ::
  "(unmarshall \<Rightarrow> ('a \<times> unmarshall) option) \<Rightarrow> (unmarshall \<Rightarrow> ('b \<times> unmarshall) option) \<Rightarrow>
   unmarshall \<Rightarrow> (('a \<times> 'b) \<times> unmarshall) option" where
  "get_pair getA getB u = do { (a, u) \<leftarrow> getA u; (b, u) \<leftarrow> getB u; Some ((a, b), u) }"

locale codec_pair =
  fst: codec putA getA encA validA + snd: codec putB getB encB validB
  for putA :: "marshall \<Rightarrow> 'a \<Rightarrow> marshall option" and getA encA validA
    and putB :: "marshall \<Rightarrow> 'b \<Rightarrow> marshall option" and getB encB validB

sublocale codec_pair \<subseteq> codec "put_pair putA putB" "get_pair getA getB" "enc_pair encA encB"
  "\<lambda>ab. validA (fst ab) \<and> validB (snd ab)"
proof (unfold_locales, goal_cases)
  case (1 x)
  then show ?case
    unfolding put_pair_def enc_pair_def by (intro put_ok_bind) (auto intro: fst.put_enc snd.put_enc)
next
  case (2 x)
  then have "get_ok (get_pair getA getB) (fst x, snd x) (encA (fst x) @ encB (snd x) @ [])"
    unfolding get_pair_def
    by (intro get_ok_bind [of getA "fst x"] get_ok_bind [of getB "snd x"] fst.get_enc snd.get_enc get_ok_Some) auto
  then show ?case by (simp add: enc_pair_def)
next
  case 3
  show ?case
    unfolding get_pair_def by (intro get_frame_bind fst.get_framed snd.get_framed get_frame_Some)
qed

section \<open>The wire types of the sources\<close>

interpretation c_uchar: codec marshall_uchar unmarshall_uchar "\<lambda>x. [x]" "\<lambda>_. True"
  by unfold_locales
    (simp_all add: marshall_uchar_def put_ok_rawbyte get_ok_uchar get_frame_base)

interpretation c_char: codec marshall_char unmarshall_char "\<lambda>x. [x]" "\<lambda>_. True"
  by unfold_locales
    (simp_all add: marshall_uchar_def marshall_char_def put_ok_rawbyte get_ok_char get_frame_base)

interpretation c_ushort: codec marshall_ushort unmarshall_ushort be16 "\<lambda>_. True"
  by unfold_locales (simp_all add: put_ok_ushort get_ok_ushort get_frame_base)

interpretation c_short: codec marshall_short unmarshall_short be16 "\<lambda>_. True"
  by unfold_locales (simp_all add: marshall_short_def put_ok_ushort get_ok_ushort get_frame_base)

interpretation c_uint: codec marshall_uint unmarshall_uint be32 "\<lambda>_. True"
  by unfold_locales (simp_all add: put_ok_uint get_ok_uint get_frame_base)

interpretation c_int: codec marshall_int unmarshall_int be32 "\<lambda>_. True"
  by unfold_locales (simp_all add: marshall_int_def put_ok_uint get_ok_uint get_frame_base)

interpretation c_ulonglong: codec marshall_ulonglong unmarshall_ulonglong be64 "\<lambda>_. True"
  by unfold_locales (simp_all add: put_ok_ulonglong get_ok_ulonglong get_frame_ulonglong)

interpretation c_string: codec marshall_string "unmarshall_string s0" enc_string short_list for s0
  by unfold_locales (simp_all add: put_ok_string get_ok_string get_frame_string)

section \<open>The headers\<close>

definition enc_req :: "req_header \<Rightarrow> bytes" where
  "enc_req h = be32 (rq_xid h) @ be32 (rq_proc h) @ be32 (rq_clt_nonce h) @ be32 (rq_srv_nonce h)
     @ be32 (rq_xid_rep h)"

definition enc_reply :: "reply_header \<Rightarrow> bytes" where
  "enc_reply h = be32 (rp_xid h) @ be32 (rp_ret h)"

lemma length_enc_header [simp]: "length (enc_req h) = 20" "length (enc_reply r) = 8"
  by (simp_all add: enc_req_def enc_reply_def)

lemma write_at_append: "write_at (write_at b i xs) (i + length xs) ys = write_at b i (xs @ ys)"
  by (auto simp: write_at_def fun_eq_iff nth_append intro!: arg_cong [where f = "\<lambda>k. ys ! k"])

lemma marshall_rawbyte_room:
  "m_buf m = Some b \<Longrightarrow> m_ind m < m_capa m \<Longrightarrow>
   marshall_rawbyte m x = Some (m\<lparr>m_buf := Some (write_at b (m_ind m) [x]), m_ind := m_ind m + 1\<rparr>)"
  by (simp add: marshall_rawbyte_def marshall_poke_def)

lemma marshall_pack_room:
  assumes "m_buf m = Some b" and "m_ind m + 4 \<le> m_capa m"
  shows "marshall_pack m x = Some (m\<lparr>m_buf := Some (write_at b (m_ind m) (be32 x)), m_ind := m_ind m + 4\<rparr>)"
proof -
  have "write_at (write_at (write_at (write_at b (m_ind m) [byte_at 24 x]) (m_ind m + 1) [byte_at 16 x])
      (m_ind m + 2) [byte_at 8 x]) (m_ind m + 3) [byte_at 0 x] = write_at b (m_ind m) (be32 x)"
    using write_at_append [of b "m_ind m" "[byte_at 24 x]" "[byte_at 16 x]"]
      write_at_append [of b "m_ind m" "[byte_at 24 x, byte_at 16 x]" "[byte_at 8 x]"]
      write_at_append [of b "m_ind m" "[byte_at 24 x, byte_at 16 x, byte_at 8 x]" "[byte_at 0 x]"]
    by (simp add: be32_def numeral_2_eq_2 numeral_3_eq_3)
  with assms show ?thesis
    by (simp add: marshall_pack_def marshall_rawbyte_room numeral_2_eq_2 numeral_3_eq_3)
qed

lemma write_at_be32:
  "write_at (write_at b i xs) j (be32 y) = write_at b i (xs @ be32 y)" if "j = i + length xs"
  using that write_at_append by simp

lemma pack_req_header_room:
  assumes "m_buf m = Some b" and "24 \<le> m_capa m"
  shows "pack_req_header m h = Some (m\<lparr>m_buf := Some (write_at b 4 (enc_req h))\<rparr>)"
  using assms by (simp add: pack_req_header_def marshall_pack_room write_at_be32 enc_req_def)

lemma pack_reply_header_room:
  assumes "m_buf m = Some b" and "24 \<le> m_capa m"
  shows "pack_reply_header m h = Some (m\<lparr>m_buf := Some (write_at b 4 (enc_reply h))\<rparr>)"
  using assms by (simp add: pack_reply_header_def marshall_pack_room write_at_be32 enc_reply_def)

lemma map_write_at_mid:
  assumes "i + length xs \<le> n"
  shows "map (write_at b i xs) [0..<n]
    = take i (map b [0..<n]) @ map Some xs @ drop (i + length xs) (map b [0..<n])"
  by (rule nth_equalityI) (use assms in \<open>auto simp: write_at_def nth_append\<close>)

lemma pack_req_header_contents:
  assumes "marsh_wf m" and "RPC_HEADER_SZ \<le> m_ind m"
  obtains m' where "pack_req_header m h = Some m'" and "marsh_wf m'" and "m_ind m' = m_ind m"
    and "m_contents m' = take 4 (m_contents m) @ map Some (enc_req h) @ drop 24 (m_contents m)"
proof -
  from assms obtain b where b: "m_buf m = Some b" by (auto simp: marsh_wf_def)
  let ?m = "m\<lparr>m_buf := Some (write_at b 4 (enc_req h))\<rparr>"
  have "pack_req_header m h = Some ?m" by (rule pack_req_header_room) (use assms b in \<open>auto simp: marsh_wf_def\<close>)
  moreover have "m_contents ?m = take 4 (m_contents m) @ map Some (enc_req h) @ drop 24 (m_contents m)"
    using map_write_at_mid [of 4 "enc_req h" "m_ind m" b] assms(2) by (simp add: m_contents_def b)
  ultimately show ?thesis using that assms by (simp add: marsh_wf_def)
qed

lemma pack_reply_header_contents:
  assumes "marsh_wf m" and "RPC_HEADER_SZ \<le> m_ind m"
  obtains m' where "pack_reply_header m h = Some m'" and "marsh_wf m'" and "m_ind m' = m_ind m"
    and "m_contents m' = take 4 (m_contents m) @ map Some (enc_reply h) @ drop 12 (m_contents m)"
proof -
  from assms obtain b where b: "m_buf m = Some b" by (auto simp: marsh_wf_def)
  let ?m = "m\<lparr>m_buf := Some (write_at b 4 (enc_reply h))\<rparr>"
  have "pack_reply_header m h = Some ?m" by (rule pack_reply_header_room) (use assms b in \<open>auto simp: marsh_wf_def\<close>)
  moreover have "m_contents ?m = take 4 (m_contents m) @ map Some (enc_reply h) @ drop 12 (m_contents m)"
    using map_write_at_mid [of 4 "enc_reply h" "m_ind m" b] assms(2) by (simp add: m_contents_def b)
  ultimately show ?thesis using that assms by (simp add: marsh_wf_def)
qed

text \<open>Reading a header back from a buffer that holds it at offset 4.\<close>

lemma u_rest_at: "u_sz u = length (u_buf u) \<Longrightarrow> u_rest (u\<lparr>u_ind := i\<rparr>) = drop i (u_buf u)"
  by (simp add: u_rest_def)

lemma unpack_req_header_enc:
  assumes "unm_wf u" and "u_ok u" and "u_sz u = length (u_buf u)" and "u_buf u = xs @ enc_req h @ r"
    and "length xs = 4"
  shows "unpack_req_header u = Some (h, u\<lparr>u_ind := RPC_HEADER_SZ\<rparr>)"
proof -
  have "get_ok (\<lambda>u. do {
     (x, u) \<leftarrow> unmarshall_uint u; (p, u) \<leftarrow> unmarshall_uint u; (c, u) \<leftarrow> unmarshall_uint u;
     (s, u) \<leftarrow> unmarshall_uint u; (xi, u) \<leftarrow> unmarshall_uint u;
     Some (\<lparr>rq_xid = x, rq_proc = p, rq_clt_nonce = c, rq_srv_nonce = s, rq_xid_rep = xi\<rparr>, u) })
     h (enc_req h)"
    by (rule get_ok_cong, (rule get_ok_bind get_ok_uint get_ok_Some)+) (simp_all add: enc_req_def)
  from get_okD [OF this, of "u\<lparr>u_ind := 4\<rparr>" r] assms show ?thesis
    by (auto simp: unpack_req_header_def u_rest_at split: bind_split_asm prod.splits)
qed

lemma unpack_reply_header_enc:
  assumes "unm_wf u" and "u_ok u" and "u_sz u = length (u_buf u)" and "u_buf u = xs @ enc_reply h @ r"
    and "length xs = 4"
  shows "unpack_reply_header u = Some (h, u\<lparr>u_ind := RPC_HEADER_SZ\<rparr>)"
proof -
  have "get_ok (\<lambda>u. do { (x, u) \<leftarrow> unmarshall_uint u; (p, u) \<leftarrow> unmarshall_uint u;
     Some (\<lparr>rp_xid = x, rp_ret = p\<rparr>, u) }) h (enc_reply h)"
    by (rule get_ok_cong, (rule get_ok_bind get_ok_uint get_ok_Some)+) (simp_all add: enc_reply_def)
  from get_okD [OF this, of "u\<lparr>u_ind := 4\<rparr>" r] assms show ?thesis
    by (auto simp: unpack_reply_header_def u_rest_at split: bind_split_asm prod.splits)
qed

lemma unpack_req_header_wire:
  assumes "length xs = 4" and "length r < MARSH_LIMIT" and "b = xs @ enc_req h @ r" and "sz = length b"
  shows "unpack_req_header (unmarshall_of b sz) = Some (h, (unmarshall_of b sz)\<lparr>u_ind := RPC_HEADER_SZ\<rparr>)"
  by (rule unpack_req_header_enc) (use assms in \<open>auto simp: unmarshall_of_def unm_wf_def\<close>)

lemma unpack_reply_header_wire:
  assumes "length xs = 4" and "length r < MARSH_LIMIT" and "b = xs @ enc_reply h @ r" and "sz = length b"
  shows "unpack_reply_header (unmarshall_of b sz) = Some (h, (unmarshall_of b sz)\<lparr>u_ind := RPC_HEADER_SZ\<rparr>)"
  by (rule unpack_reply_header_enc) (use assms in \<open>auto simp: unmarshall_of_def unm_wf_def\<close>)

end
