(* ===== verification/Connection.thy ===== *)
theory Connection
  imports Codec
begin

text \<open>
  The class \<open>connection\<close> of \<open>rpc/connection.h\<close> and \<open>rpc/connection.cc\<close>: the reference count
  and the life of the object, the framing of PDUs on the socket (\<open>writepdu\<close>, \<open>readpdu\<close>), the
  callbacks of the poll thread (\<open>read_cb\<close>, \<open>write_cb\<close>) and \<open>send\<close>.

  What the kernel answers to \<open>read\<close> and \<open>write\<close> is an argument of the operations. What an
  operation asks of the poll manager is a list of requests in its result. \<open>send\<close> blocks: it
  is split where it waits, into \<open>send_start\<close> (up to the wait for \<open>send_complete_\<close>) and
  \<open>send_finish\<close> (after it). \<open>None\<close> is a failed assertion or undefined behaviour.
\<close>

section \<open>The object\<close>

record charbuf =
  cb_buf :: "cells option"
  cb_sz :: int
  cb_solong :: int

definition charbuf_new :: charbuf where
  "charbuf_new = \<lparr>cb_buf = None, cb_sz = 0, cb_solong = 0\<rparr>"

record connection =
  c_fd :: nat
  c_dead :: bool
  c_wpdu :: charbuf
  c_rpdu :: charbuf
  c_waiters :: int
  c_refno :: int
  c_lossy :: int

datatype poll_flag = CB_NONE | CB_RDONLY | CB_WRONLY | CB_RDWR | CB_MASK

datatype poll_req = Add_callback poll_flag | Del_callback poll_flag | Block_remove_fd

definition connection_new :: "nat \<Rightarrow> int \<Rightarrow> connection \<times> poll_req list" where
  "connection_new f1 l1 =
     (\<lparr>c_fd = f1, c_dead = False, c_wpdu = charbuf_new, c_rpdu = charbuf_new, c_waiters = 0,
       c_refno = 1, c_lossy = l1\<rparr>, [Add_callback CB_RDONLY])"

definition closeconn :: "connection \<Rightarrow> connection \<times> poll_req list" where
  "closeconn k = (if \<not> c_dead k then (k\<lparr>c_dead := True\<rparr>, [Block_remove_fd]) else (k, []))"

section \<open>Reference counts\<close>

type_synonym cid = nat
type_synonym conn_heap = "cid \<rightharpoonup> connection"

text \<open>Using a deleted connection, or the null pointer, is undefined. The destructor asserts
  that the connection is dead and that no write is under way.\<close>

definition incref :: "conn_heap \<Rightarrow> cid \<Rightarrow> conn_heap option" where
  "incref H c = do { k \<leftarrow> H c; Some (H(c \<mapsto> k\<lparr>c_refno := c_refno k + 1\<rparr>)) }"

definition isdead :: "conn_heap \<Rightarrow> cid \<Rightarrow> bool option" where
  "isdead H c = map_option c_dead (H c)"

definition conn_ref :: "conn_heap \<Rightarrow> cid \<Rightarrow> int option" where
  "conn_ref H c = map_option c_refno (H c)"

definition delete_conn :: "conn_heap \<Rightarrow> cid \<Rightarrow> connection \<Rightarrow> conn_heap option" where
  "delete_conn H c k = (if c_dead k \<and> cb_buf (c_wpdu k) = None then Some (H(c := None)) else None)"

definition decref :: "conn_heap \<Rightarrow> cid \<Rightarrow> conn_heap option" where
  "decref H c = do {
     k \<leftarrow> H c;
     let k = k\<lparr>c_refno := c_refno k - 1\<rparr>;
     if c_refno k < 0 then None
     else if c_refno k = 0 \<and> c_dead k then delete_conn H c k
     else Some (H(c \<mapsto> k))
   }"

section \<open>Writing a PDU\<close>

text \<open>The answer of \<open>write\<close>: a number of bytes, \<open>EAGAIN\<close>, or another error.\<close>

datatype write_result = Wrote nat | Write_eagain | Write_error

text \<open>Result: what \<open>writepdu\<close> returns, the connection, and the bytes that went out.\<close>

definition writepdu :: "connection \<Rightarrow> write_result \<Rightarrow> (bool \<times> connection \<times> cells) option" where
  "writepdu k w =
     (let p = c_wpdu k in
      if cb_solong p < 0 then None
      else if cb_solong p = cb_sz p then Some (True, k, [])
      else do {
        b \<leftarrow> cb_buf p;
        b \<leftarrow> (if cb_solong p \<noteq> 0 then Some b
             else if length b < 4 then None
             else Some (map Some (be32 (of_int (cb_sz p))) @ drop 4 b));
        let p = p\<lparr>cb_buf := Some b\<rparr>;
        (case w of
           Write_error \<Rightarrow> Some (False, k\<lparr>c_wpdu := p\<lparr>cb_solong := -1, cb_sz := 0\<rparr>\<rparr>, [])
         | Write_eagain \<Rightarrow> Some (True, k\<lparr>c_wpdu := p\<rparr>, [])
         | Wrote n \<Rightarrow> Some (True, k\<lparr>c_wpdu := p\<lparr>cb_solong := cb_solong p + int n\<rparr>\<rparr>,
             take n (drop (nat (cb_solong p)) b)))
      })"

datatype send_outcome = Send_returns bool | Send_finish_now | Send_waits

text \<open>\<open>send\<close> up to its first wait, and the condition under which that wait ends.\<close>

definition send_enter :: "connection \<Rightarrow> connection" where
  "send_enter k = k\<lparr>c_waiters := c_waiters k + 1\<rparr>"

definition send_can_start :: "connection \<Rightarrow> bool" where
  "send_can_start k \<longleftrightarrow> \<not> (\<not> c_dead k \<and> cb_buf (c_wpdu k) \<noteq> None)"

text \<open>\<open>send\<close> from the end of its first wait (the connection is dead or no write is under
  way) to the point where it returns, finishes or waits for \<open>send_complete_\<close>. With
  \<open>lossy_\<close> set the socket may be shut down first, which shows in the answer of \<open>write\<close>.\<close>

definition send_start ::
  "connection \<Rightarrow> cells \<Rightarrow> write_result \<Rightarrow> (send_outcome \<times> connection \<times> cells \<times> poll_req list) option" where
  "send_start k b w =
     (let k = k\<lparr>c_waiters := c_waiters k - 1\<rparr> in
      if c_dead k then Some (Send_returns False, k, [], [])
      else do {
        (ok, k, out) \<leftarrow>
          writepdu (k\<lparr>c_wpdu := \<lparr>cb_buf = Some b, cb_sz = int (length b), cb_solong = 0\<rparr>\<rparr>) w;
        if \<not> ok then Some (Send_finish_now, k\<lparr>c_dead := True\<rparr>, out, [Block_remove_fd])
        else if cb_solong (c_wpdu k) = cb_sz (c_wpdu k) then Some (Send_finish_now, k, out, [])
        else Some (Send_waits, k, out, [Add_callback CB_WRONLY])
      })"

definition send_can_finish :: "connection \<Rightarrow> bool" where
  "send_can_finish k \<longleftrightarrow>
     \<not> (\<not> c_dead k \<and> 0 \<le> cb_solong (c_wpdu k) \<and> cb_solong (c_wpdu k) < cb_sz (c_wpdu k))"

text \<open>Result: the return value, the connection, and whether \<open>send_wait_\<close> is broadcast.\<close>

definition send_finish :: "connection \<Rightarrow> bool \<times> connection \<times> bool" where
  "send_finish k =
     (\<not> c_dead k \<and> cb_solong (c_wpdu k) = cb_sz (c_wpdu k), k\<lparr>c_wpdu := charbuf_new\<rparr>, 0 < c_waiters k)"

text \<open>The poll thread: the socket is ready to be written. The last component says whether
  \<open>send_complete_\<close> is signalled.\<close>

definition write_cb :: "connection \<Rightarrow> nat \<Rightarrow> write_result \<Rightarrow> (connection \<times> cells \<times> poll_req list \<times> bool) option" where
  "write_cb k s w =
     (if c_dead k \<or> c_fd k \<noteq> s then None
      else if cb_sz (c_wpdu k) = 0 then Some (k, [], [Del_callback CB_WRONLY], False)
      else do {
        (ok, k, out) \<leftarrow> writepdu k w;
        if \<not> ok then Some (k\<lparr>c_dead := True\<rparr>, out, [Del_callback CB_RDWR], True)
        else if cb_solong (c_wpdu k) < 0 then None
        else if cb_solong (c_wpdu k) < cb_sz (c_wpdu k) then Some (k, out, [], False)
        else Some (k, out, [], True)
      })"

section \<open>Reading a PDU\<close>

abbreviation MAX_PDU :: int where
  "MAX_PDU \<equiv> 10485760"

text \<open>The answer of \<open>read\<close>: the bytes (none at the end of the stream) or an error, with
  whether \<open>errno\<close> is \<open>EAGAIN\<close> afterwards.\<close>

datatype read_result = Got bytes bool | Read_eagain | Read_error

definition be32_of :: "bytes \<Rightarrow> int" where
  "be32_of bs = sint (join32 (bs ! 0) (bs ! 1) (bs ! 2) (bs ! 3))"

text \<open>The first part: the size field. A size below 4 (negative ones included) makes the
  allocation too small or the count of the next \<open>read\<close> negative: undefined.\<close>

definition readpdu_size :: "connection \<Rightarrow> read_result \<Rightarrow> (bool \<times> connection) option" where
  "readpdu_size k r =
     (case r of
        Read_eagain \<Rightarrow> None
      | Read_error \<Rightarrow> Some (False, k)
      | Got bs _ \<Rightarrow>
          if length bs \<noteq> 4 then Some (False, k)
          else (let sz = be32_of bs in
            if MAX_PDU < sz then Some (False, k)
            else if sz < 4 \<or> cb_buf (c_rpdu k) \<noteq> None then None
            else Some (True, k\<lparr>c_rpdu :=
                   \<lparr>cb_buf = Some (map Some bs @ replicate (nat sz) None), cb_sz = sz, cb_solong = 4\<rparr>\<rparr>)))"

text \<open>The second part: the body, as much of it as there is.\<close>

definition readpdu_body :: "connection \<Rightarrow> read_result \<Rightarrow> (bool \<times> connection) option" where
  "readpdu_body k r =
     (let p = c_rpdu k;
          failed = (\<lambda>eagain. if eagain then (True, k) else (False, k\<lparr>c_rpdu := charbuf_new\<rparr>))
      in case r of
        Read_eagain \<Rightarrow> Some (failed True)
      | Read_error \<Rightarrow> Some (failed False)
      | Got bs eagain \<Rightarrow>
          if bs = [] then Some (failed eagain)
          else do {
            b \<leftarrow> cb_buf p;
            let i = nat (cb_solong p);
            Some (True, k\<lparr>c_rpdu := p\<lparr>cb_buf := Some (take i b @ map Some bs @ drop (i + length bs) b),
                                       cb_solong := cb_solong p + int (length bs)\<rparr>\<rparr>)
          })"

definition readpdu :: "connection \<Rightarrow> read_result \<Rightarrow> read_result \<Rightarrow> (bool \<times> connection) option" where
  "readpdu k r1 r2 =
     (if cb_sz (c_rpdu k) = 0 then do {
        (ok, k) \<leftarrow> readpdu_size k r1;
        if ok then readpdu_body k r2 else Some (False, k)
      } else readpdu_body k r2)"

text \<open>The poll thread: the socket is ready to be read. \<open>got_pdu\<close> is the manager's callback
  with its state. Its result says whether the manager consumed the PDU.\<close>

definition read_cb ::
  "('m \<Rightarrow> cells \<Rightarrow> int \<Rightarrow> (bool \<times> 'm) option) \<Rightarrow> 'm \<Rightarrow> connection \<Rightarrow> nat \<Rightarrow> read_result \<Rightarrow> read_result \<Rightarrow>
   (connection \<times> 'm \<times> poll_req list) option" where
  "read_cb got_pdu mgr k s r1 r2 =
     (if c_fd k \<noteq> s then None
      else if c_dead k then Some (k, mgr, [])
      else do {
        (succ, k) \<leftarrow>
          (if cb_buf (c_rpdu k) = None \<or> cb_solong (c_rpdu k) < cb_sz (c_rpdu k) then readpdu k r1 r2
           else Some (True, k));
        let (k, reqs) = (if succ then (k, []) else (k\<lparr>c_dead := True\<rparr>, [Del_callback CB_RDWR]));
        (case cb_buf (c_rpdu k) of
           Some b \<Rightarrow>
             if cb_sz (c_rpdu k) = cb_solong (c_rpdu k) then do {
               (taken, mgr) \<leftarrow> got_pdu mgr b (cb_sz (c_rpdu k));
               Some (if taken then k\<lparr>c_rpdu := charbuf_new\<rparr> else k, mgr, reqs)
             } else Some (k, mgr, reqs)
         | None \<Rightarrow> Some (k, mgr, reqs))
      })"

end
