(* ===== verification/Rpcs.thy ===== *)
theory Rpcs
  imports Connection
begin

text \<open>
  The server end point of the RPC library: the class \<open>rpcs\<close> of \<open>rpc/rpc.h\<close> and
  \<open>rpc/rpc.cc\<close>. It holds references to connections (theory \<open>Connection\<close>).

  The state of a server is a record with the fields of the class, the heap of connection
  objects it refers to, the state of the application objects whose methods are registered
  as handlers, and the log of the PDUs handed to \<open>connection::send\<close>. \<open>dispatch\<close> follows the
  source in two halves: \<open>dispatch_enter\<close> up to the verdict of
  \<open>checkduplicate_and_update\<close>, and \<open>dispatch_switch\<close> for the \<open>switch\<close> over it; between the two
  other dispatch threads may run, which the concurrent model of the theory \<open>AtMostOnce\<close> uses.
\<close>

section \<open>Return codes\<close>

abbreviation (input) rpc_bind :: u32 where "rpc_bind \<equiv> 1"
abbreviation (input) timeout_failure :: u32 where "timeout_failure \<equiv> - 1"
abbreviation (input) unmarshal_args_failure :: u32 where "unmarshal_args_failure \<equiv> - 2"
abbreviation (input) unmarshal_reply_failure :: u32 where "unmarshal_reply_failure \<equiv> - 3"
abbreviation (input) atmostonce_failure :: u32 where "atmostonce_failure \<equiv> - 4"
abbreviation (input) oldsrv_failure :: u32 where "oldsrv_failure \<equiv> - 5"
abbreviation (input) bind_failure :: u32 where "bind_failure \<equiv> - 6"

section \<open>The reply window\<close>

datatype rpcstate_t = NEW | INPROGRESS | DONE | FORGOTTEN

record reply_t =
  r_xid :: u32
  r_cb_present :: bool
  r_buf :: "cells option"

definition reply_t_new :: "u32 \<Rightarrow> reply_t" where
  "reply_t_new xid = \<lparr>r_xid = xid, r_cb_present = False, r_buf = None\<rparr>"

text \<open>
  The loop of \<open>checkduplicate_and_update\<close>: \<open>Some\<close> verdict when the request is found,
  \<open>None\<close> when the loop ends; with the list after the erasures made on the way.
\<close>

fun checkduplicate_loop :: "u32 \<Rightarrow> u32 \<Rightarrow> reply_t list \<Rightarrow> (rpcstate_t \<times> cells option) option \<times> reply_t list" where
  "checkduplicate_loop xid xid_rep [] = (None, [])"
| "checkduplicate_loop xid xid_rep (it # l) =
     (if r_xid it = xid then
        (if r_xid it \<le> xid_rep then (Some (FORGOTTEN, None), l)
         else if r_cb_present it then (Some (DONE, r_buf it), it # l)
         else (Some (INPROGRESS, None), it # l))
      else if r_xid it \<le> xid_rep then checkduplicate_loop xid xid_rep l
      else (let (v, l') = checkduplicate_loop xid xid_rep l in (v, it # l')))"

definition checkduplicate_and_update ::
  "(u32 \<rightharpoonup> reply_t list) \<Rightarrow> u32 \<Rightarrow> u32 \<Rightarrow> u32 \<Rightarrow> ((rpcstate_t \<times> cells option) \<times> (u32 \<rightharpoonup> reply_t list)) option" where
  "checkduplicate_and_update W clt_nonce xid xid_rep = do {
     l \<leftarrow> W clt_nonce;
     Some (case checkduplicate_loop xid xid_rep l of
             (Some v, l') \<Rightarrow> (v, W(clt_nonce \<mapsto> l'))
           | (None, l') \<Rightarrow> ((NEW, None), W(clt_nonce \<mapsto> l' @ [reply_t_new xid])))
   }"

fun add_reply_list :: "u32 \<Rightarrow> cells \<Rightarrow> reply_t list \<Rightarrow> reply_t list" where
  "add_reply_list xid b [] = []"
| "add_reply_list xid b (it # l) =
     (if r_xid it = xid then it\<lparr>r_buf := Some b, r_cb_present := True\<rparr> # l
      else it # add_reply_list xid b l)"

text \<open>\<open>reply_window_[clt_nonce]\<close> makes an empty list when the client is unknown.\<close>

definition add_reply :: "(u32 \<rightharpoonup> reply_t list) \<Rightarrow> u32 \<Rightarrow> u32 \<Rightarrow> cells \<Rightarrow> (u32 \<rightharpoonup> reply_t list)" where
  "add_reply W clt_nonce xid b =
     W(clt_nonce \<mapsto> add_reply_list xid b (case W clt_nonce of None \<Rightarrow> [] | Some l \<Rightarrow> l))"

definition free_reply_window :: "(u32 \<rightharpoonup> reply_t list) \<Rightarrow> (u32 \<rightharpoonup> reply_t list)" where
  "free_reply_window W = Map.empty"

section \<open>The server object\<close>

type_synonym 's handler = "unmarshall \<Rightarrow> marshall \<Rightarrow> 's \<Rightarrow> (u32 \<times> marshall \<times> 's) option"

record 's rpcs =
  rs_nonce :: u32
  rs_reply_window :: "u32 \<rightharpoonup> reply_t list"
  rs_conns :: "u32 \<rightharpoonup> cid option"
  rs_counting :: u32
  rs_curr_counts :: u32
  rs_counts :: "u32 \<rightharpoonup> u32"
  rs_procs :: "u32 \<rightharpoonup> 's handler"
  rs_heap :: conn_heap
  rs_outbox :: "(cid \<times> cells) list"
  rs_app :: 's

subsection \<open>Registration\<close>

definition reg1 :: "'s rpcs \<Rightarrow> u32 \<Rightarrow> 's handler \<Rightarrow> 's rpcs option" where
  "reg1 s proc h = (if rs_procs s proc \<noteq> None then None else Some (s\<lparr>rs_procs := (rs_procs s)(proc \<mapsto> h)\<rparr>))"

text \<open>
  The method \<open>fn\<close> of the class \<open>h1\<close> that each \<open>reg\<close> template defines: decode the arguments,
  give up unless the request was consumed exactly, call the method, encode its result. The
  local \<open>R r\<close> starts as \<open>r0\<close> (the empty string, or an indeterminate integer).
\<close>

definition handler1 ::
  "(unmarshall \<Rightarrow> ('a1 \<times> unmarshall) option) \<Rightarrow> (marshall \<Rightarrow> 'r \<Rightarrow> marshall option) \<Rightarrow> 'r \<Rightarrow>
   ('a1 \<Rightarrow> 'r \<Rightarrow> 's \<Rightarrow> (u32 \<times> 'r \<times> 's) option) \<Rightarrow> 's handler" where
  "handler1 get1 put r0 meth args ret s = do {
     (a1, args) \<leftarrow> get1 args;
     if \<not> okdone args then Some (unmarshal_args_failure, ret, s)
     else do {
       (b, r, s) \<leftarrow> meth a1 r0 s;
       ret \<leftarrow> put ret r;
       Some (b, ret, s)
     }
   }"

definition handler2 ::
  "(unmarshall \<Rightarrow> ('a1 \<times> unmarshall) option) \<Rightarrow> (unmarshall \<Rightarrow> ('a2 \<times> unmarshall) option) \<Rightarrow>
   (marshall \<Rightarrow> 'r \<Rightarrow> marshall option) \<Rightarrow> 'r \<Rightarrow>
   ('a1 \<Rightarrow> 'a2 \<Rightarrow> 'r \<Rightarrow> 's \<Rightarrow> (u32 \<times> 'r \<times> 's) option) \<Rightarrow> 's handler" where
  "handler2 get1 get2 put r0 meth args ret s = do {
     (a1, args) \<leftarrow> get1 args;
     (a2, args) \<leftarrow> get2 args;
     if \<not> okdone args then Some (unmarshal_args_failure, ret, s)
     else do {
       (b, r, s) \<leftarrow> meth a1 a2 r0 s;
       ret \<leftarrow> put ret r;
       Some (b, ret, s)
     }
   }"

definition handler3 ::
  "(unmarshall \<Rightarrow> ('a1 \<times> unmarshall) option) \<Rightarrow> (unmarshall \<Rightarrow> ('a2 \<times> unmarshall) option) \<Rightarrow>
   (unmarshall \<Rightarrow> ('a3 \<times> unmarshall) option) \<Rightarrow> (marshall \<Rightarrow> 'r \<Rightarrow> marshall option) \<Rightarrow> 'r \<Rightarrow>
   ('a1 \<Rightarrow> 'a2 \<Rightarrow> 'a3 \<Rightarrow> 'r \<Rightarrow> 's \<Rightarrow> (u32 \<times> 'r \<times> 's) option) \<Rightarrow> 's handler" where
  "handler3 get1 get2 get3 put r0 meth args ret s = do {
     (a1, args) \<leftarrow> get1 args;
     (a2, args) \<leftarrow> get2 args;
     (a3, args) \<leftarrow> get3 args;
     if \<not> okdone args then Some (unmarshal_args_failure, ret, s)
     else do {
       (b, r, s) \<leftarrow> meth a1 a2 a3 r0 s;
       ret \<leftarrow> put ret r;
       Some (b, ret, s)
     }
   }"

text \<open>The handler of \<open>rpcs::rpcbind\<close>, registered by the constructor under \<open>rpc_const::bind\<close>.\<close>

definition rpcbind :: "u32 \<Rightarrow> u32 \<Rightarrow> u32 \<Rightarrow> 's \<Rightarrow> (u32 \<times> u32 \<times> 's) option" where
  "rpcbind nonce a r s = Some (0, nonce, s)"

definition rpcs_new :: "u32 \<Rightarrow> u32 \<Rightarrow> 's \<Rightarrow> 's rpcs option" where
  "rpcs_new rnd count app =
     reg1 \<lparr>rs_nonce = rnd, rs_reply_window = Map.empty, rs_conns = Map.empty, rs_counting = count,
           rs_curr_counts = count, rs_counts = Map.empty, rs_procs = Map.empty, rs_heap = Map.empty,
           rs_outbox = [], rs_app = app\<rparr>
       rpc_bind (handler1 unmarshall_int marshall_int 0 (rpcbind rnd))"

text \<open>The call counters; the statistics themselves go to the log only.\<close>

definition updatestat :: "'s rpcs \<Rightarrow> u32 \<Rightarrow> 's rpcs" where
  "updatestat s proc =
     (let n = (case rs_counts s proc of None \<Rightarrow> 0 | Some k \<Rightarrow> k);
          s = s\<lparr>rs_counts := (rs_counts s)(proc \<mapsto> n + 1), rs_curr_counts := rs_curr_counts s - 1\<rparr>
      in if rs_curr_counts s = 0 then s\<lparr>rs_curr_counts := rs_counting s\<rparr> else s)"

subsection \<open>Dispatch\<close>

definition c_send :: "'s rpcs \<Rightarrow> cid \<Rightarrow> cells \<Rightarrow> 's rpcs" where
  "c_send s c b = s\<lparr>rs_outbox := rs_outbox s @ [(c, b)]\<rparr>"

definition c_incref :: "'s rpcs \<Rightarrow> cid \<Rightarrow> 's rpcs option" where
  "c_incref s c = do { H \<leftarrow> incref (rs_heap s) c; Some (s\<lparr>rs_heap := H\<rparr>) }"

definition c_decref :: "'s rpcs \<Rightarrow> cid \<Rightarrow> 's rpcs option" where
  "c_decref s c = do { H \<leftarrow> decref (rs_heap s) c; Some (s\<lparr>rs_heap := H\<rparr>) }"

text \<open>An error reply: only a header.\<close>

definition error_reply :: "u32 \<Rightarrow> u32 \<Rightarrow> cells option" where
  "error_reply xid ret = do {
     m \<leftarrow> pack_reply_header marshall_new \<lparr>rp_xid = xid, rp_ret = ret\<rparr>;
     Some (m_contents m)
   }"

text \<open>``save the latest good connection to the client''\<close>

definition save_conn :: "'s rpcs \<Rightarrow> u32 \<Rightarrow> cid \<Rightarrow> 's rpcs option" where
  "save_conn s clt_nonce c =
     (case rs_conns s clt_nonce of
        None \<Rightarrow> do {
          s \<leftarrow> c_incref s c;
          Some (s\<lparr>rs_conns := (rs_conns s)(clt_nonce \<mapsto> Some c)\<rparr>)
        }
      | Some old \<Rightarrow>
          if old \<noteq> Some c then do {
            d \<leftarrow> old;
            s \<leftarrow> c_decref s d;
            s \<leftarrow> c_incref s c;
            Some (s\<lparr>rs_conns := (rs_conns s)(clt_nonce \<mapsto> Some c)\<rparr>)
          } else Some s)"

text \<open>What \<open>dispatch\<close> knows when it reaches the \<open>switch\<close>: the header, the rest of the request,
  the handler, the verdict and the stored reply, if any.\<close>

record 's djob =
  dj_hdr :: req_header
  dj_req :: unmarshall
  dj_fn :: "'s handler"
  dj_stat :: rpcstate_t
  dj_buf :: "cells option"

definition dispatch_enter :: "'s rpcs \<Rightarrow> cid \<Rightarrow> bytes \<Rightarrow> nat \<Rightarrow> ('s djob option \<times> 's rpcs) option" where
  "dispatch_enter s c b sz = do {
     (h, req) \<leftarrow> unpack_req_header (unmarshall_of b sz);
     if \<not> u_ok req then do { s \<leftarrow> c_decref s c; Some (None, s) }
     else if rq_srv_nonce h \<noteq> 0 \<and> rq_srv_nonce h \<noteq> rs_nonce s then do {
       r \<leftarrow> error_reply (rq_xid h) oldsrv_failure;
       Some (None, c_send s c r)
     }
     else (case rs_procs s (rq_proc h) of
       None \<Rightarrow> do { s \<leftarrow> c_decref s c; Some (None, s) }
     | Some f \<Rightarrow>
         if rq_clt_nonce h \<noteq> 0 then do {
           let s = (if rs_reply_window s (rq_clt_nonce h) = None
                    then s\<lparr>rs_reply_window := (rs_reply_window s)(rq_clt_nonce h \<mapsto> [])\<rparr> else s);
           s \<leftarrow> save_conn s (rq_clt_nonce h) c;
           ((stat, b1), W) \<leftarrow>
             checkduplicate_and_update (rs_reply_window s) (rq_clt_nonce h) (rq_xid h) (rq_xid_rep h);
           Some (Some \<lparr>dj_hdr = h, dj_req = req, dj_fn = f, dj_stat = stat, dj_buf = b1\<rparr>,
                 s\<lparr>rs_reply_window := W\<rparr>)
         }
         else Some (Some \<lparr>dj_hdr = h, dj_req = req, dj_fn = f, dj_stat = NEW, dj_buf = None\<rparr>, s))
   }"

text \<open>``get the latest connection to the client''; \<open>conns_[clt_nonce]\<close> inserts a null pointer
  for a client without an entry.\<close>

definition latest_conn :: "'s rpcs \<Rightarrow> u32 \<Rightarrow> cid \<Rightarrow> (cid \<times> 's rpcs) option" where
  "latest_conn s clt_nonce c = do {
     d \<leftarrow> isdead (rs_heap s) c;
     if d then do {
       let e = (case rs_conns s clt_nonce of None \<Rightarrow> None | Some p \<Rightarrow> p);
       let s = s\<lparr>rs_conns := (rs_conns s)(clt_nonce \<mapsto> e)\<rparr>;
       if e \<noteq> Some c then do {
         s \<leftarrow> c_decref s c;
         c' \<leftarrow> e;
         s \<leftarrow> c_incref s c';
         Some (c', s)
       } else Some (c, s)
     } else Some (c, s)
   }"

text \<open>The call of the handler; the assertion on its result is \<open>ret >= 0\<close> or
  \<open>unmarshal_args_failure\<close>.\<close>

definition run_handler :: "'s rpcs \<Rightarrow> 's djob \<Rightarrow> (cells \<times> 's rpcs) option" where
  "run_handler s j = do {
     let s = (if rs_counting s \<noteq> 0 then updatestat s (rq_proc (dj_hdr j)) else s);
     (ret, rep, a) \<leftarrow> dj_fn j (dj_req j) marshall_new (rs_app s);
     if 0 \<le> sint ret \<or> ret = unmarshal_args_failure then do {
       rep \<leftarrow> pack_reply_header rep \<lparr>rp_xid = rq_xid (dj_hdr j), rp_ret = ret\<rparr>;
       Some (fst (marshall_take_buf rep), s\<lparr>rs_app := a\<rparr>)
     } else None
   }"

definition finish_new :: "'s rpcs \<Rightarrow> cid \<Rightarrow> req_header \<Rightarrow> cells \<Rightarrow> 's rpcs option" where
  "finish_new s c h b1 = do {
     let s = (if rq_clt_nonce h \<noteq> 0
              then s\<lparr>rs_reply_window := add_reply (rs_reply_window s) (rq_clt_nonce h) (rq_xid h) b1\<rparr> else s);
     (c, s) \<leftarrow> latest_conn s (rq_clt_nonce h) c;
     c_decref (c_send s c b1) c
   }"

definition dispatch_switch :: "'s rpcs \<Rightarrow> cid \<Rightarrow> 's djob \<Rightarrow> 's rpcs option" where
  "dispatch_switch s c j =
     (case dj_stat j of
        NEW \<Rightarrow> do { (b1, s) \<leftarrow> run_handler s j; finish_new s c (dj_hdr j) b1 }
      | INPROGRESS \<Rightarrow> c_decref s c
      | DONE \<Rightarrow> do { b1 \<leftarrow> dj_buf j; c_decref (c_send s c b1) c }
      | FORGOTTEN \<Rightarrow> do {
          r \<leftarrow> error_reply (rq_xid (dj_hdr j)) atmostonce_failure;
          c_decref (c_send s c r) c
        })"

definition dispatch :: "'s rpcs \<Rightarrow> cid \<Rightarrow> bytes \<Rightarrow> nat \<Rightarrow> 's rpcs option" where
  "dispatch s c b sz = do {
     (j, s) \<leftarrow> dispatch_enter s c b sz;
     (case j of None \<Rightarrow> Some s | Some j \<Rightarrow> dispatch_switch s c j)
   }"

section \<open>Facts about the reply window\<close>

definition xids :: "reply_t list \<Rightarrow> u32 set" where
  "xids l = r_xid ` set l"

lemma xids_simps [simp]:
  "xids [] = {}" "xids (it # l) = insert (r_xid it) (xids l)" "xids (l @ l') = xids l \<union> xids l'"
  by (auto simp: xids_def)

lemma r_xid_reply_t_new [simp]: "r_xid (reply_t_new x) = x"
  by (simp add: reply_t_new_def)

text \<open>The loop on a list without the request only forgets what is acknowledged.\<close>

lemma checkduplicate_loop_absent:
  "xid \<notin> xids l \<Longrightarrow> checkduplicate_loop xid xr l = (None, filter (\<lambda>it. xr < r_xid it) l)"
  by (induction l) (auto simp: not_le)

text \<open>A request above its own acknowledgement that is in the list is a duplicate.\<close>

lemma checkduplicate_loop_present:
  assumes "xid \<in> xids l" and "xr < xid"
  shows "\<exists>it l'. it \<in> set l \<and> r_xid it = xid \<and>
    checkduplicate_loop xid xr l =
      (Some (if r_cb_present it then (DONE, r_buf it) else (INPROGRESS, None)), l')
    \<and> xid \<in> xids l'"
  using assms
proof (induction l)
  case (Cons a l)
  show ?case
  proof (cases "r_xid a = xid")
    case True
    then show ?thesis using Cons.prems by (intro exI [of _ a]) (auto simp: not_le)
  next
    case False
    with Cons obtain it l' where it: "it \<in> set l" "r_xid it = xid" "xid \<in> xids l'"
      "checkduplicate_loop xid xr l =
        (Some (if r_cb_present it then (DONE, r_buf it) else (INPROGRESS, None)), l')"
      by auto
    with False show ?thesis by (intro exI [of _ it]) auto
  qed
qed simp

lemma checkduplicate_loop_NEW: "checkduplicate_loop xid xr l \<noteq> (Some (NEW, b), l')"
  by (induction l arbitrary: l') (auto split: prod.splits)

lemma checkduplicate_loop_None: "checkduplicate_loop xid xr l = (None, l') \<Longrightarrow> xid \<notin> xids l"
  by (induction l arbitrary: l') (auto split: prod.splits if_splits)

lemma checkduplicate_loop_subset: "checkduplicate_loop xid xr l = (v, l') \<Longrightarrow> xids l' \<subseteq> xids l"
  by (induction l arbitrary: l') (fastforce split: prod.splits if_splits)+

text \<open>Ids above the acknowledgement of a request stay, whatever that request is.\<close>

lemma checkduplicate_loop_keeps:
  "checkduplicate_loop xid xr l = (v, l') \<Longrightarrow> y \<in> xids l \<Longrightarrow> xr < y \<Longrightarrow> y \<in> xids l'"
  by (induction l arbitrary: l') (fastforce split: prod.splits if_splits)+

lemma xids_add_reply_list [simp]: "xids (add_reply_list xid b l) = xids l"
  by (induction l) auto

text \<open>The windows as a whole.\<close>

definition win_xids :: "(u32 \<rightharpoonup> reply_t list) \<Rightarrow> u32 \<Rightarrow> u32 set" where
  "win_xids W c = (case W c of None \<Rightarrow> {} | Some l \<Rightarrow> xids l)"

lemma win_xids_upd [simp]: "win_xids (W(c \<mapsto> l)) d = (if d = c then xids l else win_xids W d)"
  by (simp add: win_xids_def)

lemma win_xids_add_reply [simp]: "win_xids (add_reply W c xid b) = win_xids W"
  by (auto simp: add_reply_def win_xids_def fun_eq_iff split: option.splits)

lemma checkduplicate_NEW_absent:
  "checkduplicate_and_update W c xid xr = Some ((NEW, b), W') \<Longrightarrow> xid \<notin> win_xids W c"
  by (auto simp: checkduplicate_and_update_def win_xids_def checkduplicate_loop_NEW
      elim!: bind_SomeE split: prod.splits option.splits dest: checkduplicate_loop_None)

lemma checkduplicate_NEW_inserts:
  "checkduplicate_and_update W c xid xr = Some ((NEW, b), W') \<Longrightarrow> xid \<in> win_xids W' c"
  by (auto simp: checkduplicate_and_update_def win_xids_def checkduplicate_loop_NEW
      elim!: bind_SomeE split: prod.splits option.splits)

lemma checkduplicate_keeps:
  assumes "checkduplicate_and_update W c xid xr = Some (v, W')"
    and "y \<in> win_xids W d" and "d = c \<Longrightarrow> xr < y"
  shows "y \<in> win_xids W' d"
proof -
  from assms(1) obtain l u l' where l: "W c = Some l" "checkduplicate_loop xid xr l = (u, l')"
    and W': "W' = W(c \<mapsto> (case u of None \<Rightarrow> l' @ [reply_t_new xid] | Some _ \<Rightarrow> l'))"
    by (auto simp: checkduplicate_and_update_def elim!: bind_SomeE split: prod.splits option.splits)
  show ?thesis
  proof (cases "d = c")
    case True
    with assms l have "y \<in> xids l'" by (auto simp: win_xids_def intro: checkduplicate_loop_keeps)
    then show ?thesis using True by (auto simp: W' split: option.splits)
  next
    case False
    with assms show ?thesis by (simp add: W')
  qed
qed

text \<open>The parts of dispatch around the window leave it alone.\<close>

lemma c_incref_window: "c_incref s c = Some s' \<Longrightarrow> rs_reply_window s' = rs_reply_window s"
  by (auto simp: c_incref_def elim!: bind_SomeE)

lemma c_decref_window: "c_decref s c = Some s' \<Longrightarrow> rs_reply_window s' = rs_reply_window s"
  by (auto simp: c_decref_def elim!: bind_SomeE)

lemma save_conn_window: "save_conn s n c = Some s' \<Longrightarrow> rs_reply_window s' = rs_reply_window s"
  by (auto simp: save_conn_def elim!: bind_SomeE split: option.splits if_splits
      dest!: c_incref_window c_decref_window)

lemma latest_conn_window: "latest_conn s n c = Some (c', s') \<Longrightarrow> rs_reply_window s' = rs_reply_window s"
  by (auto simp: latest_conn_def Let_def elim!: bind_SomeE split: option.splits if_splits
      dest!: c_incref_window c_decref_window)

lemma c_send_window [simp]: "rs_reply_window (c_send s c b) = rs_reply_window s"
  by (simp add: c_send_def)

lemma updatestat_window [simp]: "rs_reply_window (updatestat s p) = rs_reply_window s"
  by (simp add: updatestat_def Let_def)

lemma run_handler_window: "run_handler s j = Some (b, s') \<Longrightarrow> rs_reply_window s' = rs_reply_window s"
  by (auto simp: run_handler_def Let_def elim!: bind_SomeE split: if_splits)

lemma finish_new_win_xids: "finish_new s c h b = Some s' \<Longrightarrow> win_xids (rs_reply_window s') = win_xids (rs_reply_window s)"
  by (auto simp: finish_new_def Let_def elim!: bind_SomeE split: if_splits
      dest!: latest_conn_window c_decref_window)

end
