(* ===== verification/AtMostOnce.thy ===== *)
theory AtMostOnce
  imports Rpcs
begin

text \<open>
  At-most-once execution under concurrency. The dispatch pool runs \<open>rpcs::dispatch\<close> in ten
  threads: a configuration is the server with the jobs that are between two critical
  sections, and a step is one thread passing one of them (or the connections changing under
  it). The log records every handler call and \<open>cf_acks\<close> the acknowledgements the duplicate
  check has seen.

  The invariant counts, for one request, the handler calls made and still to be made. It
  holds as long as the client does not acknowledge the request: \<open>checkduplicate_and_update\<close>
  erases acknowledged entries and then takes a late duplicate for a new request
  (\<open>forgotten_request_is_new\<close>).
\<close>

section \<open>Threads of the dispatch pool\<close>

datatype 's phase = Entered cid "'s djob" | Ran cid req_header cells

record 's config =
  cf_srv :: "'s rpcs"
  cf_jobs :: "'s phase list"
  cf_log :: "(u32 \<times> u32) list"
  cf_acks :: "(u32 \<times> u32) list"

abbreviation job_id :: "'s djob \<Rightarrow> u32 \<times> u32" where
  "job_id j \<equiv> (rq_clt_nonce (dj_hdr j), rq_xid (dj_hdr j))"

abbreviation job_ack :: "'s djob \<Rightarrow> u32 \<times> u32" where
  "job_ack j \<equiv> (rq_clt_nonce (dj_hdr j), rq_xid_rep (dj_hdr j))"

definition init_config :: "'s rpcs \<Rightarrow> 's config" where
  "init_config s = \<lparr>cf_srv = s\<lparr>rs_reply_window := Map.empty\<rparr>, cf_jobs = [], cf_log = [], cf_acks = []\<rparr>"

inductive dstep :: "'s config \<Rightarrow> 's config \<Rightarrow> bool" where
  refuse: "dispatch_enter (cf_srv g) c b sz = Some (None, s) \<Longrightarrow> dstep g (g\<lparr>cf_srv := s\<rparr>)"
| arrive: "dispatch_enter (cf_srv g) c b sz = Some (Some j, s) \<Longrightarrow>
    dstep g (g\<lparr>cf_srv := s, cf_jobs := Entered c j # cf_jobs g, cf_acks := job_ack j # cf_acks g\<rparr>)"
| run: "cf_jobs g = xs @ Entered c j # ys \<Longrightarrow> dj_stat j = NEW \<Longrightarrow>
    run_handler (cf_srv g) j = Some (b, s) \<Longrightarrow>
    dstep g (g\<lparr>cf_srv := s, cf_jobs := xs @ Ran c (dj_hdr j) b # ys, cf_log := job_id j # cf_log g\<rparr>)"
| reply: "cf_jobs g = xs @ Ran c h b # ys \<Longrightarrow> finish_new (cf_srv g) c h b = Some s \<Longrightarrow>
    dstep g (g\<lparr>cf_srv := s, cf_jobs := xs @ ys\<rparr>)"
| duplicate: "cf_jobs g = xs @ Entered c j # ys \<Longrightarrow> dj_stat j \<noteq> NEW \<Longrightarrow>
    dispatch_switch (cf_srv g) c j = Some s \<Longrightarrow> dstep g (g\<lparr>cf_srv := s, cf_jobs := xs @ ys\<rparr>)"
| conns_change: "dstep g (g\<lparr>cf_srv := (cf_srv g)\<lparr>rs_heap := H\<rparr>\<rparr>)"

inductive dreach :: "'s rpcs \<Rightarrow> 's config \<Rightarrow> bool" for s0 where
  start: "dreach s0 (init_config s0)"
| step: "dreach s0 g \<Longrightarrow> dstep g g' \<Longrightarrow> dreach s0 g'"

section \<open>What entering does to the windows\<close>

lemma dispatch_enter_refused:
  "dispatch_enter s c b sz = Some (None, s') \<Longrightarrow> rs_reply_window s' = rs_reply_window s"
  by (auto simp: dispatch_enter_def elim!: bind_SomeE split: if_splits option.splits
      dest!: c_decref_window)

text \<open>The verdict of a job of a client with at-most-once logic comes from the duplicate check
  of the window its client has (or is given).\<close>

lemma dispatch_enter_checked:
  assumes "dispatch_enter s c b sz = Some (Some j, s')" and "rq_clt_nonce (dj_hdr j) \<noteq> 0"
  obtains W where "win_xids W = win_xids (rs_reply_window s)"
    and "checkduplicate_and_update W (rq_clt_nonce (dj_hdr j)) (rq_xid (dj_hdr j)) (rq_xid_rep (dj_hdr j))
      = Some ((dj_stat j, dj_buf j), rs_reply_window s')"
proof -
  from assms obtain h s1 s2 W' where h: "dj_hdr j = h"
    and s1: "s1 = (if rs_reply_window s (rq_clt_nonce h) = None
         then s\<lparr>rs_reply_window := (rs_reply_window s)(rq_clt_nonce h \<mapsto> [])\<rparr> else s)"
    and s2: "save_conn s1 (rq_clt_nonce h) c = Some s2"
    and chk: "checkduplicate_and_update (rs_reply_window s2) (rq_clt_nonce h) (rq_xid h) (rq_xid_rep h)
      = Some ((dj_stat j, dj_buf j), W')" and s': "s' = s2\<lparr>rs_reply_window := W'\<rparr>"
    by (auto simp: dispatch_enter_def Let_def elim!: bind_SomeE split: if_splits option.splits prod.splits)
  have "win_xids (rs_reply_window s2) = win_xids (rs_reply_window s)"
    using save_conn_window [OF s2] by (auto simp: s1 win_xids_def fun_eq_iff)
  then show ?thesis using that chk by (simp add: h s')
qed

lemma dispatch_enter_unchecked:
  "dispatch_enter s c b sz = Some (Some j, s') \<Longrightarrow> rq_clt_nonce (dj_hdr j) = 0 \<Longrightarrow>
   rs_reply_window s' = rs_reply_window s"
  by (auto simp: dispatch_enter_def Let_def elim!: bind_SomeE split: if_splits option.splits prod.splits)

lemma dispatch_enter_keeps:
  assumes "dispatch_enter s c b sz = Some (Some j, s')"
    and "y \<in> win_xids (rs_reply_window s) d" and "d = rq_clt_nonce (dj_hdr j) \<Longrightarrow> rq_xid_rep (dj_hdr j) < y"
  shows "y \<in> win_xids (rs_reply_window s') d"
proof (cases "rq_clt_nonce (dj_hdr j) = 0")
  case True
  with assms show ?thesis by (simp add: dispatch_enter_unchecked)
next
  case False
  with assms(1) obtain W where "win_xids W = win_xids (rs_reply_window s)"
    "checkduplicate_and_update W (rq_clt_nonce (dj_hdr j)) (rq_xid (dj_hdr j)) (rq_xid_rep (dj_hdr j))
      = Some ((dj_stat j, dj_buf j), rs_reply_window s')" by (rule dispatch_enter_checked)
  with assms(2,3) show ?thesis by (metis checkduplicate_keeps)
qed

lemma dispatch_switch_window:
  "dj_stat j \<noteq> NEW \<Longrightarrow> dispatch_switch s c j = Some s' \<Longrightarrow> rs_reply_window s' = rs_reply_window s"
  by (auto simp: dispatch_switch_def elim!: bind_SomeE split: rpcstate_t.splits dest!: c_decref_window)

section \<open>The invariant\<close>

fun pending :: "u32 \<times> u32 \<Rightarrow> 's phase \<Rightarrow> bool" where
  "pending x (Entered c j) \<longleftrightarrow> dj_stat j = NEW \<and> job_id j = x"
| "pending x (Ran c h b) \<longleftrightarrow> False"

definition started :: "u32 \<times> u32 \<Rightarrow> 's config \<Rightarrow> nat" where
  "started x g = count_list (cf_log g) x + length (filter (pending x) (cf_jobs g))"

definition unacked :: "u32 \<times> u32 \<Rightarrow> 's config \<Rightarrow> bool" where
  "unacked x g \<longleftrightarrow> list_all (\<lambda>(c, r). c = fst x \<longrightarrow> r < snd x) (cf_acks g)"

definition known :: "u32 \<times> u32 \<Rightarrow> 's config \<Rightarrow> bool" where
  "known x g \<longleftrightarrow> snd x \<in> win_xids (rs_reply_window (cf_srv g)) (fst x)"

definition amo_inv :: "u32 \<times> u32 \<Rightarrow> 's config \<Rightarrow> bool" where
  "amo_inv x g \<longleftrightarrow> (unacked x g \<longrightarrow> started x g \<le> 1 \<and> (0 < started x g \<longrightarrow> known x g))"

lemma amo_inv_same:
  assumes "amo_inv x g" and "cf_acks g' = cf_acks g" and "started x g' = started x g"
    and "win_xids (rs_reply_window (cf_srv g')) = win_xids (rs_reply_window (cf_srv g))"
  shows "amo_inv x g'"
  using assms by (simp add: amo_inv_def unacked_def known_def)

lemma amo_inv_arrive:
  assumes inv: "amo_inv x g" and x: "fst x \<noteq> 0"
    and enter: "dispatch_enter (cf_srv g) c b sz = Some (Some j, s)"
  shows "amo_inv x (g\<lparr>cf_srv := s, cf_jobs := Entered c j # cf_jobs g, cf_acks := job_ack j # cf_acks g\<rparr>)"
    (is "amo_inv x ?g")
  unfolding amo_inv_def
proof
  assume "unacked x ?g"
  then have un: "unacked x g" and ack: "rq_clt_nonce (dj_hdr j) = fst x \<Longrightarrow> rq_xid_rep (dj_hdr j) < snd x"
    by (simp_all add: unacked_def)
  have old: "started x g \<le> 1" "0 < started x g \<Longrightarrow> known x g" using inv un by (simp_all add: amo_inv_def)
  have keep: "known x g \<Longrightarrow> known x ?g" using dispatch_enter_keeps [OF enter] ack by (simp add: known_def)
  show "started x ?g \<le> 1 \<and> (0 < started x ?g \<longrightarrow> known x ?g)"
  proof (cases "dj_stat j = NEW \<and> job_id j = x")
    case True
    then have "rq_clt_nonce (dj_hdr j) \<noteq> 0" using x by auto
    with enter obtain W where W: "win_xids W = win_xids (rs_reply_window (cf_srv g))"
      and chk: "checkduplicate_and_update W (rq_clt_nonce (dj_hdr j)) (rq_xid (dj_hdr j)) (rq_xid_rep (dj_hdr j))
        = Some ((dj_stat j, dj_buf j), rs_reply_window s)" by (rule dispatch_enter_checked)
    have "\<not> known x g" using checkduplicate_NEW_absent chk True W by (fastforce simp: known_def)
    then have "started x g = 0" using old by auto
    moreover have "known x ?g" using checkduplicate_NEW_inserts chk True by (fastforce simp: known_def)
    ultimately show ?thesis using True by (simp add: started_def)
  next
    case False
    then have "started x ?g = started x g" by (auto simp: started_def)
    then show ?thesis using old keep by auto
  qed
qed

lemma dstep_amo_inv:
  assumes "dstep g g'" and "amo_inv x g" and "fst x \<noteq> 0"
  shows "amo_inv x g'"
  using assms
proof (induction rule: dstep.induct)
  case (refuse g c b sz s)
  then show ?case
    using dispatch_enter_refused [OF refuse.hyps]
    by (elim amo_inv_same) (simp_all add: started_def)
next
  case (arrive g c b sz j s)
  then show ?case by (intro amo_inv_arrive)
next
  case (run g xs c j ys b s)
  then show ?case
    using run_handler_window [OF run.hyps(3)] by (elim amo_inv_same) (simp_all add: started_def)
next
  case (reply g xs c h b ys s)
  then show ?case
    using finish_new_win_xids [OF reply.hyps(2)] by (elim amo_inv_same) (simp_all add: started_def)
next
  case (duplicate g xs c j ys s)
  then show ?case
    using dispatch_switch_window [OF duplicate.hyps(2,3)] by (elim amo_inv_same) (simp_all add: started_def)
next
  case (conns_change g H)
  then show ?case by (elim amo_inv_same) (simp_all add: started_def)
qed

lemma dreach_amo_inv: "dreach s0 g \<Longrightarrow> fst x \<noteq> 0 \<Longrightarrow> amo_inv x g"
proof (induction rule: dreach.induct)
  case start
  show ?case by (simp add: amo_inv_def init_config_def started_def)
next
  case (step g g')
  then show ?case by (blast intro: dstep_amo_inv)
qed

text \<open>
  In every interleaving of the dispatch threads, with duplicates, lost and reordered
  requests and connections changing at any moment, the handler of a request of a client that
  uses at-most-once logic runs at most once, as long as no request of that client that the
  duplicate check has seen acknowledges the request.
\<close>

lemma at_most_once:
  assumes "dreach s0 g" and "clt \<noteq> 0" and "unacked (clt, xid) g"
  shows "count_list (cf_log g) (clt, xid) \<le> 1"
  using dreach_amo_inv [of s0 g "(clt, xid)"] assms by (simp add: amo_inv_def started_def)

text \<open>A server with one counting handler, and a request to it.\<close>

definition sample_server :: "nat rpcs" where
  "sample_server = \<lparr>rs_nonce = 9, rs_reply_window = Map.empty, rs_conns = Map.empty, rs_counting = 0,
     rs_curr_counts = 0, rs_counts = Map.empty, rs_procs = [7 \<mapsto> (\<lambda>u m a. Some (0, m, Suc a))],
     rs_heap = [0 \<mapsto> fst (connection_new 3 0)], rs_outbox = [], rs_app = 0\<rparr>"

definition sample_header :: req_header where
  "sample_header = \<lparr>rq_xid = 1, rq_proc = 7, rq_clt_nonce = 5, rq_srv_nonce = 9, rq_xid_rep = 0\<rparr>"

definition sample_pdu :: bytes where
  "sample_pdu = [0, 0, 0, 24] @ enc_req sample_header @ []"

section \<open>Garbage collection of replies, and what it costs\<close>

lemma checkduplicate_absent:
  assumes "W clt \<noteq> None" and "xid \<notin> win_xids W clt"
  shows "\<exists>W'. checkduplicate_and_update W clt xid xr = Some ((NEW, None), W') \<and>
    win_xids W' clt = insert xid {y \<in> win_xids W clt. xr < y}"
proof -
  from assms obtain l where l: "W clt = Some l" and "xid \<notin> xids l" by (auto simp: win_xids_def)
  then have "checkduplicate_loop xid xr l = (None, filter (\<lambda>it. xr < r_xid it) l)"
    by (simp add: checkduplicate_loop_absent)
  moreover have "xids (filter (\<lambda>it. xr < r_xid it) l) = {y \<in> xids l. xr < y}"
    by (auto simp: xids_def)
  ultimately show ?thesis using l by (simp add: checkduplicate_and_update_def win_xids_def)
qed

text \<open>
  C28: Once a new request with an acknowledgement at or above \<open>xid\<close> has been seen, the
  stored entry of \<open>xid\<close> is gone, and a late duplicate of \<open>xid\<close> is classified as \<open>NEW\<close>, so its
  handler runs a second time; the verdict \<open>FORGOTTEN\<close> is not given for it.
\<close>

theorem forgotten_request_is_new:
  assumes "W clt \<noteq> None" and "xid2 \<notin> win_xids W clt" and "xid2 \<noteq> xid" and "xid \<le> xr2"
  shows "\<exists>W1 W2. checkduplicate_and_update W clt xid2 xr2 = Some ((NEW, None), W1) \<and>
    checkduplicate_and_update W1 clt xid xr = Some ((NEW, None), W2)"
proof -
  from checkduplicate_absent [OF assms(1,2), of xr2] obtain W1
    where W1: "checkduplicate_and_update W clt xid2 xr2 = Some ((NEW, None), W1)"
      "win_xids W1 clt = insert xid2 {y \<in> win_xids W clt. xr2 < y}" by blast
  then have "xid \<notin> win_xids W1 clt" and "W1 clt \<noteq> None"
    using assms by (auto simp: win_xids_def split: option.splits)
  from checkduplicate_absent [OF this(2,1), of xr] W1(1) show ?thesis by blast
qed

theorem forgotten_request_is_new_witness:
  "\<exists>W1 W2. checkduplicate_and_update [5 \<mapsto> [reply_t_new 1]] 5 2 1 = Some ((NEW, None), W1) \<and>
    checkduplicate_and_update W1 5 1 0 = Some ((NEW, None), W2)"
  by (rule forgotten_request_is_new) (simp_all add: win_xids_def)

section \<open>Duplicates get the stored reply\<close>

datatype window_op = Check u32 u32 u32 | Store u32 u32 cells

fun window_run :: "(u32 \<rightharpoonup> reply_t list) \<Rightarrow> window_op list \<Rightarrow> (u32 \<rightharpoonup> reply_t list) option" where
  "window_run W [] = Some W"
| "window_run W (Check c x r # ops) = do {
     (_, W) \<leftarrow> checkduplicate_and_update W c x r;
     window_run W ops
   }"
| "window_run W (Store c x b # ops) = window_run (add_reply W c x b) ops"

fun spares :: "u32 \<Rightarrow> u32 \<Rightarrow> window_op \<Rightarrow> bool" where
  "spares clt xid (Check c x r) \<longleftrightarrow> c = clt \<longrightarrow> r < xid"
| "spares clt xid (Store c x b) \<longleftrightarrow> \<not> (c = clt \<and> x = xid)"

definition holds_reply :: "(u32 \<rightharpoonup> reply_t list) \<Rightarrow> u32 \<Rightarrow> u32 \<Rightarrow> cells \<Rightarrow> bool" where
  "holds_reply W clt xid b \<longleftrightarrow> (\<exists>l it. W clt = Some l \<and> List.find (\<lambda>i. r_xid i = xid) l = Some it \<and>
     r_cb_present it \<and> r_buf it = Some b)"

lemma find_checkduplicate_loop:
  "checkduplicate_loop x xr l = (v, l') \<Longrightarrow> xr < y \<Longrightarrow>
   List.find (\<lambda>i. r_xid i = y) l' = List.find (\<lambda>i. r_xid i = y) l"
proof (induction l arbitrary: l')
  case (Cons a l)
  obtain v1 l1 where l1: "checkduplicate_loop x xr l = (v1, l1)" by (cases "checkduplicate_loop x xr l")
  then show ?case using Cons.prems Cons.IH [of l1] by (auto split: if_splits)
qed simp

lemma find_append: "List.find P xs = Some y \<Longrightarrow> List.find P (xs @ ys) = Some y"
  by (induction xs) auto

lemma find_add_reply_list_other:
  "x \<noteq> y \<Longrightarrow> List.find (\<lambda>i. r_xid i = y) (add_reply_list x b l) = List.find (\<lambda>i. r_xid i = y) l"
  by (induction l) auto

lemma find_add_reply_list_same:
  "x \<in> xids l \<Longrightarrow> \<exists>it. List.find (\<lambda>i. r_xid i = x) (add_reply_list x b l) = Some it \<and>
     r_cb_present it \<and> r_buf it = Some b"
  by (induction l) auto

lemma find_DONE:
  "List.find (\<lambda>i. r_xid i = xid) l = Some it \<Longrightarrow> r_cb_present it \<Longrightarrow> xr < xid \<Longrightarrow>
   \<exists>l'. checkduplicate_loop xid xr l = (Some (DONE, r_buf it), l')"
  by (induction l) (auto simp: not_le split: if_splits prod.splits)

lemma holds_reply_step:
  assumes "holds_reply W clt xid b" and "spares clt xid op" and "window_run W [op] = Some W'"
  shows "holds_reply W' clt xid b"
proof (cases op)
  case (Check c x r)
  then obtain l u l' where "W c = Some l" "checkduplicate_loop x r l = (u, l')"
    and "W' = W(c \<mapsto> (case u of None \<Rightarrow> l' @ [reply_t_new x] | Some _ \<Rightarrow> l'))"
    using assms(3) by (auto simp: checkduplicate_and_update_def elim!: bind_SomeE split: prod.splits option.splits)
  then show ?thesis
    using assms(1,2) Check find_checkduplicate_loop [of x r l u l' xid]
    by (cases "c = clt") (auto simp: holds_reply_def find_append split: option.splits)
next
  case (Store c x b')
  then show ?thesis
    using assms by (auto simp: holds_reply_def add_reply_def find_add_reply_list_other)
qed

lemma holds_reply_run:
  "holds_reply W clt xid b \<Longrightarrow> list_all (spares clt xid) ops \<Longrightarrow> window_run W ops = Some W' \<Longrightarrow>
   holds_reply W' clt xid b"
proof (induction ops arbitrary: W)
  case (Cons op ops)
  from Cons.prems(3) obtain W1 where W1: "window_run W [op] = Some W1" "window_run W1 ops = Some W'"
    by (cases op) (auto elim!: bind_SomeE)
  from holds_reply_step [OF _ _ W1(1)] Cons.prems have "holds_reply W1 clt xid b" by simp
  with Cons.IH W1(2) Cons.prems(2) show ?case by simp
qed simp

lemma holds_reply_add:
  "xid \<in> win_xids W clt \<Longrightarrow> holds_reply (add_reply W clt xid b) clt xid b"
  using find_add_reply_list_same [of xid _ b]
  by (auto simp: holds_reply_def add_reply_def win_xids_def split: option.splits)

text \<open>
  After the reply of a request has been stored, any sequence of duplicate checks and
  stored replies that neither acknowledges the request nor stores a reply for it leaves the
  reply in place: a duplicate is answered with exactly the bytes of the first reply.
\<close>

lemma duplicate_replays_reply:
  assumes "xid \<in> win_xids W clt" and "list_all (spares clt xid) ops"
    and "window_run (add_reply W clt xid b) ops = Some W'" and "r < xid"
  shows "\<exists>W''. checkduplicate_and_update W' clt xid r = Some ((DONE, Some b), W'')"
proof -
  have "holds_reply (add_reply W clt xid b) clt xid b"
    using assms(1) find_add_reply_list_same [of xid _ b]
    by (auto simp: holds_reply_def add_reply_def win_xids_def split: option.splits)
  then have "holds_reply W' clt xid b" using assms(2,3) by (rule holds_reply_run)
  then show ?thesis
    using find_DONE [OF _ _ assms(4)]
    by (fastforce simp: holds_reply_def checkduplicate_and_update_def)
qed

end
