(* ===== verification/Window.thy ===== *)
theory Window
  imports Prelude
begin

text \<open>
  The client's record of the replies it has received: \<open>rpcc::update_xid_rep\<close> of
  \<open>rpc/rpc.cc\<close> on the list \<open>xid_rep_window_\<close>. Its front is what every request carries as
  \<open>xid_rep\<close>, the promise on which the server forgets stored replies.

  The abstract contract is a set \<open>A\<close> of transaction ids reported so far: the front is an id
  such that everything from 1 up to it is in \<open>A\<close>, the rest of the list is exactly the
  reported ids above the front, and the id after the front is not among them
  (\<open>win_inv A w\<close>). The lemma \<open>update_xid_rep_refines\<close> shows that the list operation
  implements the insertion into that set, with repeated ids and the wrap-around of the
  32-bit counter included.
\<close>

section \<open>The list operation\<close>

text \<open>The first loop: insert before the first larger element, else \<open>push_back\<close>.\<close>

fun window_insert :: "u32 \<Rightarrow> u32 list \<Rightarrow> u32 list" where
  "window_insert xid [] = [xid]"
| "window_insert xid (y # w) = (if xid < y then xid # y # w else y # window_insert xid w)"

text \<open>
  The second loop, with the list split at the iterator \<open>it\<close>: \<open>pre\<close> is what stands before
  it and \<open>x\<close> is \<open>*it\<close>. The inner loop pops the front while \<open>front + 1 == *it\<close>; once \<open>pre\<close>
  is used up the front is \<open>*it\<close> itself and the test fails.
\<close>

fun pop_while :: "u32 list \<Rightarrow> u32 \<Rightarrow> u32 list" where
  "pop_while [] x = []"
| "pop_while (f # pre) x = (if f + 1 = x then pop_while pre x else f # pre)"

fun compress :: "u32 list \<Rightarrow> u32 list \<Rightarrow> u32 list" where
  "compress pre [] = pre"
| "compress pre (x # post) = compress (pop_while pre x @ [x]) post"

definition update_xid_rep :: "u32 list \<Rightarrow> u32 \<Rightarrow> u32 list option" where
  "update_xid_rep w xid =
     (case w of
        [] \<Rightarrow> None
      | f # _ \<Rightarrow>
          if xid \<le> f then Some w
          else (let w' = window_insert xid w in Some (compress [hd w'] (tl w'))))"

section \<open>The abstract contract\<close>

definition acked_upto :: "u32 set \<Rightarrow> u32 \<Rightarrow> bool" where
  "acked_upto A r \<longleftrightarrow> (\<forall>i. 0 < i \<longrightarrow> i \<le> r \<longrightarrow> i \<in> A)"

definition win_cover :: "u32 set \<Rightarrow> u32 \<Rightarrow> u32 list \<Rightarrow> bool" where
  "win_cover A f w \<longleftrightarrow> sorted w \<and> acked_upto A f \<and> set w = insert f {x \<in> A. f < x}"

definition win_inv :: "u32 set \<Rightarrow> u32 list \<Rightarrow> bool" where
  "win_inv A w \<longleftrightarrow> w \<noteq> [] \<and> win_cover A (hd w) w \<and> hd w + 1 \<notin> set w"

lemma win_inv_init: "win_inv {} [0]"
  by (auto simp: win_inv_def win_cover_def acked_upto_def)

subsection \<open>Insertion\<close>

lemma set_window_insert: "set (window_insert x w) = insert x (set w)"
  by (induction w) auto

lemma sorted_window_insert: "sorted w \<Longrightarrow> sorted (window_insert x w)"
  by (induction w) (auto simp: set_window_insert)

lemma window_insert_front: "f < x \<Longrightarrow> window_insert x (f # w) = f # window_insert x w"
  by (auto dest: less_asym)

subsection \<open>Compression\<close>

lemma word_Suc_gt: "(f :: u32) < y \<Longrightarrow> y \<noteq> f + 1 \<Longrightarrow> f + 1 < y"
  by (metis inc_le order_le_less)

lemma pop_while_all: "(\<And>y. y \<in> set pre \<Longrightarrow> y + 1 = x) \<Longrightarrow> pop_while pre x = []"
  by (induction pre) auto

text \<open>One round: either the front's duplicates are exactly the list before \<open>it\<close> and all go,
  or nothing is popped.\<close>

lemma pop_while_cases:
  assumes "pre \<noteq> []" and "sorted (pre @ [x])" and "hd pre + 1 \<notin> set pre"
  shows "pop_while pre x = (if hd pre + 1 = x then [] else pre)"
proof (cases "hd pre + 1 = x")
  case True
  have "y = hd pre" if "y \<in> set pre" for y
  proof (rule ccontr)
    assume "y \<noteq> hd pre"
    moreover have "hd pre \<le> y" using assms(1,2) that by (cases pre) auto
    ultimately have "hd pre < y" by simp
    moreover have "y \<noteq> hd pre + 1" using that assms(3) by auto
    ultimately have "x < y" using True word_Suc_gt by blast
    moreover have "y \<le> x" using assms(2) that by (simp add: sorted_append)
    ultimately show False by simp
  qed
  with True show ?thesis by (auto intro: pop_while_all)
next
  case False
  with assms(1) show ?thesis by (cases pre) auto
qed

lemma win_cover_advance:
  assumes cover: "win_cover A f (pre @ x # post)" and f: "f \<in> set pre" and x: "f + 1 = x"
    and pre: "\<And>y. y \<in> set pre \<Longrightarrow> y = f"
  shows "win_cover A x (x # post)"
proof -
  have "f \<le> x" using cover f by (auto simp: win_cover_def sorted_append)
  moreover have "f \<noteq> x" using x by auto
  ultimately have fx: "f < x" by simp
  have le: "y \<le> x \<longleftrightarrow> y \<le> f \<or> y = x" for y
    using fx x word_Suc_gt [of f y] by (auto simp: not_le [symmetric])
  have xA: "x \<in> A" using cover fx by (auto simp: win_cover_def set_eq_iff)
  then have "acked_upto A x" using cover le by (auto simp: win_cover_def acked_upto_def)
  moreover have "set (x # post) = insert x {y \<in> A. x < y}"
  proof -
    have eq: "set (pre @ x # post) = insert f {y \<in> A. f < y}" and srt: "sorted (x # post)"
      using cover by (auto simp: win_cover_def sorted_append)
    have "y \<in> insert x {y \<in> A. x < y}" if "y \<in> set (x # post)" for y
    proof -
      have "x \<le> y" using srt that by auto
      moreover have "y \<in> insert f {y \<in> A. f < y}" unfolding eq [symmetric] using that by auto
      ultimately show ?thesis using fx by auto
    qed
    moreover have "y \<in> set (x # post)" if "y \<in> insert x {y \<in> A. x < y}" for y
    proof -
      have "x \<le> y" and "y \<in> set (pre @ x # post)" unfolding eq using fx that xA by auto
      moreover have "y \<notin> set pre" using pre \<open>x \<le> y\<close> fx by force
      ultimately show ?thesis by simp
    qed
    ultimately show ?thesis by (intro equalityI subsetI)
  qed
  moreover have "sorted (x # post)" using cover by (simp add: win_cover_def sorted_append)
  ultimately show ?thesis by (simp add: win_cover_def)
qed

lemma compress_win_inv:
  assumes "pre \<noteq> []" and "win_cover A (hd pre) (pre @ post)" and "hd pre + 1 \<notin> set pre"
  shows "win_inv A (compress pre post)"
  using assms
proof (induction post arbitrary: pre)
  case Nil
  then show ?case by (simp add: win_inv_def)
next
  case (Cons x post)
  have pop: "pop_while pre x = (if hd pre + 1 = x then [] else pre)"
    by (rule pop_while_cases) (use Cons.prems in \<open>auto simp: win_cover_def sorted_append\<close>)
  show ?case
  proof (cases "hd pre + 1 = x")
    case True
    have "y = hd pre" if "y \<in> set pre" for y
      using that True Cons.prems word_Suc_gt [of "hd pre" y]
      by (cases pre) (fastforce simp: win_cover_def sorted_append not_less)+
    with Cons.prems True have "win_cover A x (x # post)"
      by (intro win_cover_advance [of A "hd pre" pre x post]) auto
    then show ?thesis using Cons.IH [of "[x]"] pop True by simp
  next
    case False
    then show ?thesis using Cons.IH [of "pre @ [x]"] Cons.prems pop by simp
  qed
qed

lemma update_xid_rep_ins:
  assumes "win_inv A w"
  shows "\<exists>w'. update_xid_rep w xid = Some w' \<and> win_inv (insert xid A) w'"
proof -
  from assms obtain f t where w: "w = f # t" by (cases w) (auto simp: win_inv_def)
  show ?thesis
  proof (cases "xid \<le> f")
    case True
    then have "{x \<in> insert xid A. f < x} = {x \<in> A. f < x}" by auto
    then have "win_cover (insert xid A) f w"
      using assms unfolding win_inv_def win_cover_def acked_upto_def by (simp add: w)
    then have "win_inv (insert xid A) w" using assms by (simp add: win_inv_def w)
    with True show ?thesis by (simp add: update_xid_rep_def w)
  next
    case False
    then have "f < xid" by simp
    then have ins: "window_insert xid w = f # window_insert xid t"
      by (simp add: w window_insert_front del: window_insert.simps)
    have "{x \<in> insert xid A. f < x} = insert xid {x \<in> A. f < x}" using \<open>f < xid\<close> by auto
    moreover have "sorted (f # window_insert xid t)"
      using assms sorted_window_insert [of w xid] ins by (simp add: win_inv_def win_cover_def)
    ultimately have "win_cover (insert xid A) f ([f] @ window_insert xid t)"
      using assms unfolding win_inv_def win_cover_def acked_upto_def
      by (simp add: w set_window_insert insert_commute [of f xid])
    then have "win_inv (insert xid A) (compress [f] (window_insert xid t))"
      by (intro compress_win_inv) auto
    with False show ?thesis using ins by (simp add: update_xid_rep_def w del: window_insert.simps)
  qed
qed

text \<open>
  C5: \<open>update_xid_rep\<close> implements insertion into the set of reported transaction ids: from a
  window that represents \<open>A\<close> it always returns a window that represents \<open>A\<close> with the id
  added, so the acknowledgement at its front never covers an id that was not reported and
  never lags behind one whose predecessors were all reported.
\<close>

theorem update_xid_rep_refines:
  assumes "win_inv A w"
  shows "\<exists>w'. update_xid_rep w xid = Some w' \<and> win_inv (insert xid A) w'"
  using assms by (rule update_xid_rep_ins)

theorem update_xid_rep_refines_witness:
  "win_inv {} [0] \<and> (\<exists>w'. update_xid_rep [0] 2 = Some w' \<and> win_inv {2} w')"
  using update_xid_rep_refines [OF win_inv_init, of 2] win_inv_init by simp

end
