(* ===== verification/Rpcc.thy ===== *)
theory Rpcc
  imports Rpcs Window
begin

text \<open>
  The client end point of the RPC library: the class \<open>rpcc\<close> of \<open>rpc/rpc.h\<close> and
  \<open>rpc/rpc.cc\<close>. A call is split where it blocks: \<open>call1_enter\<close> takes a transaction id,
  registers the caller and packs the request header; \<open>got_pdu\<close> is the upcall of the poll
  thread with a reply; \<open>call1_leave\<close> unregisters the caller and yields the return value
  once the wait is over, with or without a reply. \<open>call_m\<close> decodes the result.

  The invariant \<open>client_inv A c\<close> ties the registered callers to the reply window: \<open>A\<close> is the
  set of transaction ids reported to the window so far, all of them issued, and no caller
  that still waits for its reply is among them. So no request ever acknowledges a call that
  has not been answered or given up.
\<close>

section \<open>The client object\<close>

record caller =
  ca_un :: unmarshall
  ca_intret :: "u32 option"
  ca_done :: bool

definition caller_new :: caller where
  "caller_new = \<lparr>ca_un = unmarshall_new, ca_intret = None, ca_done = False\<rparr>"

record rpcc =
  rc_clt_nonce :: u32
  rc_srv_nonce :: u32
  rc_bind_done :: bool
  rc_xid :: u32
  rc_lossytest :: u32
  rc_retrans :: bool
  rc_chan :: "cid option"
  rc_calls :: "u32 \<rightharpoonup> caller"
  rc_window :: "u32 list"

text \<open>\<open>rnd\<close> is the result of \<open>random()\<close>; \<open>lossy\<close> the value of \<open>RPC_LOSSY\<close>, 0 if not set.\<close>

definition rpcc_new :: "bool \<Rightarrow> u32 \<Rightarrow> u32 \<Rightarrow> rpcc" where
  "rpcc_new retrans rnd lossy =
     \<lparr>rc_clt_nonce = (if retrans then rnd else 0), rc_srv_nonce = 0, rc_bind_done = False,
      rc_xid = 1, rc_lossytest = lossy, rc_retrans = retrans, rc_chan = None,
      rc_calls = Map.empty, rc_window = [0]\<rparr>"

section \<open>Calls\<close>

datatype call1_start = Call_refused u32 | Call_sent u32 marshall

definition call1_enter :: "rpcc \<Rightarrow> u32 \<Rightarrow> marshall \<Rightarrow> (call1_start \<times> rpcc) option" where
  "call1_enter c proc req =
     (if (proc \<noteq> rpc_bind \<and> \<not> rc_bind_done c) \<or> (proc = rpc_bind \<and> rc_bind_done c)
      then Some (Call_refused bind_failure, c)
      else (case rc_window c of
        [] \<Rightarrow> None
      | front # _ \<Rightarrow> (let xid = rc_xid c in do {
          req \<leftarrow> pack_req_header req
            \<lparr>rq_xid = xid, rq_proc = proc, rq_clt_nonce = rc_clt_nonce c, rq_srv_nonce = rc_srv_nonce c,
             rq_xid_rep = front\<rparr>;
          Some (Call_sent xid req,
                c\<lparr>rc_xid := xid + 1, rc_calls := (rc_calls c)(xid \<mapsto> caller_new)\<rparr>)
        })))"

definition got_pdu :: "rpcc \<Rightarrow> bytes \<Rightarrow> nat \<Rightarrow> rpcc option" where
  "got_pdu c b sz = do {
     (h, rep) \<leftarrow> unpack_reply_header (unmarshall_of b sz);
     if \<not> u_ok rep then Some c
     else do {
       w \<leftarrow> update_xid_rep (rc_window c) (rp_xid h);
       let c = c\<lparr>rc_window := w\<rparr>;
       (case rc_calls c (rp_xid h) of
          None \<Rightarrow> Some c
        | Some ca \<Rightarrow>
            if ca_done ca then Some c
            else Some (c\<lparr>rc_calls := (rc_calls c)(rp_xid h \<mapsto>
                   ca\<lparr>ca_un := fst (unmarshall_take_in (ca_un ca) rep), ca_intret := Some (rp_ret h),
                      ca_done := True\<rparr>)\<rparr>))
     }
   }"

text \<open>After the wait: the id leaves \<open>calls_\<close> and is reported to the window a second time. A
  caller that is done has a return value.\<close>

definition call1_leave :: "rpcc \<Rightarrow> u32 \<Rightarrow> ((u32 \<times> unmarshall) \<times> rpcc) option" where
  "call1_leave c xid = do {
     ca \<leftarrow> rc_calls c xid;
     w \<leftarrow> update_xid_rep (rc_window c) xid;
     ret \<leftarrow> (if ca_done ca then ca_intret ca else Some timeout_failure);
     Some ((ret, ca_un ca), c\<lparr>rc_calls := (rc_calls c)(xid := None), rc_window := w\<rparr>)
   }"

text \<open>The part of \<open>call_m\<close> after \<open>call1\<close>: \<open>r0\<close> is what the caller's variable held before.\<close>

definition call_m_result ::
  "(unmarshall \<Rightarrow> ('r \<times> unmarshall) option) \<Rightarrow> 'r \<Rightarrow> u32 \<times> unmarshall \<Rightarrow> (u32 \<times> 'r) option" where
  "call_m_result get r0 res =
     (let (intret, u) = res in
      if sint intret < 0 then Some (intret, r0)
      else do {
        (r, u) \<leftarrow> get u;
        if \<not> okdone u then Some (unmarshal_reply_failure, r) else Some (intret, r)
      })"

text \<open>The requests the \<open>call\<close> templates build, for one, two and three arguments.\<close>

definition call_req0 :: "marshall option" where
  "call_req0 = Some marshall_new"

definition call_req1 :: "(marshall \<Rightarrow> 'a1 \<Rightarrow> marshall option) \<Rightarrow> 'a1 \<Rightarrow> marshall option" where
  "call_req1 put1 a1 = put1 marshall_new a1"

definition call_req2 ::
  "(marshall \<Rightarrow> 'a1 \<Rightarrow> marshall option) \<Rightarrow> (marshall \<Rightarrow> 'a2 \<Rightarrow> marshall option) \<Rightarrow> 'a1 \<Rightarrow> 'a2 \<Rightarrow> marshall option" where
  "call_req2 put1 put2 a1 a2 = do { m \<leftarrow> put1 marshall_new a1; put2 m a2 }"

definition call_req3 ::
  "(marshall \<Rightarrow> 'a1 \<Rightarrow> marshall option) \<Rightarrow> (marshall \<Rightarrow> 'a2 \<Rightarrow> marshall option) \<Rightarrow>
   (marshall \<Rightarrow> 'a3 \<Rightarrow> marshall option) \<Rightarrow> 'a1 \<Rightarrow> 'a2 \<Rightarrow> 'a3 \<Rightarrow> marshall option" where
  "call_req3 put1 put2 put3 a1 a2 a3 = do { m \<leftarrow> put1 marshall_new a1; m \<leftarrow> put2 m a2; put3 m a3 }"

text \<open>The end of \<open>bind\<close>, with the result of \<open>call(rpc_const::bind, 0, r, to)\<close>.\<close>

definition bind_finish :: "rpcc \<Rightarrow> u32 \<times> u32 \<Rightarrow> u32 \<times> rpcc" where
  "bind_finish c res =
     (let (ret, r) = res in
      (ret, if ret = 0 then c\<lparr>rc_bind_done := True, rc_srv_nonce := r\<rparr> else c))"

section \<open>The invariant of the client\<close>

definition caller_ok :: "u32 set \<Rightarrow> u32 \<Rightarrow> u32 \<Rightarrow> caller \<Rightarrow> bool" where
  "caller_ok A n x ca \<longleftrightarrow> 0 < x \<and> x < n \<and> (if ca_done ca then ca_intret ca \<noteq> None else x \<notin> A)"

definition client_inv :: "u32 set \<Rightarrow> rpcc \<Rightarrow> bool" where
  "client_inv A c \<longleftrightarrow>
     win_inv A (rc_window c) \<and> 0 < rc_xid c \<and> (\<forall>x \<in> A. x < rc_xid c) \<and>
     (\<forall>x ca. rc_calls c x = Some ca \<longrightarrow> caller_ok A (rc_xid c) x ca)"

lemma caller_okD: "client_inv A c \<Longrightarrow> rc_calls c x = Some ca \<Longrightarrow> caller_ok A (rc_xid c) x ca"
  by (simp add: client_inv_def)

lemma caller_ok_insert: "caller_ok A n x ca \<Longrightarrow> y \<noteq> x \<or> ca_done ca \<Longrightarrow> caller_ok (insert y A) n x ca"
  by (auto simp: caller_ok_def)

lemma client_inv_new: "client_inv {} (rpcc_new retrans rnd lossy)"
  by (simp add: client_inv_def rpcc_new_def win_inv_init)

text \<open>A waiting caller is never acknowledged.\<close>

lemma client_inv_unacked:
  assumes "client_inv A c" and "rc_calls c x = Some ca" and "\<not> ca_done ca" and "acked_upto A r"
  shows "r < x"
proof (rule ccontr)
  assume "\<not> r < x"
  moreover have "0 < x" "x \<notin> A" using caller_okD [OF assms(1,2)] assms(3) by (auto simp: caller_ok_def)
  ultimately show False using assms(4) by (auto simp: acked_upto_def)
qed

lemma u32_less_Suc:
  assumes "(x :: u32) \<le> y" and "y \<noteq> - 1"
  shows "x < y + 1"
proof -
  have "1 + y \<noteq> 0" using assms(2) by (simp add: add_eq_0_iff)
  then have "unat (1 + y) = Suc (unat y)" by (rule unatSuc)
  then show ?thesis using assms(1) by (simp add: word_less_nat_alt word_le_nat_alt add.commute)
qed

text \<open>The operations keep the invariant. The id counter does not wrap around as long as fewer
  than \<open>2 ^ 32 - 1\<close> calls are made, and the server answers only ids that were issued.\<close>

lemma call1_enter_nonce: "call1_enter c proc req = Some (st, c') \<Longrightarrow> rc_clt_nonce c' = rc_clt_nonce c"
  by (auto simp: call1_enter_def Let_def elim!: bind_SomeE split: if_splits list.splits)

lemma call1_enter_inv:
  assumes inv: "client_inv A c" and nowrap: "rc_xid c \<noteq> - 1"
    and enter: "call1_enter c proc req = Some (Call_sent xid m, c')"
  shows "client_inv A c'"
proof -
  have c': "xid = rc_xid c" "c' = c\<lparr>rc_xid := xid + 1, rc_calls := (rc_calls c)(xid \<mapsto> caller_new)\<rparr>"
    using enter by (auto simp: call1_enter_def Let_def elim!: bind_SomeE split: if_splits list.splits)
  have up: "x < rc_xid c + 1" if "x \<le> rc_xid c" for x using that nowrap by (rule u32_less_Suc)
  show ?thesis
    using inv up unfolding client_inv_def c' by (auto simp: caller_ok_def caller_new_def less_imp_le)
qed

lemma ca_done_upd: "ca\<lparr>ca_un := u, ca_intret := r, ca_done := True\<rparr> = ca \<Longrightarrow> ca_done ca"
  by (drule arg_cong [where f = ca_done]) simp

lemma got_pdu_inv:
  assumes inv: "client_inv A c" and got: "got_pdu c b sz = Some c'"
    and issued: "\<And>h u. unpack_reply_header (unmarshall_of b sz) = Some (h, u) \<Longrightarrow> rp_xid h < rc_xid c"
  shows "\<exists>A'. A \<subseteq> A' \<and> client_inv A' c'"
proof -
  from got obtain h u where hu: "unpack_reply_header (unmarshall_of b sz) = Some (h, u)"
    by (auto simp: got_pdu_def elim!: bind_SomeE)
  have x: "rp_xid h < rc_xid c" using hu by (rule issued)
  show ?thesis
  proof (cases "u_ok u")
    case False
    then show ?thesis using got hu inv by (auto simp: got_pdu_def)
  next
    case True
    from update_xid_rep_ins [of A "rc_window c" "rp_xid h"] inv obtain w
      where w: "update_xid_rep (rc_window c) (rp_xid h) = Some w" "win_inv (insert (rp_xid h) A) w"
      by (auto simp: client_inv_def)
    have "caller_ok (insert (rp_xid h) A) (rc_xid c') y ca" if "rc_calls c' y = Some ca" for y ca
    proof (cases "rc_calls c y = Some ca")
      case old: True
      have "y \<noteq> rp_xid h \<or> ca_done ca"
        using got hu True w(1) that old
        by (auto simp: got_pdu_def Let_def split: option.splits if_splits
            dest: ca_done_upd)
      moreover have "rc_xid c' = rc_xid c"
        using got hu True w(1) by (auto simp: got_pdu_def Let_def split: option.splits if_splits)
      ultimately show ?thesis using caller_okD [OF inv old] by (simp add: caller_ok_insert)
    next
      case False
      then have "y = rp_xid h" "ca_done ca" "ca_intret ca \<noteq> None" "rc_xid c' = rc_xid c"
        "\<exists>ca0. rc_calls c y = Some ca0"
        using got hu True w(1) that
        by (auto simp: got_pdu_def Let_def split: option.splits if_splits)
      then show ?thesis using caller_okD [OF inv] by (auto simp: caller_ok_def)
    qed
    moreover have "rc_xid c' = rc_xid c" "rc_window c' = w"
      using got hu True w(1) by (auto simp: got_pdu_def Let_def split: option.splits if_splits)
    ultimately have "client_inv (insert (rp_xid h) A) c'"
      using inv w x by (auto simp: client_inv_def)
    then show ?thesis by blast
  qed
qed

lemma call1_leave_inv:
  assumes inv: "client_inv A c" and leave: "call1_leave c x = Some (r, c')"
  shows "client_inv (insert x A) c'"
proof -
  from update_xid_rep_ins [of A "rc_window c" x] inv obtain w
    where w: "update_xid_rep (rc_window c) x = Some w" "win_inv (insert x A) w"
    by (auto simp: client_inv_def)
  moreover obtain ca where ca: "rc_calls c x = Some ca"
    and c': "c' = c\<lparr>rc_calls := (rc_calls c)(x := None), rc_window := w\<rparr>"
    using leave w(1) by (auto simp: call1_leave_def elim!: bind_SomeE)
  moreover have "caller_ok (insert x A) (rc_xid c) y cb" if "rc_calls c y = Some cb" "y \<noteq> x" for y cb
    using caller_okD [OF inv that(1)] that(2) by (simp add: caller_ok_insert)
  moreover have "x < rc_xid c" using caller_okD [OF inv ca] by (simp add: caller_ok_def)
  ultimately show ?thesis using inv by (auto simp: client_inv_def)
qed

lemma call1_leave_total:
  assumes "client_inv A c" and "rc_calls c x = Some ca"
  shows "\<exists>c'. call1_leave c x = Some ((if ca_done ca then the (ca_intret ca) else timeout_failure, ca_un ca), c')
    \<and> rc_calls c' = (rc_calls c)(x := None)"
proof -
  from update_xid_rep_ins [of A "rc_window c" x] assms obtain w
    where "update_xid_rep (rc_window c) x = Some w" by (auto simp: client_inv_def)
  moreover have "ca_done ca \<Longrightarrow> ca_intret ca \<noteq> None" using caller_okD [OF assms] by (simp add: caller_ok_def)
  ultimately show ?thesis using assms(2) by (auto simp: call1_leave_def)
qed

end
