(* ===== verification/RpcCall.thy ===== *)
theory RpcCall
  imports AtMostOnce Rpcc
begin

text \<open>
  Remote calls from end to end. A method with codecs for its arguments and its result is the
  locale \<open>rpc_method\<close>; its lemmas follow one call through \<open>rpcc::call1\<close>, the wire,
  \<open>rpcs::dispatch\<close>, the wire again, \<open>rpcc::got_pdu\<close> and the end of \<open>call_m\<close>. The locale is
  interpreted for the methods of the sources: \<open>rpcs::rpcbind\<close> here, the methods of the
  extent and of the lock protocol in their theories.
\<close>

section \<open>The server's half\<close>

text \<open>The connection that \<open>conns_\<close> holds for the client is \<open>k\<close>, or one whose reference can be given back.\<close>

definition replaceable :: "'s rpcs \<Rightarrow> u32 \<Rightarrow> cid \<Rightarrow> bool" where
  "replaceable s n k \<longleftrightarrow> (\<forall>old. rs_conns s n = Some old \<longrightarrow>
     old = Some k \<or> (\<exists>d H. old = Some d \<and> decref (rs_heap s) d = Some H))"

text \<open>What \<open>dispatch\<close> needs of the server to take a request as a new one from connection \<open>k\<close>.\<close>

definition accepts :: "'s rpcs \<Rightarrow> cid \<Rightarrow> req_header \<Rightarrow> bool" where
  "accepts s k h \<longleftrightarrow>
     (rq_srv_nonce h = 0 \<or> rq_srv_nonce h = rs_nonce s) \<and>
     (\<exists>kn. rs_heap s k = Some kn \<and> \<not> c_dead kn \<and> 1 \<le> c_refno kn) \<and>
     (rq_clt_nonce h \<noteq> 0 \<longrightarrow>
        replaceable s (rq_clt_nonce h) k \<and>
        rq_xid h \<notin> win_xids (rs_reply_window s) (rq_clt_nonce h))"

lemma win_xids_None: "W c = None \<Longrightarrow> win_xids W c = {}"
  by (simp add: win_xids_def)

lemma decref_other: "decref H d = Some H' \<Longrightarrow> k \<noteq> d \<Longrightarrow> H' k = H k"
  by (auto simp: decref_def delete_conn_def Let_def elim!: bind_SomeE split: if_splits)

lemma save_conn_ok:
  assumes "rs_heap s k = Some kn" and "replaceable s n k"
  shows "\<exists>s' kn'. save_conn s n k = Some s' \<and> rs_heap s' k = Some kn' \<and> c_dead kn' = c_dead kn \<and>
    c_wpdu kn' = c_wpdu kn \<and> c_refno kn \<le> c_refno kn' \<and> rs_app s' = rs_app s \<and> rs_counting s' = rs_counting s \<and>
    rs_outbox s' = rs_outbox s \<and> rs_procs s' = rs_procs s \<and> rs_nonce s' = rs_nonce s \<and>
    rs_conns s' n = Some (Some k)"
proof (cases "rs_conns s n = None \<or> rs_conns s n = Some (Some k)")
  case True
  then show ?thesis using assms(1) by (auto simp: save_conn_def c_incref_def incref_def)
next
  case False
  then obtain d H where d: "rs_conns s n = Some (Some d)" "d \<noteq> k" "decref (rs_heap s) d = Some H"
    using assms(2) by (auto simp: replaceable_def)
  then have "H k = Some kn" using decref_other [of _ d H k] assms(1) by simp
  then show ?thesis using d by (auto simp: save_conn_def c_decref_def c_incref_def incref_def)
qed

lemma dispatch_enter_new:
  assumes hdr: "unpack_req_header (unmarshall_of b sz) = Some (h, u)" and ok: "u_ok u"
    and acc: "accepts s k h" and f: "rs_procs s (rq_proc h) = Some f" and kn0: "rs_heap s k = Some kn0"
  shows "\<exists>s1 kn. dispatch_enter s k b sz =
      Some (Some \<lparr>dj_hdr = h, dj_req = u, dj_fn = f, dj_stat = NEW, dj_buf = None\<rparr>, s1) \<and>
    rs_app s1 = rs_app s \<and> rs_counting s1 = rs_counting s \<and> rs_outbox s1 = rs_outbox s \<and>
    rs_procs s1 = rs_procs s \<and> rs_nonce s1 = rs_nonce s \<and>
    (rq_clt_nonce h \<noteq> 0 \<longrightarrow> rq_xid h \<in> win_xids (rs_reply_window s1) (rq_clt_nonce h) \<and>
       win_xids (rs_reply_window s1) (rq_clt_nonce h)
         \<subseteq> insert (rq_xid h) (win_xids (rs_reply_window s) (rq_clt_nonce h)) \<and>
       rs_conns s1 (rq_clt_nonce h) = Some (Some k)) \<and>
    rs_heap s1 k = Some kn \<and> \<not> c_dead kn \<and> c_wpdu kn = c_wpdu kn0 \<and> c_refno kn0 \<le> c_refno kn"
proof -
  have kn: "rs_heap s k = Some kn0" "\<not> c_dead kn0" "1 \<le> c_refno kn0"
    and srv: "\<not> (rq_srv_nonce h \<noteq> 0 \<and> rq_srv_nonce h \<noteq> rs_nonce s)"
    using acc kn0 by (auto simp: accepts_def)
  show ?thesis
  proof (cases "rq_clt_nonce h = 0")
    case True
    then show ?thesis
      using hdr ok kn srv f by (auto simp: dispatch_enter_def)
  next
    case False
    define s0 where "s0 = (if rs_reply_window s (rq_clt_nonce h) = None
      then s\<lparr>rs_reply_window := (rs_reply_window s)(rq_clt_nonce h \<mapsto> [])\<rparr> else s)"
    have same: "rs_heap s0 = rs_heap s" "rs_conns s0 = rs_conns s" "rs_app s0 = rs_app s"
      "rs_counting s0 = rs_counting s" "rs_outbox s0 = rs_outbox s" "rs_procs s0 = rs_procs s"
      "rs_nonce s0 = rs_nonce s" by (simp_all add: s0_def)
    have new: "rs_reply_window s0 (rq_clt_nonce h) \<noteq> None"
      "rq_xid h \<notin> win_xids (rs_reply_window s0) (rq_clt_nonce h)"
      using acc False by (auto simp: s0_def accepts_def)
    have conns: "replaceable s0 (rq_clt_nonce h) k"
      using acc False same by (auto simp: accepts_def replaceable_def)
    from checkduplicate_absent [OF new, of "rq_xid_rep h"] obtain W'
      where W': "checkduplicate_and_update (rs_reply_window s0) (rq_clt_nonce h) (rq_xid h) (rq_xid_rep h)
          = Some ((NEW, None), W')" and inW: "rq_xid h \<in> win_xids W' (rq_clt_nonce h)"
        "win_xids W' (rq_clt_nonce h) \<subseteq> insert (rq_xid h) (win_xids (rs_reply_window s0) (rq_clt_nonce h))"
      by auto
    have sub: "win_xids (rs_reply_window s0) (rq_clt_nonce h) = win_xids (rs_reply_window s) (rq_clt_nonce h)"
      by (simp add: s0_def win_xids_None)
    obtain s2 kn2 where s2: "save_conn s0 (rq_clt_nonce h) k = Some s2"
      "rs_heap s2 k = Some kn2" "\<not> c_dead kn2" "c_wpdu kn2 = c_wpdu kn0" "c_refno kn0 \<le> c_refno kn2" "rs_app s2 = rs_app s"
      "rs_counting s2 = rs_counting s" "rs_outbox s2 = rs_outbox s" "rs_procs s2 = rs_procs s"
      "rs_nonce s2 = rs_nonce s" "rs_conns s2 (rq_clt_nonce h) = Some (Some k)"
      using save_conn_ok [of s0 k kn0 "rq_clt_nonce h"] conns kn same by auto
    have "rs_reply_window s2 = rs_reply_window s0" using s2(1) by (rule save_conn_window)
    then show ?thesis
      using hdr ok srv f False W' inW sub s2
      by (auto simp: dispatch_enter_def Let_def s0_def [symmetric])
  qed
qed

text \<open>The end of a new request on a live connection: the reply is stored and sent.\<close>

lemma finish_new_alive:
  assumes "rs_heap s k = Some kn" and "\<not> c_dead kn" and "1 \<le> c_refno kn"
  shows "\<exists>s'. finish_new s k h b = Some s' \<and> rs_outbox s' = rs_outbox s @ [(k, b)] \<and>
    rs_app s' = rs_app s \<and> rs_nonce s' = rs_nonce s \<and> rs_procs s' = rs_procs s \<and> rs_conns s' = rs_conns s \<and>
    rs_heap s' k = Some (kn\<lparr>c_refno := c_refno kn - 1\<rparr>) \<and>
    rs_reply_window s' = (if rq_clt_nonce h \<noteq> 0
      then add_reply (rs_reply_window s) (rq_clt_nonce h) (rq_xid h) b else rs_reply_window s)"
  using assms
  by (auto simp: finish_new_def Let_def latest_conn_def isdead_def c_send_def c_decref_def decref_def)

lemma run_handler_ok:
  assumes "dj_fn j (dj_req j) marshall_new (rs_app s) = Some (ret, rep, app')"
    and "0 \<le> sint ret \<or> ret = unmarshal_args_failure" and "marsh_wf rep" and "RPC_HEADER_SZ \<le> m_ind rep"
  shows "\<exists>s'. run_handler s j = Some (take 4 (m_contents rep) @
      map Some (enc_reply \<lparr>rp_xid = rq_xid (dj_hdr j), rp_ret = ret\<rparr>) @ drop 12 (m_contents rep), s') \<and>
    rs_app s' = app' \<and> rs_outbox s' = rs_outbox s \<and> rs_reply_window s' = rs_reply_window s \<and>
    rs_heap s' = rs_heap s \<and> rs_nonce s' = rs_nonce s \<and> rs_procs s' = rs_procs s \<and> rs_conns s' = rs_conns s"
proof -
  obtain m' where m': "pack_reply_header rep \<lparr>rp_xid = rq_xid (dj_hdr j), rp_ret = ret\<rparr> = Some m'"
    "m_contents m' = take 4 (m_contents rep) @ map Some (enc_reply \<lparr>rp_xid = rq_xid (dj_hdr j), rp_ret = ret\<rparr>)
      @ drop 12 (m_contents rep)"
    using assms(3,4) by (rule pack_reply_header_contents)
  with assms show ?thesis
    by (auto simp: run_handler_def Let_def updatestat_def marshall_take_buf_def)
qed

text \<open>The reply of a call, as cells: the header and the encoded result.\<close>

definition reply_cells :: "u32 \<Rightarrow> u32 \<Rightarrow> bytes \<Rightarrow> cells" where
  "reply_cells xid ret body =
     replicate 4 None @ map Some (enc_reply \<lparr>rp_xid = xid, rp_ret = ret\<rparr>) @ replicate 12 None @ map Some body"

lemma m_contents_new: "m_contents marshall_new = replicate 24 None"
  by (simp add: marshall_new_def m_contents_def map_replicate_const)

lemma marsh_wf_new: "marsh_wf marshall_new"
  by (simp add: marsh_wf_def marshall_new_def)

definition served :: "u32 \<Rightarrow> u32 \<Rightarrow> cid \<Rightarrow> 's rpcs \<Rightarrow> 's rpcs \<Rightarrow> bool" where
  "served clt xid k s s' \<longleftrightarrow>
     rs_nonce s' = rs_nonce s \<and> rs_procs s' = rs_procs s \<and>
     (\<exists>kn kn'. rs_heap s k = Some kn \<and> rs_heap s' k = Some kn' \<and> \<not> c_dead kn' \<and> c_wpdu kn' = c_wpdu kn \<and> c_refno kn - 1 \<le> c_refno kn') \<and>
     (clt \<noteq> 0 \<longrightarrow> rs_conns s' clt = Some (Some k) \<and>
        win_xids (rs_reply_window s') clt \<subseteq> insert xid (win_xids (rs_reply_window s) clt))"

lemma dispatch_new:
  assumes hdr: "unpack_req_header (unmarshall_of b sz) = Some (h, u)" "u_ok u"
    and acc: "accepts s k h" and f: "rs_procs s (rq_proc h) = Some f"
    and run: "f u marshall_new (rs_app s) = Some (ret, rep, app')"
    and ret: "0 \<le> sint ret \<or> ret = unmarshal_args_failure"
    and rep: "marsh_wf rep" "m_contents rep = replicate 24 None @ map Some body"
  shows "\<exists>s'. dispatch s k b sz = Some s' \<and> rs_app s' = app' \<and>
    rs_outbox s' = rs_outbox s @ [(k, reply_cells (rq_xid h) ret body)] \<and>
    served (rq_clt_nonce h) (rq_xid h) k s s' \<and>
    (rq_clt_nonce h \<noteq> 0 \<longrightarrow>
       holds_reply (rs_reply_window s') (rq_clt_nonce h) (rq_xid h) (reply_cells (rq_xid h) ret body))"
proof -
  let ?j = "\<lparr>dj_hdr = h, dj_req = u, dj_fn = f, dj_stat = NEW, dj_buf = None\<rparr>"
  obtain kn0 where kn0: "rs_heap s k = Some kn0" "1 \<le> c_refno kn0" using acc by (auto simp: accepts_def)
  obtain s1 kn where s1: "dispatch_enter s k b sz = Some (Some ?j, s1)" "rs_app s1 = rs_app s"
    "rs_outbox s1 = rs_outbox s" "rs_nonce s1 = rs_nonce s" "rs_procs s1 = rs_procs s"
    "rs_heap s1 k = Some kn" "\<not> c_dead kn" "c_refno kn0 \<le> c_refno kn" "c_wpdu kn = c_wpdu kn0"
    and inW: "rq_clt_nonce h \<noteq> 0 \<longrightarrow> rq_xid h \<in> win_xids (rs_reply_window s1) (rq_clt_nonce h) \<and>
       win_xids (rs_reply_window s1) (rq_clt_nonce h)
         \<subseteq> insert (rq_xid h) (win_xids (rs_reply_window s) (rq_clt_nonce h)) \<and>
       rs_conns s1 (rq_clt_nonce h) = Some (Some k)"
    using dispatch_enter_new [OF hdr acc f kn0(1)] by blast
  have "length (m_contents rep) = m_ind rep" using rep(1) by simp
  then have ind: "RPC_HEADER_SZ \<le> m_ind rep" using rep(2) by simp
  obtain s2 where s2: "run_handler s1 ?j = Some (reply_cells (rq_xid h) ret body, s2)"
    "rs_app s2 = app'" "rs_outbox s2 = rs_outbox s1" "rs_reply_window s2 = rs_reply_window s1"
    "rs_heap s2 = rs_heap s1" "rs_nonce s2 = rs_nonce s1" "rs_procs s2 = rs_procs s1" "rs_conns s2 = rs_conns s1"
    using run_handler_ok [of ?j s1 ret rep app'] run ret rep ind s1(2)
    by (auto simp: reply_cells_def)
  from finish_new_alive [of s2 k kn h "reply_cells (rq_xid h) ret body"] s1 s2 kn0 obtain s3
    where s3: "finish_new s2 k h (reply_cells (rq_xid h) ret body) = Some s3"
    "rs_outbox s3 = rs_outbox s @ [(k, reply_cells (rq_xid h) ret body)]" "rs_app s3 = app'"
    "rs_nonce s3 = rs_nonce s" "rs_procs s3 = rs_procs s" "rs_conns s3 = rs_conns s1"
    "rs_heap s3 k = Some (kn\<lparr>c_refno := c_refno kn - 1\<rparr>)"
    "rs_reply_window s3 = (if rq_clt_nonce h \<noteq> 0
      then add_reply (rs_reply_window s2) (rq_clt_nonce h) (rq_xid h) (reply_cells (rq_xid h) ret body)
      else rs_reply_window s2)"
    by auto
  have "rq_clt_nonce h \<noteq> 0 \<longrightarrow>
      holds_reply (rs_reply_window s3) (rq_clt_nonce h) (rq_xid h) (reply_cells (rq_xid h) ret body)"
    using inW s2(4) s3(8) by (simp add: holds_reply_add)
  moreover have "served (rq_clt_nonce h) (rq_xid h) k s s3"
    using kn0 s1 s2 s3 inW by (simp add: served_def)
  ultimately show ?thesis using s1(1) s2(1) s3 by (simp add: dispatch_def dispatch_switch_def)
qed

section \<open>The client's half\<close>

text \<open>The request of a call, as cells: the header and the encoded arguments.\<close>

definition request_cells :: "req_header \<Rightarrow> bytes \<Rightarrow> cells" where
  "request_cells h body = replicate 4 None @ map Some (enc_req h) @ map Some body"

definition next_header :: "rpcc \<Rightarrow> u32 \<Rightarrow> req_header" where
  "next_header c proc =
     \<lparr>rq_xid = rc_xid c, rq_proc = proc, rq_clt_nonce = rc_clt_nonce c, rq_srv_nonce = rc_srv_nonce c,
      rq_xid_rep = hd (rc_window c)\<rparr>"

text \<open>A client may issue a call of \<open>proc\<close>: bound, or binding for the first time.\<close>

definition may_call :: "rpcc \<Rightarrow> u32 \<Rightarrow> bool" where
  "may_call c proc \<longleftrightarrow> (proc = rpc_bind \<longleftrightarrow> \<not> rc_bind_done c)"

lemma call1_enter_sent:
  assumes "may_call c proc" and "rc_window c \<noteq> []"
    and m: "marsh_wf m" "m_contents m = replicate 24 None @ map Some body"
  shows "\<exists>m'. call1_enter c proc m = Some (Call_sent (rc_xid c) m',
      c\<lparr>rc_xid := rc_xid c + 1, rc_calls := (rc_calls c)(rc_xid c \<mapsto> caller_new)\<rparr>) \<and>
    m_contents m' = request_cells (next_header c proc) body"
proof -
  have "length (m_contents m) = m_ind m" using m(1) by simp
  then have ind: "RPC_HEADER_SZ \<le> m_ind m" using m(2) by simp
  obtain m' where m': "pack_req_header m (next_header c proc) = Some m'"
    "m_contents m' = take 4 (m_contents m) @ map Some (enc_req (next_header c proc)) @ drop 24 (m_contents m)"
    using m(1) ind by (rule pack_req_header_contents)
  obtain f w where "rc_window c = f # w" using assms(2) by (cases "rc_window c") auto
  with m' m(2) assms(1) show ?thesis
    by (auto simp: call1_enter_def may_call_def next_header_def request_cells_def Let_def)
qed

text \<open>A request and a reply as the other side receives them.\<close>

lemma wire_of_None: "wire_of (replicate n None) bs \<longleftrightarrow> length bs = n"
  unfolding wire_of_def by (auto simp: list_all2_conv_all_nth)

lemma wire_request:
  assumes "wire_of (request_cells h body) bs" and "length body < MARSH_LIMIT"
  shows "unpack_req_header (unmarshall_of bs (length bs))
      = Some (h, (unmarshall_of bs (length bs))\<lparr>u_ind := RPC_HEADER_SZ\<rparr>)"
    and "u_rest ((unmarshall_of bs (length bs))\<lparr>u_ind := RPC_HEADER_SZ\<rparr>) = body"
    and "length bs = 24 + length body"
proof -
  from assms(1) obtain xs where bs: "bs = xs @ enc_req h @ body" and xs: "length xs = 4"
    unfolding request_cells_def wire_of_append wire_of_None wire_of_Some by auto
  show "unpack_req_header (unmarshall_of bs (length bs))
      = Some (h, (unmarshall_of bs (length bs))\<lparr>u_ind := RPC_HEADER_SZ\<rparr>)"
    using xs assms(2) bs refl by (rule unpack_req_header_wire)
  show "u_rest ((unmarshall_of bs (length bs))\<lparr>u_ind := RPC_HEADER_SZ\<rparr>) = body"
    using xs by (simp add: u_rest_def unmarshall_of_def bs)
  show "length bs = 24 + length body" using xs bs by simp
qed

lemma wire_reply:
  assumes "wire_of (reply_cells xid ret body) bs" and "length body + 12 < MARSH_LIMIT"
  shows "unpack_reply_header (unmarshall_of bs (length bs))
      = Some (\<lparr>rp_xid = xid, rp_ret = ret\<rparr>, (unmarshall_of bs (length bs))\<lparr>u_ind := RPC_HEADER_SZ\<rparr>)"
    and "drop 24 bs = body" and "length bs = 24 + length body"
proof -
  from assms(1) obtain xs ys where bs: "bs = xs @ enc_reply \<lparr>rp_xid = xid, rp_ret = ret\<rparr> @ ys @ body"
    and xs: "length xs = 4" "length ys = 12"
    unfolding reply_cells_def wire_of_append wire_of_None wire_of_Some by auto
  show "unpack_reply_header (unmarshall_of bs (length bs))
      = Some (\<lparr>rp_xid = xid, rp_ret = ret\<rparr>, (unmarshall_of bs (length bs))\<lparr>u_ind := RPC_HEADER_SZ\<rparr>)"
    using xs(1) _ bs refl by (rule unpack_reply_header_wire) (use assms(2) xs in simp)
  show "drop 24 bs = body" "length bs = 24 + length body" using xs bs by simp_all
qed

text \<open>The reply of a call that waits, from the poll thread to the end of \<open>call1\<close>.\<close>

definition same_client :: "rpcc \<Rightarrow> rpcc \<Rightarrow> bool" where
  "same_client c c' \<longleftrightarrow> rc_xid c' = rc_xid c \<and> rc_clt_nonce c' = rc_clt_nonce c \<and>
     rc_srv_nonce c' = rc_srv_nonce c \<and> rc_bind_done c' = rc_bind_done c"

lemma call1_leave_same: "call1_leave c x = Some (r, c') \<Longrightarrow> same_client c c'"
  by (auto simp: call1_leave_def same_client_def elim!: bind_SomeE)

lemma reply_completes_call:
  assumes inv: "client_inv A c" and wait: "rc_calls c xid = Some caller_new"
    and bs: "wire_of (reply_cells xid ret body) bs" "length body + 12 < MARSH_LIMIT"
  shows "\<exists>c2 c3. got_pdu c bs (length bs) = Some c2 \<and>
    call1_leave c2 xid = Some ((ret, \<lparr>u_buf = bs, u_sz = length bs, u_ind = 24, u_ok = True\<rparr>), c3) \<and>
    rc_calls c3 = (rc_calls c)(xid := None) \<and> client_inv (insert xid A) c3 \<and> same_client c c3"
proof -
  note w = wire_reply [OF bs]
  from update_xid_rep_ins [of A "rc_window c" xid] inv obtain w1
    where w1: "update_xid_rep (rc_window c) xid = Some w1" "win_inv (insert xid A) w1"
    by (auto simp: client_inv_def)
  let ?u = "\<lparr>u_buf = bs, u_sz = length bs, u_ind = 24, u_ok = True\<rparr>"
  let ?ca = "\<lparr>ca_un = ?u, ca_intret = Some ret, ca_done = True\<rparr>"
  let ?c2 = "c\<lparr>rc_window := w1, rc_calls := (rc_calls c)(xid \<mapsto> ?ca)\<rparr>"
  have got: "got_pdu c bs (length bs) = Some ?c2"
    using w wait w1(1)
    by (simp add: got_pdu_def caller_new_def unmarshall_take_in_def unmarshall_take_buf_def unmarshall_of_def
        unmarshall_new_def)
  have ok: "caller_ok A (rc_xid c) xid caller_new" using inv wait by (rule caller_okD)
  have "client_inv (insert xid A) ?c2"
    using inv w1(2) ok unfolding client_inv_def
    by (auto simp: caller_ok_def caller_new_def split: if_splits)
  from call1_leave_total [OF this, of xid ?ca] obtain c3
    where c3: "call1_leave ?c2 xid = Some ((ret, ?u), c3)" "rc_calls c3 = (rc_calls ?c2)(xid := None)"
    by auto
  have "client_inv (insert xid (insert xid A)) c3"
    using \<open>client_inv (insert xid A) ?c2\<close> c3(1) by (rule call1_leave_inv)
  moreover have "same_client c c3" using call1_leave_same [OF c3(1)] by (simp add: same_client_def)
  ultimately show ?thesis using got c3 by auto
qed

section \<open>A call from end to end\<close>

text \<open>
  \<open>call_yields c s k proc req get r1 res app'\<close>: the client sends the request; whatever values
  the bytes left indeterminate have on the wire, the server's dispatch of it leaves the
  application in \<open>app'\<close> and sends one reply; that reply, received by the client, ends the
  call, and \<open>call_m\<close> returns \<open>res\<close>, a return code and the value of the result variable,
  which was \<open>r1\<close> before. \<open>call_kept\<close> says what carries over to the next call.
\<close>

definition call_kept :: "rpcc \<Rightarrow> 's rpcs \<Rightarrow> cid \<Rightarrow> rpcc \<Rightarrow> 's rpcs \<Rightarrow> bool" where
  "call_kept c s k c' s' \<longleftrightarrow>
     (\<exists>A. client_inv A c') \<and> same_client (c\<lparr>rc_xid := rc_xid c + 1\<rparr>) c' \<and> served (rc_clt_nonce c) (rc_xid c) k s s'"

definition call_yields ::
  "rpcc \<Rightarrow> 's rpcs \<Rightarrow> cid \<Rightarrow> u32 \<Rightarrow> marshall \<Rightarrow> (unmarshall \<Rightarrow> ('r \<times> unmarshall) option) \<Rightarrow> 'r \<Rightarrow>
   u32 \<times> 'r \<Rightarrow> 's \<Rightarrow> bool" where
  "call_yields c s k proc req get r1 res app' \<longleftrightarrow>
     (\<exists>m c1. call1_enter c proc req = Some (Call_sent (rc_xid c) m, c1) \<and>
       (\<forall>bs. wire_of (m_contents m) bs \<longrightarrow>
         (\<exists>s' rep. dispatch s k bs (length bs) = Some s' \<and> rs_app s' = app' \<and>
            rs_outbox s' = rs_outbox s @ [(k, rep)] \<and>
            (\<forall>rb. wire_of rep rb \<longrightarrow>
              (\<exists>c2 c3 ret. got_pdu c1 rb (length rb) = Some c2 \<and>
                 call1_leave c2 (rc_xid c) = Some (ret, c3) \<and>
                 rc_calls c3 = (rc_calls c)(rc_xid c := None) \<and>
                 call_m_result get r1 ret = Some res \<and> call_kept c s k c3 s')))))"

text \<open>The states in which a client and a server can do a call of \<open>proc\<close>.\<close>

definition call_ready :: "u32 set \<Rightarrow> rpcc \<Rightarrow> 's rpcs \<Rightarrow> cid \<Rightarrow> u32 \<Rightarrow> bool" where
  "call_ready A c s k proc \<longleftrightarrow>
     client_inv A c \<and> rc_xid c \<noteq> - 1 \<and> may_call c proc \<and> accepts s k (next_header c proc)"

lemma client_inv_window: "client_inv A c \<Longrightarrow> rc_window c \<noteq> []"
  by (simp add: client_inv_def win_inv_def)

text \<open>What the client makes of the reply.\<close>

lemma reply_yields:
  assumes c1: "c1 = c\<lparr>rc_xid := rc_xid c + 1, rc_calls := (rc_calls c)(rc_xid c \<mapsto> caller_new)\<rparr>" "client_inv A c1"
    and rb: "wire_of (reply_cells (rc_xid c) ret body) rb" "length body + 24 < MARSH_LIMIT"
    and res: "\<And>u. unm_wf u \<Longrightarrow> u_ok u \<Longrightarrow> u_rest u = body \<Longrightarrow> u_ind u + length body = u_sz u \<Longrightarrow>
        call_m_result get r1 (ret, u) = Some res"
    and s': "served (rc_clt_nonce c) (rc_xid c) k s s'"
  shows "\<exists>c2 c3 ret. got_pdu c1 rb (length rb) = Some c2 \<and> call1_leave c2 (rc_xid c) = Some (ret, c3) \<and>
    rc_calls c3 = (rc_calls c)(rc_xid c := None) \<and> call_m_result get r1 ret = Some res \<and> call_kept c s k c3 s'"
proof -
  have len: "length rb = 24 + length body" "drop 24 rb = body" using wire_reply [OF rb(1)] rb(2) by simp_all
  let ?v = "\<lparr>u_buf = rb, u_sz = length rb, u_ind = 24, u_ok = True\<rparr>"
  obtain c2 c3 where c3: "got_pdu c1 rb (length rb) = Some c2" "call1_leave c2 (rc_xid c) = Some ((ret, ?v), c3)"
    "rc_calls c3 = (rc_calls c1)(rc_xid c := None)" "client_inv (insert (rc_xid c) A) c3" "same_client c1 c3"
    using reply_completes_call [OF c1(2) _ rb(1)] rb(2) c1(1) by auto
  have "call_m_result get r1 (ret, ?v) = Some res"
    by (rule res) (use len rb(2) in \<open>simp_all add: unm_wf_def u_rest_def\<close>)
  moreover have "call_kept c s k c3 s'" using c3(4,5) s' c1(1) by (auto simp: call_kept_def same_client_def)
  ultimately show ?thesis using c3(1-3) c1(1) by auto
qed

text \<open>The common path: the handler \<open>f\<close> answers with the code \<open>ret\<close> and the bytes \<open>body\<close>.\<close>

lemma call_yieldsI:
  assumes rdy: "call_ready A c s k proc" and proc: "rs_procs s proc = Some f"
    and req: "marsh_wf req" "m_contents req = replicate 24 None @ map Some abody" "length abody + 24 < MARSH_LIMIT"
    and run: "\<And>u. unm_wf u \<Longrightarrow> u_ok u \<Longrightarrow> u_rest u = abody \<Longrightarrow> u_ind u \<le> u_sz u \<Longrightarrow>
        \<exists>rep. f u marshall_new (rs_app s) = Some (ret, rep, app') \<and> marsh_wf rep \<and>
          m_contents rep = replicate 24 None @ map Some body"
    and ret: "0 \<le> sint ret \<or> ret = unmarshal_args_failure"
    and body: "length body + 24 < MARSH_LIMIT"
    and res: "\<And>u. unm_wf u \<Longrightarrow> u_ok u \<Longrightarrow> u_rest u = body \<Longrightarrow> u_ind u + length body = u_sz u \<Longrightarrow>
        call_m_result get r1 (ret, u) = Some res"
  shows "call_yields c s k proc req get r1 res app'"
proof -
  have inv: "client_inv A c" and nw: "rc_xid c \<noteq> - 1" and may: "may_call c proc"
    and acc: "accepts s k (next_header c proc)" using rdy by (simp_all add: call_ready_def)
  let ?c1 = "c\<lparr>rc_xid := rc_xid c + 1, rc_calls := (rc_calls c)(rc_xid c \<mapsto> caller_new)\<rparr>"
  let ?h = "next_header c proc"
  obtain m where m: "call1_enter c proc req = Some (Call_sent (rc_xid c) m, ?c1)"
    "m_contents m = request_cells ?h abody"
    using call1_enter_sent [OF may client_inv_window [OF inv] req(1,2)] by blast
  have inv1: "client_inv A ?c1" using inv nw m(1) by (rule call1_enter_inv)
  have xid: "rq_xid ?h = rc_xid c" "rq_clt_nonce ?h = rc_clt_nonce c" by (simp_all add: next_header_def)
  have proc': "rs_procs s (rq_proc ?h) = Some f" using proc by (simp add: next_header_def)
  { fix bs assume bs: "wire_of (m_contents m) bs"
    let ?u = "(unmarshall_of bs (length bs))\<lparr>u_ind := RPC_HEADER_SZ\<rparr>"
    have w: "unpack_req_header (unmarshall_of bs (length bs)) = Some (?h, ?u)" "u_rest ?u = abody"
      "length bs = 24 + length abody"
      using wire_request [of ?h abody bs] bs m(2) req(3) by simp_all
    have u: "unm_wf ?u" "u_ok ?u" "u_ind ?u \<le> u_sz ?u"
      using w(3) req(3) by (simp_all add: unm_wf_def unmarshall_of_def)
    from run [OF u(1,2) w(2) u(3)] obtain rep where rep: "f ?u marshall_new (rs_app s) = Some (ret, rep, app')"
      "marsh_wf rep" "m_contents rep = replicate 24 None @ map Some body" by blast
    obtain s' where s': "dispatch s k bs (length bs) = Some s'" "rs_app s' = app'"
      "rs_outbox s' = rs_outbox s @ [(k, reply_cells (rc_xid c) ret body)]"
      "served (rc_clt_nonce c) (rc_xid c) k s s'"
      using dispatch_new [OF w(1) u(2) acc proc' rep(1) ret rep(2,3)] xid by auto
    have "\<forall>rb. wire_of (reply_cells (rc_xid c) ret body) rb \<longrightarrow>
        (\<exists>c2 c3 ret. got_pdu ?c1 rb (length rb) = Some c2 \<and> call1_leave c2 (rc_xid c) = Some (ret, c3) \<and>
          rc_calls c3 = (rc_calls c)(rc_xid c := None) \<and> call_m_result get r1 ret = Some res \<and> call_kept c s k c3 s')"
      using reply_yields [OF refl inv1 _ body res s'(4)] by blast
    with s' have "\<exists>s' rep. dispatch s k bs (length bs) = Some s' \<and> rs_app s' = app' \<and>
            rs_outbox s' = rs_outbox s @ [(k, rep)] \<and>
            (\<forall>rb. wire_of rep rb \<longrightarrow>
              (\<exists>c2 c3 ret. got_pdu ?c1 rb (length rb) = Some c2 \<and>
                 call1_leave c2 (rc_xid c) = Some (ret, c3) \<and>
                 rc_calls c3 = (rc_calls c)(rc_xid c := None) \<and>
                 call_m_result get r1 ret = Some res \<and> call_kept c s k c3 s'))" by blast }
  with m(1) show ?thesis unfolding call_yields_def by blast
qed

text \<open>
  A method as the \<open>reg\<close> templates register it and the \<open>call\<close> templates call it. The fields
  are the codecs of the argument (a pair for two arguments) and of the result, the method
  and the initial value of the server's result variable.
\<close>

locale rpc_method =
  arg: codec puta geta enca valida + res: codec putr getr encr validr
  for puta :: "marshall \<Rightarrow> 'a \<Rightarrow> marshall option" and geta enca valida
    and putr :: "marshall \<Rightarrow> 'r \<Rightarrow> marshall option" and getr encr validr +
  fixes meth :: "'a \<Rightarrow> 'r \<Rightarrow> 's \<Rightarrow> (u32 \<times> 'r \<times> 's) option"
    and r0 :: 'r
begin

lemma request_built:
  assumes "valida a" and "length (enca a) + 24 < MARSH_LIMIT"
  obtains m where "call_req1 puta a = Some m" and "marsh_wf m"
    and "m_contents m = replicate 24 None @ map Some (enca a)"
proof -
  have "m_ind marshall_new + length (enca a) < MARSH_LIMIT" using assms(2) by (simp add: marshall_new_def)
  with arg.put_enc [OF assms(1)] marsh_wf_new obtain m where "puta marshall_new a = Some m" "marsh_wf m"
    "m_contents m = m_contents marshall_new @ map Some (enca a)" by (rule put_okD)
  then show ?thesis using that by (simp add: call_req1_def m_contents_new)
qed

lemma arg_decoded:
  assumes "valida a" and "unm_wf u" and "u_ok u" and "u_rest u = enca a" and "u_ind u \<le> u_sz u"
  shows "\<exists>u'. geta u = Some (a, u') \<and> okdone u'"
proof -
  have "geta u = Some (a, u\<lparr>u_ind := u_ind u + length (enca a)\<rparr>)"
    using get_okD [OF arg.get_enc [OF assms(1)] assms(2,3), of "[]"] assms(4) by simp
  moreover have "length (enca a) = u_sz u - u_ind u" using length_u_rest [OF assms(2)] assms(4) by simp
  ultimately show ?thesis using assms(3,5) by (simp add: okdone_def)
qed

text \<open>The handler that \<open>reg\<close> makes answers with the code and the encoded result of the method, which \<open>call_m\<close> decodes.\<close>

lemma handler_answers:
  assumes a: "valida a" and local: "meth a r0 app = Some (b, r, app')"
    and r: "validr r" "length (encr r) + 24 < MARSH_LIMIT"
    and u: "unm_wf u" "u_ok u" "u_rest u = enca a" "u_ind u \<le> u_sz u"
  shows "\<exists>rep. handler1 geta putr r0 meth u marshall_new app = Some (b, rep, app') \<and>
    marsh_wf rep \<and> m_contents rep = replicate 24 None @ map Some (encr r)"
proof -
  have "m_ind marshall_new + length (encr r) < MARSH_LIMIT" using r(2) by (simp add: marshall_new_def)
  with res.put_enc [OF r(1)] marsh_wf_new obtain rep where "putr marshall_new r = Some rep" "marsh_wf rep"
    "m_contents rep = m_contents marshall_new @ map Some (encr r)" by (rule put_okD)
  moreover obtain u' where "geta u = Some (a, u')" "okdone u'" using arg_decoded [OF a u] by auto
  ultimately show ?thesis using local by (simp add: handler1_def m_contents_new)
qed

lemma result_decoded:
  assumes "validr r" and "0 \<le> sint b"
    and u: "unm_wf u" "u_ok u" "u_rest u = encr r" "u_ind u + length (encr r) = u_sz u"
  shows "call_m_result getr r1 (b, u) = Some (b, r)"
proof -
  have "getr u = Some (r, u\<lparr>u_ind := u_ind u + length (encr r)\<rparr>)"
    using get_okD [OF res.get_enc [OF assms(1)] u(1,2), of "[]"] u(3) by simp
  then show ?thesis using u assms(2) by (simp add: call_m_result_def okdone_def)
qed

text \<open>A remote call does what the local call does.\<close>

lemma rpc_transparent:
  assumes rdy: "call_ready A c s k proc"
    and proc: "rs_procs s proc = Some (handler1 geta putr r0 meth)"
    and a: "valida a" "length (enca a) + 24 < MARSH_LIMIT"
    and local: "meth a r0 (rs_app s) = Some (b, r, app')" "0 \<le> sint b"
    and r: "validr r" "length (encr r) + 24 < MARSH_LIMIT"
  shows "\<exists>req. call_req1 puta a = Some req \<and> call_yields c s k proc req getr r1 (b, r) app'"
proof -
  obtain req where req: "call_req1 puta a = Some req" "marsh_wf req"
    "m_contents req = replicate 24 None @ map Some (enca a)" using a by (rule request_built)
  have "call_yields c s k proc req getr r1 (b, r) app'"
    by (rule call_yieldsI [OF rdy proc req(2,3) a(2) handler_answers [OF a(1) local(1) r] _ r(2)
          result_decoded [OF r(1) local(2)]])
      (use local(2) in simp_all)
  with req(1) show ?thesis by blast
qed

end

end
