(* ===== verification/RpcStubs.thy ===== *)
theory RpcStubs
  imports RpcCall
begin

text \<open>
  The \<open>reg\<close> and \<open>call\<close> templates of \<open>rpc/rpc.h\<close> with four to seven arguments, and the proof
  that every template of either kind is its one-argument version on a tuple. With the codec
  of pairs this brings every arity under the locale \<open>rpc_method\<close>.
\<close>

section \<open>The templates\<close>

definition handler4 ::
  "(unmarshall \<Rightarrow> ('a1 \<times> unmarshall) option) \<Rightarrow>
   (unmarshall \<Rightarrow> ('a2 \<times> unmarshall) option) \<Rightarrow>
   (unmarshall \<Rightarrow> ('a3 \<times> unmarshall) option) \<Rightarrow>
   (unmarshall \<Rightarrow> ('a4 \<times> unmarshall) option) \<Rightarrow>
   (marshall \<Rightarrow> 'r \<Rightarrow> marshall option) \<Rightarrow> 'r \<Rightarrow>
   ('a1 \<Rightarrow> 'a2 \<Rightarrow> 'a3 \<Rightarrow> 'a4 \<Rightarrow> 'r \<Rightarrow> 's \<Rightarrow> (u32 \<times> 'r \<times> 's) option) \<Rightarrow> 's handler" where
  "handler4 get1 get2 get3 get4 put r0 meth args ret s = do {
     (a1, args) \<leftarrow> get1 args;
     (a2, args) \<leftarrow> get2 args;
     (a3, args) \<leftarrow> get3 args;
     (a4, args) \<leftarrow> get4 args;
     if \<not> okdone args then Some (unmarshal_args_failure, ret, s)
     else do {
       (b, r, s) \<leftarrow> meth a1 a2 a3 a4 r0 s;
       ret \<leftarrow> put ret r;
       Some (b, ret, s)
     }
   }"

definition handler5 ::
  "(unmarshall \<Rightarrow> ('a1 \<times> unmarshall) option) \<Rightarrow>
   (unmarshall \<Rightarrow> ('a2 \<times> unmarshall) option) \<Rightarrow>
   (unmarshall \<Rightarrow> ('a3 \<times> unmarshall) option) \<Rightarrow>
   (unmarshall \<Rightarrow> ('a4 \<times> unmarshall) option) \<Rightarrow>
   (unmarshall \<Rightarrow> ('a5 \<times> unmarshall) option) \<Rightarrow>
   (marshall \<Rightarrow> 'r \<Rightarrow> marshall option) \<Rightarrow> 'r \<Rightarrow>
   ('a1 \<Rightarrow> 'a2 \<Rightarrow> 'a3 \<Rightarrow> 'a4 \<Rightarrow> 'a5 \<Rightarrow> 'r \<Rightarrow> 's \<Rightarrow> (u32 \<times> 'r \<times> 's) option) \<Rightarrow> 's handler" where
  "handler5 get1 get2 get3 get4 get5 put r0 meth args ret s = do {
     (a1, args) \<leftarrow> get1 args;
     (a2, args) \<leftarrow> get2 args;
     (a3, args) \<leftarrow> get3 args;
     (a4, args) \<leftarrow> get4 args;
     (a5, args) \<leftarrow> get5 args;
     if \<not> okdone args then Some (unmarshal_args_failure, ret, s)
     else do {
       (b, r, s) \<leftarrow> meth a1 a2 a3 a4 a5 r0 s;
       ret \<leftarrow> put ret r;
       Some (b, ret, s)
     }
   }"

definition handler6 ::
  "(unmarshall \<Rightarrow> ('a1 \<times> unmarshall) option) \<Rightarrow>
   (unmarshall \<Rightarrow> ('a2 \<times> unmarshall) option) \<Rightarrow>
   (unmarshall \<Rightarrow> ('a3 \<times> unmarshall) option) \<Rightarrow>
   (unmarshall \<Rightarrow> ('a4 \<times> unmarshall) option) \<Rightarrow>
   (unmarshall \<Rightarrow> ('a5 \<times> unmarshall) option) \<Rightarrow>
   (unmarshall \<Rightarrow> ('a6 \<times> unmarshall) option) \<Rightarrow>
   (marshall \<Rightarrow> 'r \<Rightarrow> marshall option) \<Rightarrow> 'r \<Rightarrow>
   ('a1 \<Rightarrow> 'a2 \<Rightarrow> 'a3 \<Rightarrow> 'a4 \<Rightarrow> 'a5 \<Rightarrow> 'a6 \<Rightarrow> 'r \<Rightarrow> 's \<Rightarrow> (u32 \<times> 'r \<times> 's) option) \<Rightarrow> 's handler" where
  "handler6 get1 get2 get3 get4 get5 get6 put r0 meth args ret s = do {
     (a1, args) \<leftarrow> get1 args;
     (a2, args) \<leftarrow> get2 args;
     (a3, args) \<leftarrow> get3 args;
     (a4, args) \<leftarrow> get4 args;
     (a5, args) \<leftarrow> get5 args;
     (a6, args) \<leftarrow> get6 args;
     if \<not> okdone args then Some (unmarshal_args_failure, ret, s)
     else do {
       (b, r, s) \<leftarrow> meth a1 a2 a3 a4 a5 a6 r0 s;
       ret \<leftarrow> put ret r;
       Some (b, ret, s)
     }
   }"

definition handler7 ::
  "(unmarshall \<Rightarrow> ('a1 \<times> unmarshall) option) \<Rightarrow>
   (unmarshall \<Rightarrow> ('a2 \<times> unmarshall) option) \<Rightarrow>
   (unmarshall \<Rightarrow> ('a3 \<times> unmarshall) option) \<Rightarrow>
   (unmarshall \<Rightarrow> ('a4 \<times> unmarshall) option) \<Rightarrow>
   (unmarshall \<Rightarrow> ('a5 \<times> unmarshall) option) \<Rightarrow>
   (unmarshall \<Rightarrow> ('a6 \<times> unmarshall) option) \<Rightarrow>
   (unmarshall \<Rightarrow> ('a7 \<times> unmarshall) option) \<Rightarrow>
   (marshall \<Rightarrow> 'r \<Rightarrow> marshall option) \<Rightarrow> 'r \<Rightarrow>
   ('a1 \<Rightarrow> 'a2 \<Rightarrow> 'a3 \<Rightarrow> 'a4 \<Rightarrow> 'a5 \<Rightarrow> 'a6 \<Rightarrow> 'a7 \<Rightarrow> 'r \<Rightarrow> 's \<Rightarrow> (u32 \<times> 'r \<times> 's) option) \<Rightarrow> 's handler" where
  "handler7 get1 get2 get3 get4 get5 get6 get7 put r0 meth args ret s = do {
     (a1, args) \<leftarrow> get1 args;
     (a2, args) \<leftarrow> get2 args;
     (a3, args) \<leftarrow> get3 args;
     (a4, args) \<leftarrow> get4 args;
     (a5, args) \<leftarrow> get5 args;
     (a6, args) \<leftarrow> get6 args;
     (a7, args) \<leftarrow> get7 args;
     if \<not> okdone args then Some (unmarshal_args_failure, ret, s)
     else do {
       (b, r, s) \<leftarrow> meth a1 a2 a3 a4 a5 a6 a7 r0 s;
       ret \<leftarrow> put ret r;
       Some (b, ret, s)
     }
   }"

definition call_req4 ::
  "(marshall \<Rightarrow> 'a1 \<Rightarrow> marshall option) \<Rightarrow>
   (marshall \<Rightarrow> 'a2 \<Rightarrow> marshall option) \<Rightarrow>
   (marshall \<Rightarrow> 'a3 \<Rightarrow> marshall option) \<Rightarrow>
   (marshall \<Rightarrow> 'a4 \<Rightarrow> marshall option) \<Rightarrow>
   'a1 \<Rightarrow> 'a2 \<Rightarrow> 'a3 \<Rightarrow> 'a4 \<Rightarrow> marshall option" where
  "call_req4 put1 put2 put3 put4 a1 a2 a3 a4 = do {
     m \<leftarrow> put1 marshall_new a1;
     m \<leftarrow> put2 m a2;
     m \<leftarrow> put3 m a3;
     put4 m a4
   }"

definition call_req5 ::
  "(marshall \<Rightarrow> 'a1 \<Rightarrow> marshall option) \<Rightarrow>
   (marshall \<Rightarrow> 'a2 \<Rightarrow> marshall option) \<Rightarrow>
   (marshall \<Rightarrow> 'a3 \<Rightarrow> marshall option) \<Rightarrow>
   (marshall \<Rightarrow> 'a4 \<Rightarrow> marshall option) \<Rightarrow>
   (marshall \<Rightarrow> 'a5 \<Rightarrow> marshall option) \<Rightarrow>
   'a1 \<Rightarrow> 'a2 \<Rightarrow> 'a3 \<Rightarrow> 'a4 \<Rightarrow> 'a5 \<Rightarrow> marshall option" where
  "call_req5 put1 put2 put3 put4 put5 a1 a2 a3 a4 a5 = do {
     m \<leftarrow> put1 marshall_new a1;
     m \<leftarrow> put2 m a2;
     m \<leftarrow> put3 m a3;
     m \<leftarrow> put4 m a4;
     put5 m a5
   }"

definition call_req6 ::
  "(marshall \<Rightarrow> 'a1 \<Rightarrow> marshall option) \<Rightarrow>
   (marshall \<Rightarrow> 'a2 \<Rightarrow> marshall option) \<Rightarrow>
   (marshall \<Rightarrow> 'a3 \<Rightarrow> marshall option) \<Rightarrow>
   (marshall \<Rightarrow> 'a4 \<Rightarrow> marshall option) \<Rightarrow>
   (marshall \<Rightarrow> 'a5 \<Rightarrow> marshall option) \<Rightarrow>
   (marshall \<Rightarrow> 'a6 \<Rightarrow> marshall option) \<Rightarrow>
   'a1 \<Rightarrow> 'a2 \<Rightarrow> 'a3 \<Rightarrow> 'a4 \<Rightarrow> 'a5 \<Rightarrow> 'a6 \<Rightarrow> marshall option" where
  "call_req6 put1 put2 put3 put4 put5 put6 a1 a2 a3 a4 a5 a6 = do {
     m \<leftarrow> put1 marshall_new a1;
     m \<leftarrow> put2 m a2;
     m \<leftarrow> put3 m a3;
     m \<leftarrow> put4 m a4;
     m \<leftarrow> put5 m a5;
     put6 m a6
   }"

definition call_req7 ::
  "(marshall \<Rightarrow> 'a1 \<Rightarrow> marshall option) \<Rightarrow>
   (marshall \<Rightarrow> 'a2 \<Rightarrow> marshall option) \<Rightarrow>
   (marshall \<Rightarrow> 'a3 \<Rightarrow> marshall option) \<Rightarrow>
   (marshall \<Rightarrow> 'a4 \<Rightarrow> marshall option) \<Rightarrow>
   (marshall \<Rightarrow> 'a5 \<Rightarrow> marshall option) \<Rightarrow>
   (marshall \<Rightarrow> 'a6 \<Rightarrow> marshall option) \<Rightarrow>
   (marshall \<Rightarrow> 'a7 \<Rightarrow> marshall option) \<Rightarrow>
   'a1 \<Rightarrow> 'a2 \<Rightarrow> 'a3 \<Rightarrow> 'a4 \<Rightarrow> 'a5 \<Rightarrow> 'a6 \<Rightarrow> 'a7 \<Rightarrow> marshall option" where
  "call_req7 put1 put2 put3 put4 put5 put6 put7 a1 a2 a3 a4 a5 a6 a7 = do {
     m \<leftarrow> put1 marshall_new a1;
     m \<leftarrow> put2 m a2;
     m \<leftarrow> put3 m a3;
     m \<leftarrow> put4 m a4;
     m \<leftarrow> put5 m a5;
     m \<leftarrow> put6 m a6;
     put7 m a7
   }"

section \<open>Every template is the one-argument template on a tuple\<close>

lemma handler2_tuple:
  "handler2 get1 get2 put r0 meth =
   handler1 (get_pair get1 get2) put r0 (\<lambda>(a1, a2). meth a1 a2)"
  by (simp add: fun_eq_iff handler2_def handler1_def get_pair_def Option.bind_assoc split_def cong: if_cong)

lemma handler3_tuple:
  "handler3 get1 get2 get3 put r0 meth =
   handler1 (get_pair get1 (get_pair get2 get3)) put r0 (\<lambda>(a1, a2, a3). meth a1 a2 a3)"
  by (simp add: fun_eq_iff handler3_def handler1_def get_pair_def Option.bind_assoc split_def cong: if_cong)

lemma handler4_tuple:
  "handler4 get1 get2 get3 get4 put r0 meth =
   handler1 (get_pair get1 (get_pair get2 (get_pair get3 get4))) put r0 (\<lambda>(a1, a2, a3, a4). meth a1 a2 a3 a4)"
  by (simp add: fun_eq_iff handler4_def handler1_def get_pair_def Option.bind_assoc split_def cong: if_cong)

lemma handler5_tuple:
  "handler5 get1 get2 get3 get4 get5 put r0 meth =
   handler1 (get_pair get1 (get_pair get2 (get_pair get3 (get_pair get4 get5)))) put r0 (\<lambda>(a1, a2, a3, a4, a5). meth a1 a2 a3 a4 a5)"
  by (simp add: fun_eq_iff handler5_def handler1_def get_pair_def Option.bind_assoc split_def cong: if_cong)

lemma handler6_tuple:
  "handler6 get1 get2 get3 get4 get5 get6 put r0 meth =
   handler1 (get_pair get1 (get_pair get2 (get_pair get3 (get_pair get4 (get_pair get5 get6))))) put r0 (\<lambda>(a1, a2, a3, a4, a5, a6). meth a1 a2 a3 a4 a5 a6)"
  by (simp add: fun_eq_iff handler6_def handler1_def get_pair_def Option.bind_assoc split_def cong: if_cong)

lemma handler7_tuple:
  "handler7 get1 get2 get3 get4 get5 get6 get7 put r0 meth =
   handler1 (get_pair get1 (get_pair get2 (get_pair get3 (get_pair get4 (get_pair get5 (get_pair get6 get7)))))) put r0 (\<lambda>(a1, a2, a3, a4, a5, a6, a7). meth a1 a2 a3 a4 a5 a6 a7)"
  by (simp add: fun_eq_iff handler7_def handler1_def get_pair_def Option.bind_assoc split_def cong: if_cong)

lemma call_req2_tuple:
  "call_req2 put1 put2 a1 a2 =
   call_req1 (put_pair put1 put2) (a1, a2)"
  by (simp add: call_req2_def call_req1_def put_pair_def)

lemma call_req3_tuple:
  "call_req3 put1 put2 put3 a1 a2 a3 =
   call_req1 (put_pair put1 (put_pair put2 put3)) (a1, a2, a3)"
  by (simp add: call_req3_def call_req1_def put_pair_def)

lemma call_req4_tuple:
  "call_req4 put1 put2 put3 put4 a1 a2 a3 a4 =
   call_req1 (put_pair put1 (put_pair put2 (put_pair put3 put4))) (a1, a2, a3, a4)"
  by (simp add: call_req4_def call_req1_def put_pair_def)

lemma call_req5_tuple:
  "call_req5 put1 put2 put3 put4 put5 a1 a2 a3 a4 a5 =
   call_req1 (put_pair put1 (put_pair put2 (put_pair put3 (put_pair put4 put5)))) (a1, a2, a3, a4, a5)"
  by (simp add: call_req5_def call_req1_def put_pair_def)

lemma call_req6_tuple:
  "call_req6 put1 put2 put3 put4 put5 put6 a1 a2 a3 a4 a5 a6 =
   call_req1 (put_pair put1 (put_pair put2 (put_pair put3 (put_pair put4 (put_pair put5 put6))))) (a1, a2, a3, a4, a5, a6)"
  by (simp add: call_req6_def call_req1_def put_pair_def)

lemma call_req7_tuple:
  "call_req7 put1 put2 put3 put4 put5 put6 put7 a1 a2 a3 a4 a5 a6 a7 =
   call_req1 (put_pair put1 (put_pair put2 (put_pair put3 (put_pair put4 (put_pair put5 (put_pair put6 put7)))))) (a1, a2, a3, a4, a5, a6, a7)"
  by (simp add: call_req7_def call_req1_def put_pair_def)

lemmas handler_tuple = handler2_tuple handler3_tuple handler4_tuple handler5_tuple handler6_tuple handler7_tuple

lemmas call_req_tuple =
  call_req2_tuple call_req3_tuple call_req4_tuple call_req5_tuple call_req6_tuple call_req7_tuple

end
