(* ===== verification/Net.thy ===== *)
theory Net
  imports RpcStubs
begin

text \<open>
  A client and a server joined by a connection that delivers every PDU once: the instance of
  \<open>rpcc::call1\<close> on which the application stubs of the later theories are interpreted. The
  bytes a sender left indeterminate arrive as zeros. \<open>net_ready n w\<close> is the invariant under
  which the next \<open>n\<close> calls go through: the client is bound, to this server, its transaction
  counter has \<open>n\<close> ids left before it wraps around, the connection is alive, and the server
  has seen no id that the client has not issued yet. \<open>linked\<close> is the same without the binding,
  which \<open>net_bind\<close>, the instance of \<open>rpcc::bind\<close>, establishes. What the users of the RPC layer
  need of such a connection is the contract \<open>transport\<close>.
\<close>

record 's net =
  nt_clt :: rpcc
  nt_srv :: "'s rpcs"
  nt_conn :: cid

definition fill :: "cells \<Rightarrow> bytes" where
  "fill cs = map (\<lambda>c. case c of None \<Rightarrow> 0 | Some b \<Rightarrow> b) cs"

lemma wire_of_fill: "wire_of cs (fill cs)"
  by (auto simp: wire_of_def fill_def list_all2_conv_all_nth split: option.splits)

definition net_call :: "u32 \<Rightarrow> marshall \<Rightarrow> 's net \<Rightarrow> ((u32 \<times> unmarshall) \<times> 's net) option" where
  "net_call proc req w = do {
     (st, c) \<leftarrow> call1_enter (nt_clt w) proc req;
     (case st of
        Call_refused e \<Rightarrow> Some ((e, unmarshall_new), w\<lparr>nt_clt := c\<rparr>)
      | Call_sent xid m \<Rightarrow> do {
          s \<leftarrow> c_incref (nt_srv w) (nt_conn w);
          s \<leftarrow> dispatch s (nt_conn w) (fill (m_contents m)) (length (fill (m_contents m)));
          c \<leftarrow> (if rs_outbox s = rs_outbox (nt_srv w) then Some c
               else let b = fill (snd (last (rs_outbox s))) in got_pdu c b (length b));
          (ret, c) \<leftarrow> call1_leave c xid;
          Some (ret, w\<lparr>nt_clt := c, nt_srv := s\<rparr>)
        })
   }"

definition linked :: "nat \<Rightarrow> rpcc \<Rightarrow> 's rpcs \<Rightarrow> cid \<Rightarrow> bool" where
  "linked n c s k \<longleftrightarrow>
     (\<exists>A. client_inv A c) \<and> unat (rc_xid c) + n < 4294967296 \<and> rc_srv_nonce c \<in> {0, rs_nonce s} \<and>
     (\<exists>kn. rs_heap s k = Some kn \<and> \<not> c_dead kn \<and> 1 \<le> c_refno kn) \<and>
     (rc_clt_nonce c \<noteq> 0 \<longrightarrow> rs_conns s (rc_clt_nonce c) \<in> {None, Some (Some k)} \<and>
        (\<forall>x \<in> win_xids (rs_reply_window s) (rc_clt_nonce c). x < rc_xid c))"

definition net_ready :: "nat \<Rightarrow> 's net \<Rightarrow> bool" where
  "net_ready n w \<longleftrightarrow> linked n (nt_clt w) (nt_srv w) (nt_conn w) \<and> rc_bind_done (nt_clt w)"

lemma c_incref_ok:
  "rs_heap s k = Some kn \<Longrightarrow>
   c_incref s k = Some (s\<lparr>rs_heap := (rs_heap s)(k \<mapsto> kn\<lparr>c_refno := c_refno kn + 1\<rparr>)\<rparr>)"
  by (simp add: c_incref_def incref_def)

lemma unat_Suc_u32: "unat (x :: u32) + 1 < 4294967296 \<Longrightarrow> unat (x + 1) = unat x + 1 \<and> x \<noteq> - 1"
proof -
  assume *: "unat x + 1 < 4294967296"
  then have "x + 1 = of_nat (unat x + 1)" by simp
  then have "unat (x + 1) = unat x + 1" using * by (simp only: unat_of_nat_lt)
  moreover from this have "x \<noteq> - 1" by auto
  ultimately show ?thesis by simp
qed

text \<open>A linked pair can do a call, once the PDU of the request has taken its reference.\<close>

lemma linked_call_ready:
  assumes "linked (Suc n) c s k" and "may_call c proc"
  obtains A s1 kn where "c_incref s k = Some s1" and "call_ready A c s1 k proc"
    and "s1 = s\<lparr>rs_heap := (rs_heap s)(k \<mapsto> kn\<lparr>c_refno := c_refno kn + 1\<rparr>)\<rparr>"
    and "rs_heap s k = Some kn" and "1 \<le> c_refno kn"
proof -
  from assms obtain A kn where A: "client_inv A c" and kn: "rs_heap s k = Some kn" "\<not> c_dead kn" "1 \<le> c_refno kn"
    by (auto simp: linked_def)
  let ?s = "s\<lparr>rs_heap := (rs_heap s)(k \<mapsto> kn\<lparr>c_refno := c_refno kn + 1\<rparr>)\<rparr>"
  have "rc_xid c \<noteq> - 1" using unat_Suc_u32 [of "rc_xid c"] assms by (simp add: linked_def)
  moreover have "accepts ?s k (next_header c proc)"
    using assms(1) kn by (auto simp: accepts_def linked_def next_header_def replaceable_def)
  ultimately have "call_ready A c ?s k proc" using A assms(2) by (simp add: call_ready_def)
  then show ?thesis using that c_incref_ok [OF kn(1)] kn by blast
qed

lemma linked_next:
  assumes l: "linked (Suc n) c s k" and kn: "rs_heap s k = Some kn" "1 \<le> c_refno kn"
    and s1: "s1 = s\<lparr>rs_heap := (rs_heap s)(k \<mapsto> kn\<lparr>c_refno := c_refno kn + 1\<rparr>)\<rparr>"
    and kept: "call_kept c s1 k c' s'"
  shows "linked n c' s' k"
proof -
  have x: "unat (rc_xid c + 1) = unat (rc_xid c) + 1" "rc_xid c \<noteq> - 1"
    using unat_Suc_u32 [of "rc_xid c"] l by (simp_all add: linked_def)
  have "\<forall>x \<in> win_xids (rs_reply_window s') (rc_clt_nonce c). x < rc_xid c + 1" if "rc_clt_nonce c \<noteq> 0"
  proof
    fix y assume "y \<in> win_xids (rs_reply_window s') (rc_clt_nonce c)"
    then have "y = rc_xid c \<or> y \<in> win_xids (rs_reply_window s) (rc_clt_nonce c)"
      using kept that by (auto simp: call_kept_def served_def s1)
    then have "y \<le> rc_xid c" using l that by (auto simp: linked_def less_imp_le)
    then show "y < rc_xid c + 1" using x(2) by (rule u32_less_Suc)
  qed
  then show ?thesis
    using l kept x(1) kn by (auto simp: linked_def call_kept_def served_def same_client_def s1)
qed

lemma net_call_yields:
  assumes l: "linked (Suc n) (nt_clt w) (nt_srv w) (nt_conn w)" and proc: "may_call (nt_clt w) proc"
    and yields: "\<And>A s1. call_ready A (nt_clt w) s1 (nt_conn w) proc \<Longrightarrow>
        rs_procs s1 = rs_procs (nt_srv w) \<Longrightarrow> rs_app s1 = rs_app (nt_srv w) \<Longrightarrow>
        call_yields (nt_clt w) s1 (nt_conn w) proc req get r1 res app'"
  shows "\<exists>ret w'. net_call proc req w = Some (ret, w') \<and> call_m_result get r1 ret = Some res \<and>
    rs_app (nt_srv w') = app' \<and> linked n (nt_clt w') (nt_srv w') (nt_conn w') \<and>
    rc_bind_done (nt_clt w') = rc_bind_done (nt_clt w) \<and> rs_nonce (nt_srv w') = rs_nonce (nt_srv w) \<and>
    rs_procs (nt_srv w') = rs_procs (nt_srv w)"
proof -
  let ?c = "nt_clt w" and ?k = "nt_conn w"
  obtain A s1 kn where s1: "c_incref (nt_srv w) ?k = Some s1" "call_ready A ?c s1 ?k proc"
    "s1 = (nt_srv w)\<lparr>rs_heap := (rs_heap (nt_srv w))(?k \<mapsto> kn\<lparr>c_refno := c_refno kn + 1\<rparr>)\<rparr>"
    "rs_heap (nt_srv w) ?k = Some kn" "1 \<le> c_refno kn"
    using l proc by (rule linked_call_ready)
  have "call_yields ?c s1 ?k proc req get r1 res app'"
    by (rule yields [OF s1(2)]) (simp_all add: s1(3))
  then obtain m c1 where m: "call1_enter ?c proc req = Some (Call_sent (rc_xid ?c) m, c1)"
    and step: "\<And>bs. wire_of (m_contents m) bs \<Longrightarrow>
         (\<exists>s' rep. dispatch s1 ?k bs (length bs) = Some s' \<and> rs_app s' = app' \<and>
            rs_outbox s' = rs_outbox s1 @ [(?k, rep)] \<and>
            (\<forall>rb. wire_of rep rb \<longrightarrow>
              (\<exists>c2 c3 ret. got_pdu c1 rb (length rb) = Some c2 \<and>
                 call1_leave c2 (rc_xid ?c) = Some (ret, c3) \<and>
                 rc_calls c3 = (rc_calls ?c)(rc_xid ?c := None) \<and>
                 call_m_result get r1 ret = Some res \<and> call_kept ?c s1 ?k c3 s')))"
    unfolding call_yields_def by blast
  from step [OF wire_of_fill] obtain s' rep
    where s': "dispatch s1 ?k (fill (m_contents m)) (length (fill (m_contents m))) = Some s'"
      "rs_app s' = app'" "rs_outbox s' = rs_outbox s1 @ [(?k, rep)]"
      and rest: "\<forall>rb. wire_of rep rb \<longrightarrow>
              (\<exists>c2 c3 ret. got_pdu c1 rb (length rb) = Some c2 \<and>
                 call1_leave c2 (rc_xid ?c) = Some (ret, c3) \<and>
                 rc_calls c3 = (rc_calls ?c)(rc_xid ?c := None) \<and>
                 call_m_result get r1 ret = Some res \<and> call_kept ?c s1 ?k c3 s')" by blast
  from rest wire_of_fill [of rep] obtain c2 c3 ret
    where c3: "got_pdu c1 (fill rep) (length (fill rep)) = Some c2"
      "call1_leave c2 (rc_xid ?c) = Some (ret, c3)" "call_m_result get r1 ret = Some res"
      "call_kept ?c s1 ?k c3 s'" by blast
  have "linked n c3 s' ?k" using l s1(4,5,3) c3(4) by (rule linked_next)
  moreover have "rs_procs s' = rs_procs (nt_srv w)" "rc_bind_done c3 = rc_bind_done ?c"
    "rs_nonce s' = rs_nonce (nt_srv w)"
    using c3(4) s1(3) by (simp_all add: call_kept_def served_def same_client_def)
  ultimately show ?thesis
    using m s1(1,3) s' c3 by (simp add: net_call_def Let_def)
qed

section \<open>What carries a call\<close>

text \<open>
  The contract between the RPC layer and its users, on the level of bytes: \<open>call1\<close> takes a request to the server \<open>srv\<close> in
  the world \<open>'w\<close>, whose handler runs once, and brings its code and its result back. \<open>ready n\<close> is good for \<open>n\<close> calls.
\<close>

locale transport =
  fixes call1 :: "u32 \<Rightarrow> marshall \<Rightarrow> 'w \<Rightarrow> ((u32 \<times> unmarshall) \<times> 'w) option"
    and srv :: "'w \<Rightarrow> 's rpcs"
    and ready :: "nat \<Rightarrow> 'w \<Rightarrow> bool"
  assumes serves: "ready (Suc n) w \<Longrightarrow> proc \<noteq> rpc_bind \<Longrightarrow> rs_procs (srv w) proc = Some f \<Longrightarrow>
    marsh_wf req \<Longrightarrow> m_contents req = replicate 24 None @ map Some abody \<Longrightarrow> length abody + 24 < MARSH_LIMIT \<Longrightarrow>
    (\<And>u. unm_wf u \<Longrightarrow> u_ok u \<Longrightarrow> u_rest u = abody \<Longrightarrow> u_ind u \<le> u_sz u \<Longrightarrow>
      \<exists>rep. f u marshall_new (rs_app (srv w)) = Some (ret, rep, app') \<and> marsh_wf rep \<and>
        m_contents rep = replicate 24 None @ map Some body) \<Longrightarrow>
    0 \<le> sint ret \<Longrightarrow> length body + 24 < MARSH_LIMIT \<Longrightarrow>
    \<exists>u w'. call1 proc req w = Some ((ret, u), w') \<and> ready n w' \<and> rs_app (srv w') = app' \<and>
      rs_procs (srv w') = rs_procs (srv w) \<and> unm_wf u \<and> u_ok u \<and> u_rest u = body \<and> u_ind u + length body = u_sz u"

text \<open>The network of this theory keeps it: a result variable that tells whether the reply is the expected one.\<close>

interpretation tnet: transport net_call nt_srv net_ready
proof
  fix n :: nat and w :: "'s net" and proc ret :: u32 and f :: "'s handler" and req abody app' body
  let ?P = "\<lambda>u. unm_wf u \<and> u_ok u \<and> u_rest u = body \<and> u_ind u + length body = u_sz u"
  let ?get = "\<lambda>u. Some (?P u, u\<lparr>u_ind := u_sz u\<rparr>)"
  assume rdy: "net_ready (Suc n) w" and proc: "proc \<noteq> rpc_bind" "rs_procs (nt_srv w) proc = Some f"
    and req: "marsh_wf req" "m_contents req = replicate 24 None @ map Some abody" "length abody + 24 < MARSH_LIMIT"
    and run: "\<And>u. unm_wf u \<Longrightarrow> u_ok u \<Longrightarrow> u_rest u = abody \<Longrightarrow> u_ind u \<le> u_sz u \<Longrightarrow>
      \<exists>rep. f u marshall_new (rs_app (nt_srv w)) = Some (ret, rep, app') \<and> marsh_wf rep \<and>
        m_contents rep = replicate 24 None @ map Some body"
    and ret: "0 \<le> sint ret" and body: "length body + 24 < MARSH_LIMIT"
  have l: "linked (Suc n) (nt_clt w) (nt_srv w) (nt_conn w)" "may_call (nt_clt w) proc"
    using rdy proc(1) by (simp_all add: net_ready_def may_call_def)
  have y: "call_yields (nt_clt w) s1 (nt_conn w) proc req ?get False (ret, True) app'"
    if "call_ready A (nt_clt w) s1 (nt_conn w) proc" "rs_procs s1 = rs_procs (nt_srv w)" "rs_app s1 = rs_app (nt_srv w)" for A s1
    by (rule call_yieldsI [OF that(1) _ req _ _ body])
      (use proc(2) that run ret in \<open>auto simp: call_m_result_def okdone_def\<close>)
  obtain res w' where w': "net_call proc req w = Some (res, w')"
    "call_m_result ?get False res = Some (ret, True)" "rs_app (nt_srv w') = app'" "linked n (nt_clt w') (nt_srv w') (nt_conn w')"
    "rc_bind_done (nt_clt w') = rc_bind_done (nt_clt w)" "rs_procs (nt_srv w') = rs_procs (nt_srv w)"
    using net_call_yields [OF l, of req ?get False "(ret, True)" app'] y by blast
  from w'(2) obtain u where "res = (ret, u)" "?P u"
    using ret by (cases res) (auto simp: call_m_result_def split: if_splits)
  then show "\<exists>u w'. net_call proc req w = Some ((ret, u), w') \<and> net_ready n w' \<and> rs_app (nt_srv w') = app' \<and>
      rs_procs (nt_srv w') = rs_procs (nt_srv w) \<and> unm_wf u \<and> u_ok u \<and> u_rest u = body \<and> u_ind u + length body = u_sz u"
    using w' rdy by (auto simp: net_ready_def)
qed

text \<open>A method called over such a connection does what the local call does.\<close>

context rpc_method
begin

lemma net_call_linked:
  assumes l: "linked (Suc n) (nt_clt w) (nt_srv w) (nt_conn w)" and proc: "may_call (nt_clt w) proc"
    and h: "rs_procs (nt_srv w) proc = Some (handler1 geta putr r0 meth)"
    and a: "valida a" "length (enca a) + 24 < MARSH_LIMIT"
    and local: "meth a r0 (rs_app (nt_srv w)) = Some (b, r, app')" "0 \<le> sint b"
    and r: "validr r" "length (encr r) + 24 < MARSH_LIMIT"
  shows "\<exists>req ret w'. call_req1 puta a = Some req \<and> net_call proc req w = Some (ret, w') \<and>
    call_m_result getr r1 ret = Some (b, r) \<and> rs_app (nt_srv w') = app' \<and>
    linked n (nt_clt w') (nt_srv w') (nt_conn w') \<and> rc_bind_done (nt_clt w') = rc_bind_done (nt_clt w) \<and>
    rs_nonce (nt_srv w') = rs_nonce (nt_srv w) \<and> rs_procs (nt_srv w') = rs_procs (nt_srv w)"
proof -
  obtain req where req: "call_req1 puta a = Some req" using a by (rule request_built)
  have "call_yields (nt_clt w) s1 (nt_conn w) proc req getr r1 (b, r) app'"
    if "call_ready A (nt_clt w) s1 (nt_conn w) proc" "rs_procs s1 = rs_procs (nt_srv w)"
      "rs_app s1 = rs_app (nt_srv w)" for A s1
    using rpc_transparent [OF that(1), of a b r app' r1] that(2,3) h a local r req by simp
  from net_call_yields [OF l proc this] req show ?thesis by auto
qed

lemma transport_method:
  assumes tr: "transport call1 srv ready" and rdy: "ready (Suc n) w" and proc: "proc \<noteq> rpc_bind"
    and h: "rs_procs (srv w) proc = Some (handler1 geta putr r0 meth)"
    and a: "valida a" "length (enca a) + 24 < MARSH_LIMIT"
    and local: "meth a r0 (rs_app (srv w)) = Some (b, r, app')" "0 \<le> sint b"
    and r: "validr r" "length (encr r) + 24 < MARSH_LIMIT"
  shows "\<exists>req ret w'. call_req1 puta a = Some req \<and> call1 proc req w = Some (ret, w') \<and>
    call_m_result getr r1 ret = Some (b, r) \<and> rs_app (srv w') = app' \<and> ready n w' \<and>
    rs_procs (srv w') = rs_procs (srv w)"
proof -
  obtain req where req: "call_req1 puta a = Some req" "marsh_wf req"
    "m_contents req = replicate 24 None @ map Some (enca a)" using a by (rule request_built)
  from transport.serves [OF tr rdy proc h req(2,3) a(2) handler_answers [OF a(1) local(1) r] local(2) r(2)] obtain u w' where
    w': "call1 proc req w = Some ((b, u), w')" "ready n w'" "rs_app (srv w') = app'" "rs_procs (srv w') = rs_procs (srv w)"
    and u: "unm_wf u" "u_ok u" "u_rest u = encr r" "u_ind u + length (encr r) = u_sz u" by blast
  have "call_m_result getr r1 (b, u) = Some (b, r)" using r(1) local(2) u by (rule result_decoded)
  then show ?thesis using req(1) w' by blast
qed

lemmas net_call_method = transport_method [OF tnet.transport_axioms]

end

section \<open>Binding\<close>

text \<open>\<open>rpcc::bind\<close>: a call of \<open>rpc_const::bind\<close> and the update of the client. \<open>r1\<close> is the
  uninitialised \<open>int r\<close>.\<close>

definition net_bind :: "u32 \<Rightarrow> 's net \<Rightarrow> (u32 \<times> 's net) option" where
  "net_bind r1 w = do {
     req \<leftarrow> call_req1 marshall_int 0;
     (res, w) \<leftarrow> net_call rpc_bind req w;
     ret \<leftarrow> call_m_result unmarshall_int r1 res;
     let (r, c) = bind_finish (nt_clt w) ret;
     Some (r, w\<lparr>nt_clt := c\<rparr>)
   }"

interpretation m_bind: rpc_method marshall_int unmarshall_int be32 "\<lambda>_. True"
  marshall_int unmarshall_int be32 "\<lambda>_. True" "rpcbind nonce" r0 for nonce r0
  by unfold_locales

lemma net_bind_ok:
  assumes "linked (Suc n) (nt_clt w) (nt_srv w) (nt_conn w)" and "\<not> rc_bind_done (nt_clt w)"
    and "rs_procs (nt_srv w) rpc_bind = Some (handler1 unmarshall_int marshall_int r0 (rpcbind (rs_nonce (nt_srv w))))"
  shows "\<exists>w'. net_bind r1 w = Some (0, w') \<and> net_ready n w' \<and>
    rc_srv_nonce (nt_clt w') = rs_nonce (nt_srv w) \<and> rs_app (nt_srv w') = rs_app (nt_srv w) \<and>
    rs_procs (nt_srv w') = rs_procs (nt_srv w)"
proof -
  let ?s = "nt_srv w"
  obtain req ret w' where w': "call_req1 marshall_int 0 = Some req" "net_call rpc_bind req w = Some (ret, w')"
    "call_m_result unmarshall_int r1 ret = Some (0, rs_nonce ?s)" "rs_app (nt_srv w') = rs_app ?s"
    "linked n (nt_clt w') (nt_srv w') (nt_conn w')" "rs_nonce (nt_srv w') = rs_nonce ?s"
    "rs_procs (nt_srv w') = rs_procs ?s"
    using m_bind.net_call_linked [of n w rpc_bind r0 "rs_nonce ?s" 0 0 "rs_nonce ?s" "rs_app ?s" r1] assms
    by (auto simp: may_call_def rpcbind_def)
  have "linked n ((nt_clt w')\<lparr>rc_bind_done := True, rc_srv_nonce := rs_nonce ?s\<rparr>) (nt_srv w') (nt_conn w')"
    using w'(5,6) by (auto simp: linked_def client_inv_def)
  then show ?thesis
    using w' by (auto simp: net_bind_def bind_finish_def net_ready_def)
qed

lemma linked_new:
  assumes "rs_heap s k = Some kn" and "\<not> c_dead kn" and "1 \<le> c_refno kn"
    and "rs_reply_window s = Map.empty" and "rs_conns s = Map.empty"
  shows "linked 4294967294 (rpcc_new retrans rnd lossy) s k"
proof -
  have "client_inv {} (rpcc_new retrans rnd lossy)" by (rule client_inv_new)
  then show ?thesis using assms by (auto simp: linked_def rpcc_new_def win_xids_def)
qed

text \<open>A new client binds to a server that has just been started, over its first connection.\<close>

definition net_new :: "u32 \<Rightarrow> u32 \<Rightarrow> cid \<Rightarrow> connection \<Rightarrow> 's rpcs \<Rightarrow> 's net" where
  "net_new clt_rnd lossy k kn s =
     \<lparr>nt_clt = rpcc_new True clt_rnd lossy, nt_srv = s\<lparr>rs_heap := [k \<mapsto> kn]\<rparr>, nt_conn = k\<rparr>"

lemma net_started:
  assumes "\<not> c_dead kn" and "1 \<le> c_refno kn" and "rs_reply_window s = Map.empty" and "rs_conns s = Map.empty"
    and "rs_procs s rpc_bind = Some (handler1 unmarshall_int marshall_int r0 (rpcbind (rs_nonce s)))"
  shows "\<exists>w'. net_bind r1 (net_new clt_rnd lossy k kn s) = Some (0, w') \<and> net_ready 4294967293 w' \<and>
    rs_app (nt_srv w') = rs_app s \<and> rs_procs (nt_srv w') = rs_procs s"
proof -
  let ?w = "net_new clt_rnd lossy k kn s"
  have "linked 4294967294 (nt_clt ?w) (nt_srv ?w) (nt_conn ?w)"
    using linked_new [of "nt_srv ?w" k kn] assms by (simp add: net_new_def)
  then have "linked (Suc 4294967293) (nt_clt ?w) (nt_srv ?w) (nt_conn ?w)" by (simp only: Suc_numeral) simp
  moreover have "\<not> rc_bind_done (nt_clt ?w)" by (simp add: rpcc_new_def net_new_def)
  ultimately show ?thesis using net_bind_ok [of 4294967293 ?w r0 r1] assms(5) by (auto simp: net_new_def)
qed

end
