(* ===== verification/Locks.thy ===== *)
theory Locks
  imports Net
begin

text \<open>
  The lock service: \<open>lock_server.cc\<close>, \<open>lock_smain.cc\<close>, \<open>lock_client.cc\<close> and
  \<open>lock_protocol.h\<close>.

  The server keeps one \<open>pthread_mutex_t\<close> per lock id. A mutex is its state, locked or not: it
  is locked by the dispatch thread of an \<open>acquire\<close> and unlocked by that of a \<open>release\<close>, so no
  owner is recorded. Every method is split at its critical sections, and the step relation
  \<open>lstep\<close> interleaves the dispatch threads. Unlocking a mutex that is not locked is undefined.

  The invariant counts, per lock, the grants that exist (returned to a client, about to be
  returned, or about to be given back): exactly one when the mutex is locked. Mutual
  exclusion, the meaning of \<open>nacquire\<close> and the safety of every unlock follow from it.
\<close>

section \<open>The server\<close>

type_synonym lockid_t = u64

abbreviation (input) lock_OK :: u32 where "lock_OK \<equiv> 0"
abbreviation (input) lock_acquire :: u32 where "lock_acquire \<equiv> 0x7001"
abbreviation (input) lock_release :: u32 where "lock_release \<equiv> 0x7002"
abbreviation (input) lock_stat :: u32 where "lock_stat \<equiv> 0x7004"

record lock_server =
  ls_nacquire :: u32
  ls_locks :: "lockid_t \<rightharpoonup> bool"

definition lock_server_new :: lock_server where
  "lock_server_new = \<lparr>ls_nacquire = 0, ls_locks = Map.empty\<rparr>"

text \<open>\<open>acquire\<close>, first section (under \<open>_m\<close>): make the mutex of a new lock.\<close>

definition acquire_init :: "lockid_t \<Rightarrow> lock_server \<Rightarrow> lock_server" where
  "acquire_init lid s =
     (if ls_locks s lid = None then s\<lparr>ls_locks := (ls_locks s)(lid \<mapsto> False)\<rparr> else s)"

text \<open>\<open>acquire\<close>, second section: \<open>pthread_mutex_lock(&_locks_m[lid])\<close>, which waits while the
  mutex is locked. \<open>_locks_m[lid]\<close> inserts an unlocked mutex when there is none.\<close>

definition lock_free :: "lockid_t \<Rightarrow> lock_server \<Rightarrow> bool" where
  "lock_free lid s \<longleftrightarrow> ls_locks s lid \<noteq> Some True"

definition acquire_lock :: "lockid_t \<Rightarrow> lock_server \<Rightarrow> lock_server" where
  "acquire_lock lid s = s\<lparr>ls_locks := (ls_locks s)(lid \<mapsto> True)\<rparr>"

text \<open>\<open>acquire\<close>, third section (under \<open>_m\<close>).\<close>

definition acquire_count :: "lock_server \<Rightarrow> lock_server" where
  "acquire_count s = s\<lparr>ls_nacquire := ls_nacquire s + 1\<rparr>"

text \<open>\<open>release\<close>, first section: \<open>pthread_mutex_unlock(&_locks_m[lid])\<close>.\<close>

definition release_unlock :: "lockid_t \<Rightarrow> lock_server \<Rightarrow> lock_server option" where
  "release_unlock lid s =
     (if ls_locks s lid = Some True then Some (s\<lparr>ls_locks := (ls_locks s)(lid \<mapsto> False)\<rparr>) else None)"

text \<open>\<open>release\<close>, second section (under \<open>_m\<close>).\<close>

definition release_count :: "lock_server \<Rightarrow> lock_server" where
  "release_count s = s\<lparr>ls_nacquire := ls_nacquire s - 1\<rparr>"

text \<open>The methods run alone. \<open>r\<close> is the result parameter, which \<open>acquire\<close> and \<open>release\<close> leave
  as it is. An \<open>acquire\<close> of a locked mutex does not return when nothing else runs: \<open>None\<close>.\<close>

definition lock_server_stat :: "u32 \<Rightarrow> lockid_t \<Rightarrow> u32 \<Rightarrow> lock_server \<Rightarrow> (u32 \<times> u32 \<times> lock_server) option" where
  "lock_server_stat clt lid r s = Some (lock_OK, ls_nacquire s, s)"

definition lock_server_acquire :: "u32 \<Rightarrow> lockid_t \<Rightarrow> u32 \<Rightarrow> lock_server \<Rightarrow> (u32 \<times> u32 \<times> lock_server) option" where
  "lock_server_acquire clt lid r s =
     (let s = acquire_init lid s in
      if lock_free lid s then Some (lock_OK, r, acquire_count (acquire_lock lid s)) else None)"

definition lock_server_release :: "u32 \<Rightarrow> lockid_t \<Rightarrow> u32 \<Rightarrow> lock_server \<Rightarrow> (u32 \<times> u32 \<times> lock_server) option" where
  "lock_server_release clt lid r s = do {
     s \<leftarrow> release_unlock lid s;
     Some (lock_OK, r, release_count s)
   }"

abbreviation h_lock ::
  "(u32 \<Rightarrow> lockid_t \<Rightarrow> u32 \<Rightarrow> lock_server \<Rightarrow> (u32 \<times> u32 \<times> lock_server) option) \<Rightarrow> u32 \<Rightarrow> lock_server handler" where
  "h_lock meth ri \<equiv> handler2 unmarshall_int unmarshall_ulonglong marshall_int ri meth"

definition lock_smain :: "u32 \<Rightarrow> u32 \<Rightarrow> lock_server rpcs option" where
  "lock_smain rnd ri = do {
     s \<leftarrow> rpcs_new rnd 0 lock_server_new;
     s \<leftarrow> reg1 s lock_stat (h_lock lock_server_stat ri);
     s \<leftarrow> reg1 s lock_acquire (h_lock lock_server_acquire ri);
     reg1 s lock_release (h_lock lock_server_release ri)
   }"

section \<open>The client\<close>

text \<open>The stubs: \<open>r1\<close> is the uninitialised \<open>int r\<close>, \<open>clt\<close> is \<open>cl->id()\<close>. A return code other
  than \<open>OK\<close> fails the assertion.\<close>

definition lock_client_call ::
  "(u32 \<Rightarrow> marshall \<Rightarrow> 'w \<Rightarrow> ((u32 \<times> unmarshall) \<times> 'w) option) \<Rightarrow> u32 \<Rightarrow> u32 \<Rightarrow> u32 \<Rightarrow> lockid_t \<Rightarrow> 'w \<Rightarrow>
   (u32 \<times> 'w) option" where
  "lock_client_call call1 proc r1 clt lid w = do {
     m \<leftarrow> call_req2 marshall_uint marshall_ulonglong clt lid;
     (res, w) \<leftarrow> call1 proc m w;
     (ret, r) \<leftarrow> call_m_result unmarshall_int r1 res;
     if ret = lock_OK then Some (r, w) else None
   }"

definition lock_client_stat where
  "lock_client_stat call1 = lock_client_call call1 lock_stat"

definition lock_client_acquire where
  "lock_client_acquire call1 = lock_client_call call1 lock_acquire"

definition lock_client_release where
  "lock_client_release call1 = lock_client_call call1 lock_release"

section \<open>Interleaving\<close>

text \<open>The dispatch threads of the server, each between two sections of its method.\<close>

datatype lock_job =
    Acq_enter u32 lockid_t | Acq_wait u32 lockid_t | Acq_locked u32 lockid_t
  | Rel_enter u32 lockid_t | Rel_unlocked u32 lockid_t

record lock_config =
  lc_srv :: lock_server
  lc_jobs :: "lock_job list"
  lc_held :: "(u32 \<times> lockid_t) list"

definition lock_init :: lock_config where
  "lock_init = \<lparr>lc_srv = lock_server_new, lc_jobs = [], lc_held = []\<rparr>"

text \<open>The pool of \<open>rpcs\<close> has ten threads. A client releases only what it holds.\<close>

abbreviation POOL :: nat where
  "POOL \<equiv> 10"

inductive lstep :: "lock_config \<Rightarrow> lock_config \<Rightarrow> bool" where
  call_acquire: "length (lc_jobs g) < POOL \<Longrightarrow> lstep g (g\<lparr>lc_jobs := Acq_enter clt lid # lc_jobs g\<rparr>)"
| call_release: "length (lc_jobs g) < POOL \<Longrightarrow> lc_held g = hs @ (clt, lid) # hs' \<Longrightarrow>
    lstep g (g\<lparr>lc_jobs := Rel_enter clt lid # lc_jobs g, lc_held := hs @ hs'\<rparr>)"
| init: "lc_jobs g = xs @ Acq_enter clt lid # ys \<Longrightarrow>
    lstep g (g\<lparr>lc_srv := acquire_init lid (lc_srv g), lc_jobs := xs @ Acq_wait clt lid # ys\<rparr>)"
| lock: "lc_jobs g = xs @ Acq_wait clt lid # ys \<Longrightarrow> lock_free lid (lc_srv g) \<Longrightarrow>
    lstep g (g\<lparr>lc_srv := acquire_lock lid (lc_srv g), lc_jobs := xs @ Acq_locked clt lid # ys\<rparr>)"
| granted: "lc_jobs g = xs @ Acq_locked clt lid # ys \<Longrightarrow>
    lstep g (g\<lparr>lc_srv := acquire_count (lc_srv g), lc_jobs := xs @ ys, lc_held := (clt, lid) # lc_held g\<rparr>)"
| unlock: "lc_jobs g = xs @ Rel_enter clt lid # ys \<Longrightarrow> release_unlock lid (lc_srv g) = Some s \<Longrightarrow>
    lstep g (g\<lparr>lc_srv := s, lc_jobs := xs @ Rel_unlocked clt lid # ys\<rparr>)"
| released: "lc_jobs g = xs @ Rel_unlocked clt lid # ys \<Longrightarrow>
    lstep g (g\<lparr>lc_srv := release_count (lc_srv g), lc_jobs := xs @ ys\<rparr>)"

inductive lreach :: "lock_config \<Rightarrow> bool" where
  start: "lreach lock_init"
| step: "lreach g \<Longrightarrow> lstep g g' \<Longrightarrow> lreach g'"

section \<open>The invariant\<close>

fun grants :: "lockid_t \<Rightarrow> lock_job \<Rightarrow> bool" where
  "grants l (Acq_locked clt lid) \<longleftrightarrow> lid = l"
| "grants l (Rel_enter clt lid) \<longleftrightarrow> lid = l"
| "grants l _ \<longleftrightarrow> False"

fun releasing :: "lock_job \<Rightarrow> bool" where
  "releasing (Rel_enter clt lid) \<longleftrightarrow> True"
| "releasing (Rel_unlocked clt lid) \<longleftrightarrow> True"
| "releasing _ \<longleftrightarrow> False"

definition grant_count :: "lockid_t \<Rightarrow> lock_config \<Rightarrow> nat" where
  "grant_count l g = length (filter (\<lambda>(c, lid). lid = l) (lc_held g)) + length (filter (grants l) (lc_jobs g))"

definition counted :: "lock_config \<Rightarrow> nat" where
  "counted g = length (lc_held g) + length (filter releasing (lc_jobs g))"

definition grant_ok :: "lockid_t \<Rightarrow> lock_config \<Rightarrow> bool" where
  "grant_ok l g \<longleftrightarrow> grant_count l g = of_bool (ls_locks (lc_srv g) l = Some True)"

definition count_ok :: "lock_config \<Rightarrow> bool" where
  "count_ok g \<longleftrightarrow> ls_nacquire (lc_srv g) = of_nat (counted g)"

lemmas lock_op_defs = acquire_init_def acquire_lock_def acquire_count_def release_unlock_def release_count_def
  lock_free_def

lemma lock_inv_init: "grant_ok l lock_init" "count_ok lock_init"
  by (simp_all add: grant_ok_def count_ok_def lock_init_def lock_server_new_def grant_count_def counted_def)

lemma grant_ok_step: "lstep g g' \<Longrightarrow> grant_ok l g \<Longrightarrow> grant_ok l g'"
proof (induction rule: lstep.induct)
  case (lock g xs clt lid ys)
  then show ?case by (cases "l = lid") (auto simp: grant_ok_def grant_count_def lock_op_defs)
next
  case (unlock g xs clt lid ys s)
  then show ?case by (cases "l = lid") (auto simp: grant_ok_def grant_count_def lock_op_defs split: if_splits)
qed (auto simp: grant_ok_def grant_count_def lock_op_defs)

lemma count_ok_step: "lstep g g' \<Longrightarrow> count_ok g \<Longrightarrow> count_ok g'"
  by (induction rule: lstep.induct) (auto simp: count_ok_def counted_def lock_op_defs split: if_splits)

lemma lreach_grant_ok: "lreach g \<Longrightarrow> grant_ok l g"
  by (induction rule: lreach.induct) (auto intro: lock_inv_init grant_ok_step)

lemma lreach_count_ok: "lreach g \<Longrightarrow> count_ok g"
  by (induction rule: lreach.induct) (auto intro: lock_inv_init count_ok_step)

section \<open>Properties\<close>


text \<open>One client takes a lock.\<close>

definition one_holder :: lock_config where
  "one_holder = \<lparr>lc_srv = acquire_count (acquire_lock 7 (acquire_init 7 lock_server_new)), lc_jobs = [],
     lc_held = [(1, 7)]\<rparr>"

lemma acquire_run:
  assumes "lreach g" and "length (lc_jobs g) < POOL" and "lock_free lid (acquire_init lid (lc_srv g))"
  shows "lreach (g\<lparr>lc_srv := acquire_count (acquire_lock lid (acquire_init lid (lc_srv g))),
    lc_held := (clt, lid) # lc_held g\<rparr>)"
proof -
  let ?g1 = "g\<lparr>lc_jobs := Acq_enter clt lid # lc_jobs g\<rparr>"
  let ?g2 = "?g1\<lparr>lc_srv := acquire_init lid (lc_srv ?g1), lc_jobs := [] @ Acq_wait clt lid # lc_jobs g\<rparr>"
  let ?g3 = "?g2\<lparr>lc_srv := acquire_lock lid (lc_srv ?g2), lc_jobs := [] @ Acq_locked clt lid # lc_jobs g\<rparr>"
  let ?g4 = "?g3\<lparr>lc_srv := acquire_count (lc_srv ?g3), lc_jobs := [] @ lc_jobs g,
    lc_held := (clt, lid) # lc_held ?g3\<rparr>"
  have "lstep g ?g1" using assms(2) by (rule lstep.call_acquire)
  with assms(1) have 1: "lreach ?g1" by (rule lreach.step)
  have "lstep ?g1 ?g2" by (rule lstep.init) simp
  with 1 have 2: "lreach ?g2" by (rule lreach.step)
  have "lstep ?g2 ?g3" by (rule lstep.lock) (use assms(3) in simp_all)
  with 2 have 3: "lreach ?g3" by (rule lreach.step)
  have "lstep ?g3 ?g4" by (rule lstep.granted) simp
  with 3 have "lreach ?g4" by (rule lreach.step)
  then show ?thesis by simp
qed

lemma one_holder_reachable: "lreach one_holder"
proof -
  have "lreach (lock_init\<lparr>lc_srv := acquire_count (acquire_lock 7 (acquire_init 7 (lc_srv lock_init))),
    lc_held := (1, 7) # lc_held lock_init\<rparr>)"
    by (rule acquire_run [OF lreach.start])
      (simp_all add: lock_init_def lock_free_def acquire_init_def lock_server_new_def)
  then show ?thesis by (simp add: one_holder_def lock_init_def)
qed


text \<open>
  A release never unlocks a mutex that is not locked, whatever the interleaving: the
  thread of a \<open>release\<close> can always pass its first section.
\<close>

lemma release_never_undefined:
  assumes "lreach g" and "lc_jobs g = xs @ Rel_enter clt lid # ys"
  shows "\<exists>s. release_unlock lid (lc_srv g) = Some s \<and> ls_locks s lid = Some False"
  using lreach_grant_ok [OF assms(1), of lid] assms(2)
  by (auto simp: grant_ok_def grant_count_def release_unlock_def of_bool_def split: if_splits)

lemma releasing_reachable: "lreach (one_holder\<lparr>lc_jobs := [Rel_enter 1 7], lc_held := []\<rparr>)"
proof -
  have "lstep one_holder (one_holder\<lparr>lc_jobs := Rel_enter 1 7 # lc_jobs one_holder, lc_held := [] @ []\<rparr>)"
    by (rule lstep.call_release) (simp_all add: one_holder_def)
  with one_holder_reachable show ?thesis by (auto simp: one_holder_def intro: lreach.step)
qed

text \<open>
  \<open>nacquire\<close>, which \<open>stat\<close> returns, counts the grants held by clients and those being
  released (modulo \<open>2 ^ 32\<close>); with no request under way it is the number of locks held.
\<close>

lemma nacquire_counts:
  assumes "lreach g"
  shows "ls_nacquire (lc_srv g) = of_nat (length (lc_held g) + length (filter releasing (lc_jobs g)))"
  using lreach_count_ok [OF assms] by (simp add: count_ok_def counted_def)

inductive_cases lstepE: "lstep g g'"

lemma replicate_split: "replicate n a = xs @ b # ys \<Longrightarrow> b = a"
  by (metis in_set_replicate in_set_conv_decomp)

lemma wait_run:
  assumes "lreach g" and "length (lc_jobs g) < POOL"
  shows "lreach (g\<lparr>lc_srv := acquire_init lid (lc_srv g), lc_jobs := Acq_wait clt lid # lc_jobs g\<rparr>)"
proof -
  let ?g1 = "g\<lparr>lc_jobs := Acq_enter clt lid # lc_jobs g\<rparr>"
  have "lstep g ?g1" using assms(2) by (rule lstep.call_acquire)
  with assms(1) have 1: "lreach ?g1" by (rule lreach.step)
  have "lstep ?g1 (?g1\<lparr>lc_srv := acquire_init lid (lc_srv ?g1), lc_jobs := [] @ Acq_wait clt lid # lc_jobs g\<rparr>)"
    by (rule lstep.init) simp
  with 1 have "lreach (?g1\<lparr>lc_srv := acquire_init lid (lc_srv ?g1), lc_jobs := [] @ Acq_wait clt lid # lc_jobs g\<rparr>)"
    by (rule lreach.step)
  then show ?thesis by simp
qed

lemma waiters_reachable: "n \<le> POOL \<Longrightarrow> lreach (one_holder\<lparr>lc_jobs := replicate n (Acq_wait 2 7)\<rparr>)"
proof (induction n)
  case 0
  then show ?case using one_holder_reachable by (simp add: one_holder_def)
next
  case (Suc n)
  then have "lreach (one_holder\<lparr>lc_jobs := replicate n (Acq_wait 2 7)\<rparr>)" by simp
  from wait_run [OF this, where clt = 2 and lid = 7] Suc.prems show ?case
    by (simp add: one_holder_def acquire_init_def acquire_lock_def acquire_count_def lock_server_new_def)
qed

text \<open>
  C30: The pool can be exhausted: a configuration is reachable in which a client holds a lock,
  ten threads wait for it, and no step at all is possible; the \<open>release\<close> that would free the
  lock finds no thread to run in.
\<close>

theorem lock_pool_exhaustion:
  "\<exists>g. lreach g \<and> lc_held g = [(1, 7)] \<and> (\<nexists>g'. lstep g g')"
proof (intro exI conjI)
  let ?g = "one_holder\<lparr>lc_jobs := replicate POOL (Acq_wait 2 7)\<rparr>"
  show "lreach ?g" by (rule waiters_reachable) simp
  show "lc_held ?g = [(1, 7)]" by (simp add: one_holder_def)
  have locked: "\<not> lock_free 7 (lc_srv ?g)"
    by (simp add: one_holder_def lock_free_def acquire_lock_def acquire_count_def)
  have jobs: "b = Acq_wait 2 7" if "lc_jobs ?g = xs @ b # ys" for xs b ys
    using that replicate_split [of POOL "Acq_wait 2 7" xs b ys] by simp
  show "\<nexists>g'. lstep ?g g'"
  proof
    assume "\<exists>g'. lstep ?g g'"
    then obtain g' where "lstep ?g g'" by blast
    then show False using jobs locked by (cases rule: lstepE) (fastforce | simp)+
  qed
qed

section \<open>The stubs over the RPC layer\<close>

interpretation c_clt: codec marshall_uint unmarshall_int be32 "\<lambda>_. True"
  by unfold_locales (simp_all add: put_ok_uint get_ok_uint get_frame_base)

interpretation c_lockarg: codec_pair marshall_uint unmarshall_int be32 "\<lambda>_. True"
  marshall_ulonglong unmarshall_ulonglong be64 "\<lambda>_. True"
  by unfold_locales

interpretation m_lock: rpc_method "put_pair marshall_uint marshall_ulonglong"
  "get_pair unmarshall_int unmarshall_ulonglong" "enc_pair be32 be64" "\<lambda>ab. True \<and> True"
  marshall_int unmarshall_int be32 "\<lambda>_. True" "\<lambda>(clt, lid). meth clt lid" ri for meth ri
  by unfold_locales

definition lock_ready :: "nat \<Rightarrow> u32 \<Rightarrow> lock_server net \<Rightarrow> bool" where
  "lock_ready n ri w \<longleftrightarrow> net_ready n w \<and>
     rs_procs (nt_srv w) lock_stat = Some (h_lock lock_server_stat ri) \<and>
     rs_procs (nt_srv w) lock_acquire = Some (h_lock lock_server_acquire ri) \<and>
     rs_procs (nt_srv w) lock_release = Some (h_lock lock_server_release ri)"

abbreviation net_locks :: "lock_server net \<Rightarrow> lock_server" where
  "net_locks w \<equiv> rs_app (nt_srv w)"

lemma lock_client_call_ok:
  assumes rdy: "lock_ready (Suc n) ri w" and proc: "proc \<noteq> rpc_bind"
    and h: "rs_procs (nt_srv w) proc = Some (h_lock meth ri)"
    and local: "meth clt lid ri (net_locks w) = Some (lock_OK, r, s')"
  shows "\<exists>w'. lock_client_call net_call proc r1 clt lid w = Some (r, w') \<and> net_locks w' = s' \<and> lock_ready n ri w'"
proof -
  from m_lock.net_call_method [of n w proc ri meth "(clt, lid)" lock_OK r s' r1] rdy proc h local
  obtain req ret w' where "call_req2 marshall_uint marshall_ulonglong clt lid = Some req"
      "net_call proc req w = Some (ret, w')" "call_m_result unmarshall_int r1 ret = Some (lock_OK, r)"
      "net_locks w' = s'" "net_ready n w'" "rs_procs (nt_srv w') = rs_procs (nt_srv w)"
    by (auto simp: lock_ready_def handler_tuple call_req_tuple)
  with rdy show ?thesis by (simp add: lock_client_call_def lock_ready_def)
qed

lemma lock_stat_over_rpc:
  assumes "lock_ready (Suc n) ri w"
  shows "\<exists>w'. lock_client_stat net_call r1 clt lid w = Some (ls_nacquire (net_locks w), w') \<and>
    net_locks w' = net_locks w \<and> lock_ready n ri w'"
  using lock_client_call_ok [OF assms, of lock_stat lock_server_stat clt lid _ _ r1] assms
  by (auto simp: lock_client_stat_def lock_server_stat_def lock_ready_def)

text \<open>
  C31: The stubs reach the server: \<open>acquire\<close> of a free lock locks it, \<open>release\<close> of a locked one
  unlocks it, \<open>stat\<close> returns the counter. But \<open>acquire\<close> and \<open>release\<close> return to their caller
  not the status of the call but \<open>ri\<close>, whatever the server's uninitialised result variable
  happened to hold.
\<close>

theorem lock_client_over_rpc:
  assumes "lock_ready (Suc n) ri w"
  shows "(\<exists>w'. lock_client_stat net_call r1 clt lid w = Some (ls_nacquire (net_locks w), w') \<and>
      net_locks w' = net_locks w \<and> lock_ready n ri w') \<and>
    (ls_locks (net_locks w) lid \<noteq> Some True \<longrightarrow>
      (\<exists>w'. lock_client_acquire net_call r1 clt lid w = Some (ri, w') \<and>
        ls_locks (net_locks w') = (ls_locks (net_locks w))(lid \<mapsto> True) \<and>
        ls_nacquire (net_locks w') = ls_nacquire (net_locks w) + 1 \<and> lock_ready n ri w')) \<and>
    (ls_locks (net_locks w) lid = Some True \<longrightarrow>
      (\<exists>w'. lock_client_release net_call r1 clt lid w = Some (ri, w') \<and>
        ls_locks (net_locks w') = (ls_locks (net_locks w))(lid \<mapsto> False) \<and>
        ls_nacquire (net_locks w') = ls_nacquire (net_locks w) - 1 \<and> lock_ready n ri w'))"
proof (intro conjI impI)
  show "\<exists>w'. lock_client_stat net_call r1 clt lid w = Some (ls_nacquire (net_locks w), w') \<and>
      net_locks w' = net_locks w \<and> lock_ready n ri w'"
    using assms by (rule lock_stat_over_rpc)
next
  assume "ls_locks (net_locks w) lid \<noteq> Some True"
  moreover define s' where "s' = acquire_count (acquire_lock lid (acquire_init lid (net_locks w)))"
  ultimately have s': "lock_server_acquire clt lid ri (net_locks w) = Some (lock_OK, ri, s')"
    "ls_locks s' = (ls_locks (net_locks w))(lid \<mapsto> True)" "ls_nacquire s' = ls_nacquire (net_locks w) + 1"
    by (auto simp: lock_server_acquire_def lock_op_defs Let_def)
  then show "\<exists>w'. lock_client_acquire net_call r1 clt lid w = Some (ri, w') \<and>
        ls_locks (net_locks w') = (ls_locks (net_locks w))(lid \<mapsto> True) \<and>
        ls_nacquire (net_locks w') = ls_nacquire (net_locks w) + 1 \<and> lock_ready n ri w'"
    using lock_client_call_ok [OF assms, of lock_acquire lock_server_acquire clt lid ri s' r1] assms
    by (auto simp: lock_client_acquire_def lock_ready_def)
next
  assume "ls_locks (net_locks w) lid = Some True"
  then show "\<exists>w'. lock_client_release net_call r1 clt lid w = Some (ri, w') \<and>
        ls_locks (net_locks w') = (ls_locks (net_locks w))(lid \<mapsto> False) \<and>
        ls_nacquire (net_locks w') = ls_nacquire (net_locks w) - 1 \<and> lock_ready n ri w'"
    using lock_client_call_ok [OF assms, of lock_release lock_server_release clt lid _ _ r1] assms
    by (auto simp: lock_client_release_def lock_server_release_def lock_ready_def lock_op_defs)
qed

text \<open>A freshly started lock server with one accepted connection, and a new client, which then binds
  as the constructor \<open>lock_client::lock_client\<close> does.\<close>

definition lock_boot :: "u32 \<Rightarrow> u32 \<Rightarrow> u32 \<Rightarrow> u32 \<Rightarrow> cid \<Rightarrow> connection \<Rightarrow> lock_server net option" where
  "lock_boot srv_rnd ri clt_rnd lossy k kn = do {
     s \<leftarrow> lock_smain srv_rnd ri;
     Some (net_new clt_rnd lossy k kn s)
   }"

definition lock_client_new :: "u32 \<Rightarrow> lock_server net \<Rightarrow> lock_server net option" where
  "lock_client_new r1 w = do { (ret, w) \<leftarrow> net_bind r1 w; Some w }"

lemma lock_started:
  assumes "\<not> c_dead kn" and "1 \<le> c_refno kn"
  shows "\<exists>w w'. lock_boot srv_rnd ri clt_rnd lossy k kn = Some w \<and> lock_client_new r1 w = Some w' \<and>
    lock_ready 4294967293 ri w' \<and> net_locks w' = lock_server_new"
proof -
  obtain s where s: "lock_smain srv_rnd ri = Some s" "rs_nonce s = srv_rnd" "rs_reply_window s = Map.empty"
     "rs_conns s = Map.empty" "rs_app s = lock_server_new"
     "rs_procs s = [rpc_bind \<mapsto> handler1 unmarshall_int marshall_int 0 (rpcbind srv_rnd),
       lock_stat \<mapsto> h_lock lock_server_stat ri, lock_acquire \<mapsto> h_lock lock_server_acquire ri,
       lock_release \<mapsto> h_lock lock_server_release ri]"
    by (simp add: lock_smain_def rpcs_new_def reg1_def)
  from net_started [OF assms s(3,4), of 0 r1 clt_rnd lossy k] s obtain w' where
    "net_bind r1 (net_new clt_rnd lossy k kn s) = Some (0, w')" "net_ready 4294967293 w'"
    "net_locks w' = rs_app s" "rs_procs (nt_srv w') = rs_procs s" by auto
  then show ?thesis using s by (auto simp: lock_boot_def lock_client_new_def lock_ready_def)
qed

lemma sample_lock_ready: "\<exists>w. lock_ready 4294967293 ri w \<and> net_locks w = lock_server_new"
  using lock_started [of "fst (connection_new 3 0)" 9 ri 5 0 0 0] by (auto simp: connection_new_def)

theorem lock_client_over_rpc_witness:
  "\<exists>w w'. net_locks w = lock_server_new \<and> lock_client_acquire net_call 0 5 7 w = Some (42, w') \<and>
     ls_locks (net_locks w') 7 = Some True"
proof -
  obtain w where w: "lock_ready 4294967293 42 w" "net_locks w = lock_server_new" using sample_lock_ready by blast
  then have "lock_ready (Suc 4294967292) 42 w" by (simp only: Suc_numeral) simp
  from lock_client_over_rpc [OF this, of 0 5 7, THEN conjunct2, THEN conjunct1] w(2) obtain w'
    where "lock_client_acquire net_call 0 5 7 w = Some (42, w')" "ls_locks (net_locks w') = [7 \<mapsto> True]"
    by (auto simp: lock_server_new_def)
  with w(2) show ?thesis by auto
qed

end
