(* ===== verification/LockTester.thy ===== *)
theory LockTester
  imports Locks
begin

text \<open>
  The programs that use the lock service: \<open>lock_tester.cc\<close> and \<open>lock_demo.cc\<close>.

  Each thread of the tester is the list of the calls and checks that it still has to make (\<open>tester_op\<close>),
  or is blocked in a call that a dispatch thread of the server executes (\<open>Serving\<close>, with the sections of
  \<open>Locks\<close>). \<open>thread_turn\<close> is the next action of one thread; the step relation interleaves the threads.
  A call needs a thread of the server's pool. The calls reach the server once each, as \<open>System\<close> and
  \<open>AtMostOnce\<close> show of the RPC layer; messages to the terminal and \<open>sleep\<close> have no effect here.

  The invariant counts, per lock, the threads that own it and the threads that have counted it in
  \<open>ct\<close>. From it: no check of the tester fails, no interleaving is stuck, and every run ends.
\<close>

section \<open>The checks\<close>

text \<open>\<open>ct[256]\<close>, indexed by the first byte of the lock id. \<open>None\<close> is \<open>exit(1)\<close>.\<close>

type_synonym counts = "int list"

definition ct_index :: "lockid_t \<Rightarrow> nat" where
  "ct_index lid = unat (and lid 0xFF)"

definition check_grant :: "lockid_t \<Rightarrow> counts \<Rightarrow> counts option" where
  "check_grant lid ct =
     (let x = ct_index lid in if ct ! x \<noteq> 0 then None else Some (ct[x := ct ! x + 1]))"

definition check_release :: "lockid_t \<Rightarrow> counts \<Rightarrow> counts option" where
  "check_release lid ct =
     (let x = ct_index lid in if ct ! x \<noteq> 1 then None else Some (ct[x := ct ! x - 1]))"

section \<open>The tests\<close>

datatype tester_op =
    Acquire nat lockid_t | Release nat lockid_t | Check_grant lockid_t | Check_release lockid_t

abbreviation (input) lock_a :: lockid_t where "lock_a \<equiv> 1"
abbreviation (input) lock_b :: lockid_t where "lock_b \<equiv> 2"
abbreviation (input) lock_c :: lockid_t where "lock_c \<equiv> 3"

definition nt :: nat where
  "nt = 10"

definition test1 :: "tester_op list" where
  "test1 =
     [Acquire 0 lock_a, Check_grant lock_a, Release 0 lock_a, Check_release lock_a,
      Acquire 0 lock_a, Check_grant lock_a, Release 0 lock_a, Check_release lock_a,
      Acquire 0 lock_a, Check_grant lock_a, Acquire 0 lock_b, Check_grant lock_b,
      Release 0 lock_b, Check_release lock_b, Release 0 lock_a, Check_release lock_a]"

definition test2 :: "nat \<Rightarrow> tester_op list" where
  "test2 i = [Acquire i lock_a, Check_grant lock_a, Check_release lock_a, Release i lock_a]"

text \<open>The body of the loops: acquire, check, check, release, by the client \<open>k\<close>.\<close>

definition tester_round :: "nat \<Rightarrow> tester_op list" where
  "tester_round k = [Acquire k lock_a, Check_grant lock_a, Check_release lock_a, Release k lock_a]"

definition test3 :: "nat \<Rightarrow> tester_op list" where
  "test3 i = concat (replicate 10 (tester_round i))"

definition test4 :: "nat \<Rightarrow> tester_op list" where
  "test4 i = concat (replicate 10 (tester_round 0))"

definition test5 :: "nat \<Rightarrow> tester_op list" where
  "test5 i = concat (replicate 10 (if i < 5 then tester_round 0 else tester_round 1))"

text \<open>\<open>main\<close>: the tests to run, each with the threads it starts; \<open>arg2\<close> is \<open>atoi(argv[2])\<close>. \<open>None\<close> is
  \<open>exit(1)\<close>. The next test starts when the threads of the one before have been joined.\<close>

definition lock_tester_main :: "nat \<Rightarrow> int \<Rightarrow> tester_op list list list option" where
  "lock_tester_main argc arg2 =
     (if argc < 2 then None
      else if argc > 2 \<and> (arg2 < 1 \<or> arg2 > 5) then None
      else let test = (if argc > 2 then arg2 else 0) in
        Some ((if test = 0 \<or> test = 1 then [[test1]] else []) @
              (if test = 0 \<or> test = 2 then [map test2 [0..<nt]] else []) @
              (if test = 0 \<or> test = 3 then [map test3 [0..<nt]] else []) @
              (if test = 0 \<or> test = 4 then [map test4 [0..<2]] else []) @
              (if test = 0 \<or> test = 5 then [map test5 [0..<nt]] else [])))"

section \<open>The threads\<close>

datatype tester_thread = Ready "tester_op list" | Serving lock_job "tester_op list"

datatype turn = Next lock_server counts tester_thread | Waits | Exits | Undefined | Finished

text \<open>The next action of a thread. \<open>lc i\<close> is the id of the client \<open>lc[i]\<close>.\<close>

fun thread_turn :: "(nat \<Rightarrow> u32) \<Rightarrow> tester_thread \<Rightarrow> lock_server \<Rightarrow> counts \<Rightarrow> turn" where
  "thread_turn lc (Ready []) s ct = Finished"
| "thread_turn lc (Ready (Acquire i lid # ops)) s ct = Next s ct (Serving (Acq_enter (lc i) lid) ops)"
| "thread_turn lc (Ready (Release i lid # ops)) s ct = Next s ct (Serving (Rel_enter (lc i) lid) ops)"
| "thread_turn lc (Ready (Check_grant lid # ops)) s ct =
     (case check_grant lid ct of None \<Rightarrow> Exits | Some ct' \<Rightarrow> Next s ct' (Ready ops))"
| "thread_turn lc (Ready (Check_release lid # ops)) s ct =
     (case check_release lid ct of None \<Rightarrow> Exits | Some ct' \<Rightarrow> Next s ct' (Ready ops))"
| "thread_turn lc (Serving (Acq_enter clt lid) ops) s ct = Next (acquire_init lid s) ct (Serving (Acq_wait clt lid) ops)"
| "thread_turn lc (Serving (Acq_wait clt lid) ops) s ct =
     (if lock_free lid s then Next (acquire_lock lid s) ct (Serving (Acq_locked clt lid) ops) else Waits)"
| "thread_turn lc (Serving (Acq_locked clt lid) ops) s ct = Next (acquire_count s) ct (Ready ops)"
| "thread_turn lc (Serving (Rel_enter clt lid) ops) s ct =
     (case release_unlock lid s of None \<Rightarrow> Undefined | Some s' \<Rightarrow> Next s' ct (Serving (Rel_unlocked clt lid) ops))"
| "thread_turn lc (Serving (Rel_unlocked clt lid) ops) s ct = Next (release_count s) ct (Ready ops)"

fun serving :: "tester_thread \<Rightarrow> bool" where
  "serving (Serving j ops) \<longleftrightarrow> True"
| "serving (Ready ops) \<longleftrightarrow> False"

record tester =
  lt_srv :: lock_server
  lt_ct :: counts
  lt_thr :: "tester_thread list"
  lt_rest :: "tester_op list list list"
  lt_exit :: bool

definition tester_init :: "tester_op list list list \<Rightarrow> tester" where
  "tester_init ps = \<lparr>lt_srv = lock_server_new, lt_ct = replicate 256 0, lt_thr = [], lt_rest = ps, lt_exit = False\<rparr>"

text \<open>A thread in a call, or about to make one, needs a thread of the pool; \<open>in_pool\<close> counts those in use.\<close>

definition in_pool :: "tester \<Rightarrow> nat" where
  "in_pool g = length (filter serving (lt_thr g))"

definition finished :: "tester \<Rightarrow> bool" where
  "finished g \<longleftrightarrow> (\<forall>t\<in>set (lt_thr g). t = Ready [])"

inductive tester_step :: "(nat \<Rightarrow> u32) \<Rightarrow> tester \<Rightarrow> tester \<Rightarrow> bool" for lc where
  turn: "\<not> lt_exit g \<Longrightarrow> lt_thr g = xs @ t # ys \<Longrightarrow> thread_turn lc t (lt_srv g) (lt_ct g) = Next s ct t' \<Longrightarrow>
    serving t' \<and> \<not> serving t \<longrightarrow> in_pool g < POOL \<Longrightarrow>
    tester_step lc g (g\<lparr>lt_srv := s, lt_ct := ct, lt_thr := xs @ t' # ys\<rparr>)"
| exits: "\<not> lt_exit g \<Longrightarrow> lt_thr g = xs @ t # ys \<Longrightarrow> thread_turn lc t (lt_srv g) (lt_ct g) = Exits \<Longrightarrow>
    tester_step lc g (g\<lparr>lt_exit := True\<rparr>)"
| join: "\<not> lt_exit g \<Longrightarrow> finished g \<Longrightarrow> lt_rest g = p # ps \<Longrightarrow>
    tester_step lc g (g\<lparr>lt_thr := map Ready p, lt_rest := ps\<rparr>)"

inductive tester_run :: "(nat \<Rightarrow> u32) \<Rightarrow> nat \<Rightarrow> tester \<Rightarrow> tester \<Rightarrow> bool" for lc where
  start: "tester_run lc 0 g g"
| step: "tester_run lc n g g' \<Longrightarrow> tester_step lc g' g'' \<Longrightarrow> tester_run lc (Suc n) g g''"

text \<open>All tests have passed: the tests have been run and their threads joined.\<close>

definition passed :: "tester \<Rightarrow> bool" where
  "passed g \<longleftrightarrow> finished g \<and> lt_rest g = [] \<and> \<not> lt_exit g"

section \<open>What a thread owns\<close>

text \<open>The locks a thread owns, and those it has counted in \<open>ct\<close>, are what it still has to release,
  and still has to check the release of.\<close>

fun owns :: "tester_op list \<Rightarrow> lockid_t set" where
  "owns [] = {}"
| "owns (Acquire i lid # ops) = owns ops - {lid}"
| "owns (Release i lid # ops) = insert lid (owns ops)"
| "owns (_ # ops) = owns ops"

fun shown :: "tester_op list \<Rightarrow> lockid_t set" where
  "shown [] = {}"
| "shown (Check_grant lid # ops) = shown ops - {lid}"
| "shown (Check_release lid # ops) = insert lid (shown ops)"
| "shown (_ # ops) = shown ops"

text \<open>\<open>good\<close>: a script takes only what it does not own and gives back only what it owns, and names the
  locks of the tester, which differ in the first byte. \<open>tight\<close>: a script checks only while it
  owns the lock, and acquires only when it owns nothing.\<close>

definition tester_locks :: "lockid_t set" where
  "tester_locks = {lock_a, lock_b, lock_c}"

fun good :: "tester_op list \<Rightarrow> bool" where
  "good [] \<longleftrightarrow> True"
| "good (Acquire i lid # ops) \<longleftrightarrow> lid \<in> owns ops \<and> good ops"
| "good (Release i lid # ops) \<longleftrightarrow> lid \<notin> owns ops \<and> good ops"
| "good (Check_grant lid # ops) \<longleftrightarrow> lid \<in> tester_locks \<and> lid \<in> shown ops \<and> good ops"
| "good (Check_release lid # ops) \<longleftrightarrow> lid \<in> tester_locks \<and> lid \<notin> shown ops \<and> good ops"

fun tight :: "tester_op list \<Rightarrow> bool" where
  "tight [] \<longleftrightarrow> True"
| "tight (Acquire i lid # ops) \<longleftrightarrow> owns ops \<subseteq> {lid} \<and> shown ops = {} \<and> tight ops"
| "tight (op # ops) \<longleftrightarrow> shown (op # ops) \<subseteq> owns (op # ops) \<and> tight ops"

definition phase_ok :: "tester_op list list \<Rightarrow> bool" where
  "phase_ok p \<longleftrightarrow> length p \<le> POOL \<and>
     (\<forall>ops\<in>set p. good ops \<and> owns ops = {} \<and> shown ops = {} \<and> (length p = 1 \<or> tight ops))"

lemma tight_shown: "tight ops \<Longrightarrow> shown ops \<subseteq> owns ops"
  by (cases ops rule: tight.cases) auto

fun t_owns :: "tester_thread \<Rightarrow> lockid_t set" where
  "t_owns (Ready ops) = owns ops"
| "t_owns (Serving (Acq_enter clt lid) ops) = owns ops - {lid}"
| "t_owns (Serving (Acq_wait clt lid) ops) = owns ops - {lid}"
| "t_owns (Serving (Rel_enter clt lid) ops) = insert lid (owns ops)"
| "t_owns (Serving _ ops) = owns ops"

fun script :: "tester_thread \<Rightarrow> tester_op list" where
  "script (Ready ops) = ops"
| "script (Serving j ops) = ops"

abbreviation t_shown :: "tester_thread \<Rightarrow> lockid_t set" where
  "t_shown t \<equiv> shown (script t)"

fun job_good :: "tester_thread \<Rightarrow> bool" where
  "job_good (Serving (Rel_enter clt lid) ops) \<longleftrightarrow> lid \<notin> owns ops"
| "job_good (Serving (Rel_unlocked clt lid) ops) \<longleftrightarrow> lid \<notin> owns ops"
| "job_good (Serving (Acq_enter clt lid) ops) \<longleftrightarrow> lid \<in> owns ops"
| "job_good (Serving (Acq_wait clt lid) ops) \<longleftrightarrow> lid \<in> owns ops"
| "job_good _ \<longleftrightarrow> True"

fun acquiring :: "tester_thread \<Rightarrow> bool" where
  "acquiring (Serving (Acq_enter clt lid) ops) \<longleftrightarrow> True"
| "acquiring (Serving (Acq_wait clt lid) ops) \<longleftrightarrow> True"
| "acquiring _ \<longleftrightarrow> False"

definition t_good :: "tester_thread \<Rightarrow> bool" where
  "t_good t \<longleftrightarrow> good (script t) \<and> job_good t"

definition t_tight :: "tester_thread \<Rightarrow> bool" where
  "t_tight t \<longleftrightarrow> tight (script t) \<and> t_shown t \<subseteq> t_owns t \<and> (acquiring t \<longrightarrow> t_owns t = {})"

definition locked :: "lock_server \<Rightarrow> lockid_t \<Rightarrow> bool" where
  "locked s l \<longleftrightarrow> ls_locks s l = Some True"

lemma ct_index_inj: "l \<in> tester_locks \<Longrightarrow> l' \<in> tester_locks \<Longrightarrow> ct_index l = ct_index l' \<longleftrightarrow> l = l'"
  by (auto simp: tester_locks_def ct_index_def)

lemma ct_index_less: "ct_index l < 256"
proof -
  have "and l 0xFF \<le> 0xFF" by (rule word_and_le1)
  then have "unat (and l 0xFF) \<le> unat (0xFF :: lockid_t)" by (simp only: word_le_nat_alt)
  then show ?thesis by (simp add: ct_index_def)
qed

lemma ct_update:
  assumes "length ct = 256" and "l \<in> tester_locks" and "l' \<in> tester_locks"
  shows "ct[ct_index l := v] ! ct_index l' = (if l = l' then v else ct ! ct_index l')"
  using assms ct_index_less [of l] by (simp add: nth_list_update ct_index_inj)

lemma check_grant_Some: "check_grant l ct = Some ct' \<longleftrightarrow> ct ! ct_index l = 0 \<and> ct' = ct[ct_index l := 1]"
  by (auto simp: check_grant_def Let_def)

lemma check_release_Some: "check_release l ct = Some ct' \<longleftrightarrow> ct ! ct_index l = 1 \<and> ct' = ct[ct_index l := 0]"
  by (auto simp: check_release_def Let_def)

text \<open>One turn: the shape of the thread is kept, and what the thread owns and has counted changes with
  the mutexes and with \<open>ct\<close>.\<close>

lemma turn_good: "thread_turn lc t s ct = Next s' ct' t' \<Longrightarrow> t_good t \<Longrightarrow> t_good t'"
  by (cases "(lc, t, s, ct)" rule: thread_turn.cases) (auto simp: t_good_def split: option.splits if_splits)

lemma turn_tight: "thread_turn lc t s ct = Next s' ct' t' \<Longrightarrow> t_tight t \<Longrightarrow> t_tight t'"
  by (cases "(lc, t, s, ct)" rule: thread_turn.cases)
    (auto simp: t_tight_def dest: tight_shown [THEN subsetD] split: option.splits if_splits)

lemma turn_owns:
  "thread_turn lc t s ct = Next s' ct' t' \<Longrightarrow> t_good t \<Longrightarrow>
   of_bool (locked s' l) + of_bool (l \<in> t_owns t) = (of_bool (locked s l) + of_bool (l \<in> t_owns t') :: nat)"
  by (cases "(lc, t, s, ct)" rule: thread_turn.cases)
    (auto simp: t_good_def locked_def lock_op_defs split: option.splits if_splits)

lemma turn_ct_length: "thread_turn lc t s ct = Next s' ct' t' \<Longrightarrow> length ct' = length ct"
  by (cases "(lc, t, s, ct)" rule: thread_turn.cases)
    (auto simp: check_grant_Some check_release_Some split: option.splits if_splits)

lemma turn_shown:
  "thread_turn lc t s ct = Next s' ct' t' \<Longrightarrow> t_good t \<Longrightarrow> l \<in> tester_locks \<Longrightarrow> length ct = 256 \<Longrightarrow>
   ct' ! ct_index l + of_bool (l \<in> t_shown t) = ct ! ct_index l + of_bool (l \<in> t_shown t')"
  by (cases "(lc, t, s, ct)" rule: thread_turn.cases)
    (auto simp: t_good_def check_grant_Some check_release_Some ct_update split: option.splits if_splits)

section \<open>The invariant\<close>

definition owners :: "lockid_t \<Rightarrow> tester_thread list \<Rightarrow> nat" where
  "owners l ts = length (filter (\<lambda>t. l \<in> t_owns t) ts)"

definition showers :: "lockid_t \<Rightarrow> tester_thread list \<Rightarrow> nat" where
  "showers l ts = length (filter (\<lambda>t. l \<in> t_shown t) ts)"

definition threads_ok :: "tester_thread list \<Rightarrow> bool" where
  "threads_ok ts \<longleftrightarrow> length ts \<le> POOL \<and> (\<forall>t\<in>set ts. t_good t \<and> (length ts = 1 \<or> t_tight t))"

definition tester_inv :: "tester \<Rightarrow> bool" where
  "tester_inv g \<longleftrightarrow> threads_ok (lt_thr g) \<and> (\<forall>l. owners l (lt_thr g) = of_bool (locked (lt_srv g) l)) \<and>
     length (lt_ct g) = 256 \<and> (\<forall>l\<in>tester_locks. lt_ct g ! ct_index l = int (showers l (lt_thr g))) \<and>
     (\<forall>p\<in>set (lt_rest g). phase_ok p) \<and> \<not> lt_exit g"

lemma owners_split [simp]: "owners l (xs @ t # ys) = owners l (xs @ ys) + of_bool (l \<in> t_owns t)"
  by (simp add: owners_def)

lemma showers_split [simp]: "showers l (xs @ t # ys) = showers l (xs @ ys) + of_bool (l \<in> t_shown t)"
  by (simp add: showers_def)

lemma showers_le_owners: "\<forall>t\<in>set ts. t_tight t \<Longrightarrow> showers l ts \<le> owners l ts"
  unfolding showers_def owners_def
  by (induction ts) (auto simp: t_tight_def)

lemma threads_ok_turn:
  assumes "threads_ok (xs @ t # ys)" and "thread_turn lc t s ct = Next s' ct' t'"
  shows "threads_ok (xs @ t' # ys)"
  using assms by (auto simp: threads_ok_def dest: turn_good turn_tight)

lemma threads_ok_phase: "phase_ok p \<Longrightarrow> threads_ok (map Ready p)"
  by (auto simp: phase_ok_def threads_ok_def t_good_def t_tight_def)

lemma phase_owns_nothing: "phase_ok p \<Longrightarrow> owners l (map Ready p) = 0 \<and> showers l (map Ready p) = 0"
  by (simp add: phase_ok_def owners_def showers_def filter_empty_conv)

lemma finished_owns_nothing: "finished g \<Longrightarrow> owners l (lt_thr g) = 0 \<and> showers l (lt_thr g) = 0"
  by (auto simp: finished_def owners_def showers_def filter_empty_conv)

text \<open>A thread that checks a lock is the only one that has counted it.\<close>

lemma only_shower:
  assumes "tester_inv g" and "lt_thr g = xs @ t # ys" and "t_tight t \<Longrightarrow> l \<in> t_owns t"
  shows "showers l (xs @ ys) = 0"
proof (cases "xs @ ys = []")
  case False
  with assms(1,2) have tight: "\<forall>u\<in>set (xs @ ys). t_tight u" "t_tight t"
    by (auto simp: tester_inv_def threads_ok_def)
  have "owners l (lt_thr g) \<le> 1" using assms(1) by (simp add: tester_inv_def)
  with assms(2,3) tight(2) have "owners l (xs @ ys) = 0" by simp
  with showers_le_owners [OF tight(1), of l] show ?thesis by simp
qed (simp add: showers_def)

lemma exits_check:
  assumes "thread_turn lc t s ct = Exits" and "t_good t"
  shows "\<exists>l\<in>tester_locks. (t_tight t \<longrightarrow> l \<in> t_owns t) \<and> ct ! ct_index l \<noteq> of_bool (l \<in> t_shown t)"
  using assms
  by (cases "(lc, t, s, ct)" rule: thread_turn.cases)
    (auto simp: t_good_def t_tight_def check_grant_def check_release_def Let_def
      dest: tight_shown [THEN subsetD] split: option.splits if_splits)

lemma never_exits:
  assumes "tester_inv g" and "lt_thr g = xs @ t # ys"
  shows "thread_turn lc t (lt_srv g) (lt_ct g) \<noteq> Exits"
proof
  assume "thread_turn lc t (lt_srv g) (lt_ct g) = Exits"
  moreover have "t_good t" using assms by (auto simp: tester_inv_def threads_ok_def)
  ultimately obtain l where l: "l \<in> tester_locks" "t_tight t \<longrightarrow> l \<in> t_owns t"
      "lt_ct g ! ct_index l \<noteq> of_bool (l \<in> t_shown t)" using exits_check by blast
  have "lt_ct g ! ct_index l = int (showers l (lt_thr g))" using assms(1) l(1) by (simp add: tester_inv_def)
  with only_shower [OF assms, of l] assms(2) l show False by simp
qed

lemma never_undefined:
  assumes "tester_inv g" and "lt_thr g = xs @ t # ys"
  shows "thread_turn lc t (lt_srv g) (lt_ct g) \<noteq> Undefined"
proof
  assume "thread_turn lc t (lt_srv g) (lt_ct g) = Undefined"
  then obtain clt l ops where "t = Serving (Rel_enter clt l) ops" "release_unlock l (lt_srv g) = None"
    by (cases "(lc, t, lt_srv g, lt_ct g)" rule: thread_turn.cases) (auto split: option.splits if_splits)
  moreover have "owners l (lt_thr g) = of_bool (locked (lt_srv g) l)" using assms(1) by (simp add: tester_inv_def)
  ultimately show False using assms(2) by (auto simp: release_unlock_def locked_def split: if_splits)
qed

lemma tester_inv_turn:
  assumes inv: "tester_inv g" and thr: "lt_thr g = xs @ t # ys"
    and turn: "thread_turn lc t (lt_srv g) (lt_ct g) = Next s ct t'"
  shows "tester_inv (g\<lparr>lt_srv := s, lt_ct := ct, lt_thr := xs @ t' # ys\<rparr>)"
proof -
  have good: "t_good t" and len: "length (lt_ct g) = 256" using inv thr by (auto simp: tester_inv_def threads_ok_def)
  have "owners l (xs @ t' # ys) = of_bool (locked s l)" for l
  proof -
    have "owners l (lt_thr g) = of_bool (locked (lt_srv g) l)" using inv by (simp add: tester_inv_def)
    with turn_owns [OF turn good, of l] show ?thesis unfolding thr owners_split by linarith
  qed
  moreover have "ct ! ct_index l = int (showers l (xs @ t' # ys))" if "l \<in> tester_locks" for l
  proof -
    have "lt_ct g ! ct_index l = int (showers l (lt_thr g))" using inv that by (simp add: tester_inv_def)
    with turn_shown [OF turn good that len] show ?thesis unfolding thr showers_split of_nat_add of_nat_of_bool by linarith
  qed
  ultimately show ?thesis using inv thr turn_ct_length [OF turn] threads_ok_turn [OF _ turn]
    by (simp add: tester_inv_def)
qed

lemma tester_inv_step: "tester_step lc g g' \<Longrightarrow> tester_inv g \<Longrightarrow> tester_inv g'"
proof (induction rule: tester_step.induct)
  case (turn g xs t ys s ct t')
  then show ?case by (blast intro: tester_inv_turn)
next
  case (exits g xs t ys)
  then show ?case by (blast dest: never_exits)
next
  case (join g p ps)
  then show ?case using finished_owns_nothing [OF join(2)] phase_owns_nothing [of p]
    by (simp add: tester_inv_def threads_ok_phase)
qed

lemma tester_inv_init: "\<forall>p\<in>set ps. phase_ok p \<Longrightarrow> tester_inv (tester_init ps)"
  by (simp add: tester_inv_def tester_init_def threads_ok_def owners_def showers_def locked_def lock_server_new_def ct_index_less)

lemma tester_inv_run: "tester_run lc n g g' \<Longrightarrow> tester_inv g \<Longrightarrow> tester_inv g'"
  by (induction rule: tester_run.induct) (auto intro: tester_inv_step)

section \<open>Progress and termination\<close>

fun job_work :: "lock_job \<Rightarrow> nat" where
  "job_work (Acq_enter clt lid) = 3"
| "job_work (Acq_wait clt lid) = 2"
| "job_work (Acq_locked clt lid) = 1"
| "job_work (Rel_enter clt lid) = 2"
| "job_work (Rel_unlocked clt lid) = 1"

fun t_work :: "tester_thread \<Rightarrow> nat" where
  "t_work (Ready ops) = 4 * length ops"
| "t_work (Serving j ops) = 4 * length ops + job_work j"

definition phase_work :: "tester_op list list \<Rightarrow> nat" where
  "phase_work p = Suc (sum_list (map t_work (map Ready p)))"

definition tester_work :: "tester \<Rightarrow> nat" where
  "tester_work g = sum_list (map t_work (lt_thr g)) + sum_list (map phase_work (lt_rest g)) + of_bool (\<not> lt_exit g)"

lemma turn_work: "thread_turn lc t s ct = Next s' ct' t' \<Longrightarrow> t_work t' < t_work t"
  by (cases "(lc, t, s, ct)" rule: thread_turn.cases) (auto split: option.splits if_splits)

lemma step_work: "tester_step lc g g' \<Longrightarrow> tester_work g' < tester_work g"
  by (induction rule: tester_step.induct) (auto simp: tester_work_def phase_work_def dest!: turn_work)

lemma run_work: "tester_run lc n g g' \<Longrightarrow> n + tester_work g' \<le> tester_work g"
  by (induction rule: tester_run.induct) (auto dest!: step_work)

lemma turn_cases:
  assumes "tester_inv g" and "lt_thr g = xs @ t # ys" and "t \<noteq> Ready []"
  obtains s ct t' where "thread_turn lc t (lt_srv g) (lt_ct g) = Next s ct t'"
  | clt l ops where "t = Serving (Acq_wait clt l) ops" "locked (lt_srv g) l"
  using assms never_exits [OF assms(1,2), of lc] never_undefined [OF assms(1,2), of lc]
  by (cases "(lc, t, lt_srv g, lt_ct g)" rule: thread_turn.cases)
    (auto simp: lock_free_def locked_def split: option.splits if_splits)

text \<open>There is room in the pool for the call of a thread that is not in a call.\<close>

lemma room:
  assumes "tester_inv g" and "lt_thr g = xs @ t # ys" and "\<not> serving t"
  shows "in_pool g < POOL"
proof -
  have "in_pool g \<le> length xs + length ys" using assms(2,3) by (simp add: in_pool_def add_mono length_filter_le)
  moreover have "length (lt_thr g) \<le> POOL" using assms(1) by (simp add: tester_inv_def threads_ok_def)
  ultimately show ?thesis using assms(2) by simp
qed

lemma turn_steps:
  assumes "tester_inv g" and "lt_thr g = xs @ t # ys" and "thread_turn lc t (lt_srv g) (lt_ct g) = Next s ct t'"
  shows "\<exists>g'. tester_step lc g g'"
  using tester_step.turn [OF _ assms(2,3)] room [OF assms(1,2)] assms(1) by (auto simp: tester_inv_def)

text \<open>The owner of a lock that a thread waits for can take a step.\<close>

lemma owner_steps:
  assumes inv: "tester_inv g" and w: "Serving (Acq_wait clt l) ops \<in> set (lt_thr g)" and "locked (lt_srv g) l"
  shows "\<exists>g'. tester_step lc g g'"
proof -
  have "owners l (lt_thr g) = 1" using inv assms(3) by (simp add: tester_inv_def)
  then have "filter (\<lambda>t. l \<in> t_owns t) (lt_thr g) \<noteq> []" by (auto simp: owners_def)
  then obtain u where u: "u \<in> set (lt_thr g)" "l \<in> t_owns u" by (auto simp: filter_empty_conv)
  have "u \<noteq> Serving (Acq_wait clt l) ops" using u(2) by auto
  with w u(1) have "length (lt_thr g) \<noteq> 1" by (auto simp: length_Suc_conv)
  with inv u(1) have "t_tight u" by (auto simp: tester_inv_def threads_ok_def)
  with u(2) have nacq: "\<not> acquiring u" "u \<noteq> Ready []" by (auto simp: t_tight_def)
  from split_list [OF u(1)] obtain xs ys where thr: "lt_thr g = xs @ u # ys" by blast
  from turn_cases [OF inv thr nacq(2), of lc] nacq(1) show ?thesis by cases (use turn_steps [OF inv thr] in auto)
qed

lemma tester_progress:
  assumes inv: "tester_inv g" and "\<not> passed g"
  shows "\<exists>g'. tester_step lc g g'"
proof (cases "finished g")
  case True
  with assms show ?thesis using tester_step.join [of g] by (cases "lt_rest g") (auto simp: passed_def tester_inv_def)
next
  case False
  then obtain t where t: "t \<in> set (lt_thr g)" "t \<noteq> Ready []" by (auto simp: finished_def)
  from split_list [OF t(1)] obtain xs ys where thr: "lt_thr g = xs @ t # ys" by blast
  from turn_cases [OF inv thr t(2), of lc] show ?thesis
    by cases (use turn_steps [OF inv thr] owner_steps [OF inv] t(1) in blast)+
qed

lemma tester_run_first: "tester_run lc n g' g'' \<Longrightarrow> tester_step lc g g' \<Longrightarrow> tester_run lc (Suc n) g g''"
  by (induction rule: tester_run.induct) (auto intro: tester_run.intros)

lemma tester_ends: "tester_inv g \<Longrightarrow> \<exists>n g'. tester_run lc n g g' \<and> passed g'"
proof (induction g rule: measure_induct_rule [of tester_work])
  case (less g)
  show ?case
  proof (cases "passed g")
    case False
    with less.prems obtain g1 where g1: "tester_step lc g g1" using tester_progress by blast
    with less.IH [OF step_work [OF g1]] less.prems tester_inv_step show ?thesis by (blast intro: tester_run_first)
  qed (blast intro: tester_run.start)
qed

section \<open>The tests of the program\<close>

lemma round_owns [simp]: "owns (tester_round k @ ops) = owns ops - {lock_a}" "shown (tester_round k @ ops) = shown ops - {lock_a}"
  by (auto simp: tester_round_def)

lemma rounds_own [simp]: "owns (concat (replicate n (tester_round k))) = {}" "shown (concat (replicate n (tester_round k))) = {}"
  by (induction n) simp_all

lemma rounds_ok: "good (concat (replicate n (tester_round k))) \<and> tight (concat (replicate n (tester_round k)))"
proof (induction n)
  case (Suc n)
  then show ?case using rounds_own [of n k] by (simp add: tester_round_def tester_locks_def)
qed simp

lemma test1_ok: "good test1 \<and> owns test1 = {} \<and> shown test1 = {}"
  by (auto simp: test1_def tester_locks_def)

lemma test2_round: "test2 i = concat (replicate 1 (tester_round i))"
  by (simp add: test2_def tester_round_def)

lemma phase_rounds: "m \<le> POOL \<Longrightarrow> phase_ok (map (\<lambda>i. concat (replicate n (tester_round (f i)))) [0..<m])"
  by (auto simp: phase_ok_def rounds_ok)

lemma phases_ok:
  "phase_ok [test1]" "phase_ok (map test2 [0..<nt])" "phase_ok (map test3 [0..<nt])"
  "phase_ok (map test4 [0..<2])" "phase_ok (map test5 [0..<nt])"
proof -
  show "phase_ok [test1]" using test1_ok by (simp add: phase_ok_def)
  have 5: "test5 = (\<lambda>i. concat (replicate 10 (tester_round (if i < 5 then 0 else 1))))"
    by (rule ext) (simp add: test5_def)
  show "phase_ok (map test2 [0..<nt])" "phase_ok (map test3 [0..<nt])" "phase_ok (map test4 [0..<2])"
    "phase_ok (map test5 [0..<nt])"
    using phase_rounds [of nt 1 "\<lambda>i. i"] phase_rounds [of nt 10 "\<lambda>i. i"] phase_rounds [of 2 10 "\<lambda>i. 0"]
      phase_rounds [of nt 10 "\<lambda>i. if i < 5 then 0 else 1"]
    by (simp_all only: test2_round [abs_def] test3_def [abs_def] test4_def [abs_def] 5) (simp_all add: nt_def)
qed

lemma main_phases_ok: "lock_tester_main argc arg2 = Some ps \<Longrightarrow> p \<in> set ps \<Longrightarrow> phase_ok p"
  by (auto simp: lock_tester_main_def Let_def phases_ok split: if_splits)

section \<open>Properties\<close>

text \<open>
  C19: The lock tester passes. Whatever tests are asked for and however the threads of the tester
  and of the server interleave: no check fails and no mutex is unlocked that is not locked; until all
  tests have passed there is a step, so ten clients never exhaust the ten threads of the pool; the
  number of steps is bounded, and every run goes on to one in which all tests have passed. At the
  end every lock is free.
\<close>

theorem lock_tester_passes:
  assumes "lock_tester_main argc arg2 = Some ps" and "tester_run lc n (tester_init ps) g"
  shows "\<not> lt_exit g \<and> (\<forall>t\<in>set (lt_thr g). thread_turn lc t (lt_srv g) (lt_ct g) \<notin> {Exits, Undefined}) \<and>
    (passed g \<or> (\<exists>g'. tester_step lc g g')) \<and> n \<le> tester_work (tester_init ps) \<and>
    (\<exists>m g'. tester_run lc m g g' \<and> passed g') \<and> (passed g \<longrightarrow> (\<forall>l. lock_free l (lt_srv g)))"
proof -
  have inv: "tester_inv g"
    using tester_inv_run [OF assms(2)] tester_inv_init main_phases_ok [OF assms(1)] by blast
  have "thread_turn lc t (lt_srv g) (lt_ct g) \<notin> {Exits, Undefined}" if "t \<in> set (lt_thr g)" for t
    using split_list [OF that] never_exits [OF inv] never_undefined [OF inv] by blast
  moreover have "lock_free l (lt_srv g)" if "passed g" for l
  proof -
    have "owners l (lt_thr g) = of_bool (locked (lt_srv g) l)" using inv by (simp add: tester_inv_def)
    with that finished_owns_nothing [of g l] show ?thesis by (simp add: passed_def locked_def lock_free_def)
  qed
  moreover have "\<not> lt_exit g" using inv by (simp add: tester_inv_def)
  ultimately show ?thesis using tester_progress [OF inv, of lc] tester_ends [OF inv, of lc] run_work [OF assms(2)]
    by auto
qed

theorem lock_tester_passes_witness:
  "\<exists>m g'. tester_run of_nat m (tester_init [map test4 [0..<2]]) g' \<and> passed g' \<and> lock_free lock_a (lt_srv g')"
proof -
  have main: "lock_tester_main 3 4 = Some [map test4 [0..<2]]" by (simp add: lock_tester_main_def)
  from lock_tester_passes [OF main tester_run.start, of of_nat]
  obtain m g' where run: "tester_run of_nat m (tester_init [map test4 [0..<2]]) g'" "passed g'" by blast
  with lock_tester_passes [OF main run(1)] show ?thesis by blast
qed

section \<open>The demo\<close>

text \<open>\<open>lock_demo.cc\<close>: bind, and print \<open>stat(1)\<close>. \<open>None\<close> is \<open>exit(1)\<close>; \<open>r1\<close> and \<open>r2\<close> are the uninitialised results.\<close>

definition lock_demo_main :: "nat \<Rightarrow> u32 \<Rightarrow> u32 \<Rightarrow> lock_server net \<Rightarrow> (u32 \<times> lock_server net) option" where
  "lock_demo_main argc r1 r2 w =
     (if argc \<noteq> 2 then None
      else do {
        w \<leftarrow> lock_client_new r1 w;
        lock_client_stat net_call r2 (rc_clt_nonce (nt_clt w)) 1 w
      })"

text \<open>Against a fresh server the demo prints 0.\<close>

lemma lock_demo_prints_zero:
  assumes "\<not> c_dead kn" and "1 \<le> c_refno kn"
  shows "\<exists>w w'. lock_boot srv_rnd ri clt_rnd lossy k kn = Some w \<and> lock_demo_main 2 r1 r2 w = Some (0, w')"
proof -
  obtain w w' where w: "lock_boot srv_rnd ri clt_rnd lossy k kn = Some w" "lock_client_new r1 w = Some w'"
    "lock_ready 4294967293 ri w'" "net_locks w' = lock_server_new" using lock_started [OF assms] by blast
  from w(3) have "lock_ready (Suc 4294967292) ri w'" by (simp only: Suc_numeral) simp
  from lock_stat_over_rpc [OF this, of r2 "rc_clt_nonce (nt_clt w')" 1] w show ?thesis by (auto simp: lock_demo_main_def lock_server_new_def)
qed

end
