(* ===== verification/System.thy ===== *)
theory System
  imports Net
begin

text \<open>
  A client with its calls, and the dispatch threads of a server, joined by a network that
  loses, duplicates, delays and reorders PDUs. A step is a critical section of the client
  (\<open>call1_enter\<close>, \<open>got_pdu\<close>, \<open>call1_leave\<close>, the end of \<open>bind\<close>), the arrival of any request the
  client has ever sent, or a step of the server (theory \<open>AtMostOnce\<close>) that does not come from
  this client.

  The invariant joins the two sides: every acknowledgement on the wire or seen by the server
  is covered by the set \<open>A\<close> of ids reported to the client's window. Since a waiting call is not in
  \<open>A\<close>, it is never acknowledged, and the server's at-most-once argument applies to it.
\<close>

record 's sys =
  sy_clt :: rpcc
  sy_cfg :: "'s config"
  sy_sent :: "bytes set"

definition sys_init :: "rpcc \<Rightarrow> 's rpcs \<Rightarrow> 's sys" where
  "sys_init c s = \<lparr>sy_clt = c, sy_cfg = init_config s, sy_sent = {}\<rparr>"

text \<open>A request as the \<open>call\<close> templates build it.\<close>

definition built :: "marshall \<Rightarrow> bool" where
  "built m \<longleftrightarrow> marsh_wf m \<and> 24 \<le> m_ind m \<and> m_ind m < MARSH_LIMIT"

definition answers :: "rpcc \<Rightarrow> bytes \<Rightarrow> bool" where
  "answers c b \<longleftrightarrow> (\<forall>h u. unpack_reply_header (unmarshall_of b (length b)) = Some (h, u) \<longrightarrow> rp_xid h < rc_xid c)"

inductive sstep :: "'s sys \<Rightarrow> 's sys \<Rightarrow> bool" where
  call: "built req \<Longrightarrow> rc_xid (sy_clt y) \<noteq> - 1 \<Longrightarrow> call1_enter (sy_clt y) proc req = Some (Call_sent xid m, c) \<Longrightarrow>
    sstep y (y\<lparr>sy_clt := c, sy_sent := sy_sent y \<union> {b. wire_of (m_contents m) b}\<rparr>)"
| reply: "answers (sy_clt y) b \<Longrightarrow> got_pdu (sy_clt y) b (length b) = Some c \<Longrightarrow> sstep y (y\<lparr>sy_clt := c\<rparr>)"
| leave: "call1_leave (sy_clt y) xid = Some (r, c) \<Longrightarrow> sstep y (y\<lparr>sy_clt := c\<rparr>)"
| bound: "bind_finish (sy_clt y) res = (r, c) \<Longrightarrow> sstep y (y\<lparr>sy_clt := c\<rparr>)"
| request: "b \<in> sy_sent y \<Longrightarrow> dispatch_enter (cf_srv (sy_cfg y)) k b (length b) = Some (Some j, s) \<Longrightarrow>
    sstep y (y\<lparr>sy_cfg := (sy_cfg y)\<lparr>cf_srv := s, cf_jobs := Entered k j # cf_jobs (sy_cfg y),
      cf_acks := job_ack j # cf_acks (sy_cfg y)\<rparr>\<rparr>)"
| server: "dstep (sy_cfg y) g \<Longrightarrow>
    (\<forall>a \<in> set (cf_acks g). a \<in> set (cf_acks (sy_cfg y)) \<or> fst a \<noteq> rc_clt_nonce (sy_clt y)) \<Longrightarrow>
    sstep y (y\<lparr>sy_cfg := g\<rparr>)"

inductive sreach :: "rpcc \<Rightarrow> 's rpcs \<Rightarrow> 's sys \<Rightarrow> bool" for c0 s0 where
  start: "sreach c0 s0 (sys_init c0 s0)"
| step: "sreach c0 s0 y \<Longrightarrow> sstep y y' \<Longrightarrow> sreach c0 s0 y'"

section \<open>The joint invariant\<close>

definition req_ok :: "u32 \<Rightarrow> u32 set \<Rightarrow> bytes \<Rightarrow> bool" where
  "req_ok nonce A b \<longleftrightarrow> (\<exists>h u. unpack_req_header (unmarshall_of b (length b)) = Some (h, u) \<and>
     rq_clt_nonce h = nonce \<and> acked_upto A (rq_xid_rep h))"

definition sys_inv :: "u32 \<Rightarrow> 's rpcs \<Rightarrow> 's sys \<Rightarrow> u32 set \<Rightarrow> bool" where
  "sys_inv nonce s0 y A \<longleftrightarrow> client_inv A (sy_clt y) \<and> rc_clt_nonce (sy_clt y) = nonce \<and> dreach s0 (sy_cfg y) \<and>
     (\<forall>b \<in> sy_sent y. req_ok nonce A b) \<and>
     (\<forall>a \<in> set (cf_acks (sy_cfg y)). fst a = nonce \<longrightarrow> acked_upto A (snd a))"

lemma acked_upto_mono: "acked_upto A r \<Longrightarrow> A \<subseteq> B \<Longrightarrow> acked_upto B r"
  by (auto simp: acked_upto_def)

lemma req_ok_mono: "req_ok n A b \<Longrightarrow> A \<subseteq> B \<Longrightarrow> req_ok n B b"
  unfolding req_ok_def using acked_upto_mono by blast

text \<open>A step of the client that may report more ids.\<close>

lemma sys_inv_client:
  assumes "sys_inv nonce s0 y A" and "A \<subseteq> B" and "client_inv B c" and "rc_clt_nonce c = nonce"
  shows "sys_inv nonce s0 (y\<lparr>sy_clt := c\<rparr>) B"
  using assms by (auto simp: sys_inv_def intro: req_ok_mono acked_upto_mono)

lemma call1_enter_wire:
  assumes inv: "client_inv A c" and req: "built req"
    and enter: "call1_enter c proc req = Some (Call_sent xid m, c')" and w: "wire_of (m_contents m) b"
  shows "req_ok (rc_clt_nonce c) A b"
proof -
  have win: "rc_window c \<noteq> []" "acked_upto A (hd (rc_window c))"
    using inv by (simp_all add: client_inv_def win_inv_def win_cover_def)
  obtain f w' where fw: "rc_window c = f # w'" using win(1) by (cases "rc_window c") auto
  let ?h = "next_header c proc"
  have m: "pack_req_header req ?h = Some m"
    using enter by (auto simp: call1_enter_def Let_def fw next_header_def elim!: bind_SomeE split: if_splits)
  have b: "marsh_wf req" "24 \<le> m_ind req" "m_ind req < MARSH_LIMIT" using req by (simp_all add: built_def)
  then obtain m' where m': "pack_req_header req ?h = Some m'"
    "m_contents m' = take 4 (m_contents req) @ map Some (enc_req ?h) @ drop 24 (m_contents req)"
    by (auto elim: pack_req_header_contents)
  from w m m' obtain xs ys where bs: "b = xs @ enc_req ?h @ ys" and l: "wire_of (take 4 (m_contents req)) xs"
      "wire_of (drop 24 (m_contents req)) ys" by (auto simp: wire_of_append wire_of_Some)
  have "unpack_req_header (unmarshall_of b (length b)) = Some (?h, (unmarshall_of b (length b))\<lparr>u_ind := 24\<rparr>)"
    by (rule unpack_req_header_wire [OF _ _ bs refl])
      (use wire_of_length [OF l(1)] wire_of_length [OF l(2)] b in simp_all)
  then show "req_ok (rc_clt_nonce c) A b" using win(2) by (auto simp: req_ok_def next_header_def)
qed

lemma dispatch_enter_hdr:
  assumes "dispatch_enter s k b sz = Some (Some j, s')" and "unpack_req_header (unmarshall_of b sz) = Some (h, u)"
  shows "dj_hdr j = h"
  using assms by (auto simp: dispatch_enter_def Let_def elim!: bind_SomeE split: if_splits option.splits prod.splits)

lemma sstep_inv:
  assumes "sstep y y'" and "sys_inv nonce s0 y A"
  shows "\<exists>B. sys_inv nonce s0 y' B"
  using assms
proof (induction rule: sstep.induct)
  case (call req y proc xid m c)
  have c: "client_inv A (sy_clt y)" "rc_clt_nonce (sy_clt y) = nonce" using call.prems by (simp_all add: sys_inv_def)
  have "client_inv A c" using c(1) call.hyps(2,3) by (rule call1_enter_inv)
  moreover have "rc_clt_nonce c = nonce" "\<forall>b. wire_of (m_contents m) b \<longrightarrow> req_ok nonce A b"
    using call1_enter_wire [OF c(1) call.hyps(1,3)] call1_enter_nonce [OF call.hyps(3)] c(2) by auto
  ultimately show ?case using call.prems by (auto simp: sys_inv_def)
next
  case (reply y b c)
  have inv: "client_inv A (sy_clt y)" "rc_clt_nonce (sy_clt y) = nonce" using reply.prems by (simp_all add: sys_inv_def)
  have iss: "rp_xid h < rc_xid (sy_clt y)" if "unpack_reply_header (unmarshall_of b (length b)) = Some (h, u)" for h u
    using reply.hyps(1) that by (auto simp: answers_def)
  have "\<exists>B. A \<subseteq> B \<and> client_inv B c" using inv(1) reply.hyps(2) by (rule got_pdu_inv) (rule iss)
  then obtain B where B: "A \<subseteq> B" "client_inv B c" by blast
  have "rc_clt_nonce c = nonce"
    using reply.hyps(2) inv(2) by (auto simp: got_pdu_def Let_def elim!: bind_SomeE split: if_splits option.splits)
  with sys_inv_client [OF reply.prems B] show ?case by blast
next
  case (leave y xid r c)
  have inv: "client_inv A (sy_clt y)" "rc_clt_nonce (sy_clt y) = nonce" using leave.prems by (simp_all add: sys_inv_def)
  have "client_inv (insert xid A) c" using inv(1) leave.hyps by (rule call1_leave_inv)
  moreover have "rc_clt_nonce c = nonce" using call1_leave_same [OF leave.hyps] inv(2) by (simp add: same_client_def)
  ultimately have "sys_inv nonce s0 (y\<lparr>sy_clt := c\<rparr>) (insert xid A)"
    using sys_inv_client [OF leave.prems] by blast
  then show ?case by blast
next
  case (bound y res r c)
  then have "client_inv A c" "rc_clt_nonce c = nonce"
    by (auto simp: bind_finish_def sys_inv_def client_inv_def split: prod.splits if_splits)
  with sys_inv_client [OF bound.prems] show ?case by blast
next
  case (request b y k j s)
  let ?g = "sy_cfg y"
  have "req_ok nonce A b" using request by (auto simp: sys_inv_def)
  then obtain h u where h: "unpack_req_header (unmarshall_of b (length b)) = Some (h, u)"
    "acked_upto A (rq_xid_rep h)" by (auto simp: req_ok_def)
  have "dj_hdr j = h" using request.hyps(2) h(1) by (rule dispatch_enter_hdr)
  moreover have "dreach s0 (?g\<lparr>cf_srv := s, cf_jobs := Entered k j # cf_jobs ?g, cf_acks := job_ack j # cf_acks ?g\<rparr>)"
    using request.prems dstep.arrive [OF request.hyps(2)] by (auto simp: sys_inv_def intro: dreach.step)
  ultimately show ?case using request.prems h(2) by (auto simp: sys_inv_def)
next
  case (server y g)
  then have "dreach s0 g" by (auto simp: sys_inv_def intro: dreach.step)
  with server show ?case by (auto simp: sys_inv_def)
qed

lemma sreach_inv:
  assumes "sreach c0 s0 y" and "client_inv A0 c0"
  shows "\<exists>A. sys_inv (rc_clt_nonce c0) s0 y A"
  using assms
proof (induction rule: sreach.induct)
  case start
  then have "sys_inv (rc_clt_nonce c0) s0 (sys_init c0 s0) A0"
    by (auto simp: sys_inv_def sys_init_def init_config_def intro: dreach.start [unfolded init_config_def])
  then show ?case by blast
next
  case (step y y')
  then show ?case by (blast intro: sstep_inv)
qed

section \<open>Properties\<close>

text \<open>
  C1: Exactly-once in the eyes of a waiting caller, first half. A client whose requests are lost,
  duplicated, retransmitted and reordered at will, among any number of concurrent calls and
  other clients: as long as a call waits for its reply, its handler has run at most once on
  the server. Nothing is assumed about acknowledgements; the client's own window never
  acknowledges a waiting call.
\<close>

theorem waiting_call_runs_at_most_once:
  assumes "sreach (rpcc_new True rnd lossy) s0 y" and "rnd \<noteq> 0"
    and "rc_calls (sy_clt y) xid = Some ca" and "\<not> ca_done ca"
  shows "count_list (cf_log (sy_cfg y)) (rnd, xid) \<le> 1"
proof -
  from sreach_inv [OF assms(1) client_inv_new] obtain A where inv: "sys_inv rnd s0 y A"
    by (auto simp: rpcc_new_def)
  then have c: "client_inv A (sy_clt y)" and d: "dreach s0 (sy_cfg y)" by (simp_all add: sys_inv_def)
  have "r < xid" if "(rnd, r) \<in> set (cf_acks (sy_cfg y))" for r
    using client_inv_unacked [OF c assms(3,4)] inv that by (force simp: sys_inv_def)
  then have "unacked (rnd, xid) (sy_cfg y)" by (auto simp: unacked_def list_all_iff)
  with dreach_amo_inv [OF d, of "(rnd, xid)"] assms(2) show ?thesis by (simp add: amo_inv_def started_def)
qed

text \<open>A client that binds: its request has arrived and run, its reply has not come back.\<close>

definition bind_server :: "unit rpcs" where
  "bind_server = (the (rpcs_new 9 0 ()))\<lparr>rs_heap := [0 \<mapsto> fst (connection_new 3 0)]\<rparr>"

lemma bind_server_fields:
  "rs_procs bind_server = [rpc_bind \<mapsto> handler1 unmarshall_int marshall_int 0 (rpcbind 9)]"
  "rs_heap bind_server = [0 \<mapsto> fst (connection_new 3 0)]" "rs_nonce bind_server = 9"
  "rs_reply_window bind_server = Map.empty" "rs_conns bind_server = Map.empty"
  by (simp_all add: bind_server_def rpcs_new_def reg1_def)

lemma bind_handler_runs:
  assumes "unm_wf u" and "u_ok u" and "u_rest u = be32 0" and "u_ind u \<le> u_sz u"
  shows "\<exists>rep. handler1 unmarshall_int marshall_int 0 (rpcbind 9) u marshall_new () = Some (0, rep, ()) \<and>
    marsh_wf rep \<and> 24 \<le> m_ind rep"
proof -
  obtain u' where "unmarshall_int u = Some (0, u')" "okdone u'" using m_bind.arg_decoded [where a = 0 and u = u] assms by auto
  moreover obtain rep where "marshall_int marshall_new 9 = Some rep" "marsh_wf rep" "m_ind rep = 28"
    using put_okD [OF c_int.put_enc [of 9] marsh_wf_new] by (auto simp: marshall_new_def)
  ultimately show ?thesis by (simp add: handler1_def rpcbind_def)
qed

lemma sample_sys:
  "\<exists>y. sreach (rpcc_new True 5 0) bind_server y \<and> rc_calls (sy_clt y) 1 = Some caller_new \<and>
     cf_log (sy_cfg y) = [(5, 1)]"
proof -
  let ?c = "rpcc_new True 5 0" and ?h = "next_header (rpcc_new True 5 0) rpc_bind"
  let ?c1 = "?c\<lparr>rc_xid := rc_xid ?c + 1, rc_calls := (rc_calls ?c)(rc_xid ?c \<mapsto> caller_new)\<rparr>"
  obtain req where req: "call_req1 marshall_int 0 = Some req" "marsh_wf req"
    "m_contents req = replicate 24 None @ map Some (be32 0)" by (rule m_bind.request_built) simp_all
  have "length (m_contents req) = m_ind req" using req(2) by simp
  then have built: "built req" using req(2,3) by (simp add: built_def)
  obtain m where m: "call1_enter ?c rpc_bind req = Some (Call_sent 1 m, ?c1)"
    "m_contents m = request_cells ?h (be32 0)"
    using call1_enter_sent [of ?c rpc_bind req "be32 0"] req by (auto simp: may_call_def rpcc_new_def)
  let ?y0 = "sys_init ?c bind_server" and ?b = "fill (m_contents m)"
  let ?y1 = "?y0\<lparr>sy_clt := ?c1, sy_sent := sy_sent ?y0 \<union> {b. wire_of (m_contents m) b}\<rparr>"
  have "sstep ?y0 ?y1" by (rule sstep.call [OF built]) (use m(1) in \<open>simp_all add: sys_init_def rpcc_new_def\<close>)
  with sreach.start have 1: "sreach ?c bind_server ?y1" by (rule sreach.step)
  let ?u = "(unmarshall_of ?b (length ?b))\<lparr>u_ind := RPC_HEADER_SZ\<rparr>"
  have w: "unpack_req_header (unmarshall_of ?b (length ?b)) = Some (?h, ?u)" "u_rest ?u = be32 0" "length ?b = 28"
    using wire_request [of ?h "be32 0" ?b] wire_of_fill [of "m_contents m"] m(2) by simp_all
  let ?s = "cf_srv (sy_cfg ?y1)" and ?f = "handler1 unmarshall_int marshall_int 0 (rpcbind 9) :: unit handler"
  have acc: "accepts ?s 0 ?h" and f: "rs_procs ?s (rq_proc ?h) = Some ?f"
    by (simp_all add: accepts_def replaceable_def sys_init_def init_config_def bind_server_fields connection_new_def next_header_def
        rpcc_new_def win_xids_def)
  let ?j = "\<lparr>dj_hdr = ?h, dj_req = ?u, dj_fn = ?f, dj_stat = NEW, dj_buf = None\<rparr>"
  obtain s1 where s1: "dispatch_enter ?s 0 ?b (length ?b) = Some (Some ?j, s1)"
    using dispatch_enter_new [OF w(1) _ acc f, of "fst (connection_new 3 0)"]
    by (auto simp: unmarshall_of_def sys_init_def init_config_def bind_server_fields)
  let ?y2 = "?y1\<lparr>sy_cfg := (sy_cfg ?y1)\<lparr>cf_srv := s1, cf_jobs := Entered 0 ?j # cf_jobs (sy_cfg ?y1),
      cf_acks := job_ack ?j # cf_acks (sy_cfg ?y1)\<rparr>\<rparr>"
  have "sstep ?y1 ?y2" by (rule sstep.request [OF _ s1]) (simp add: wire_of_fill)
  with 1 have 2: "sreach ?c bind_server ?y2" by (rule sreach.step)
  have "unm_wf ?u" "u_ok ?u" "u_ind ?u \<le> u_sz ?u" using w(3) by (simp_all add: unm_wf_def unmarshall_of_def)
  from bind_handler_runs [OF this(1,2) w(2) this(3)] obtain rep
    where rep: "?f ?u marshall_new () = Some (0, rep, ())" "marsh_wf rep" "24 \<le> m_ind rep" by blast
  obtain cs s2 where s2: "run_handler s1 ?j = Some (cs, s2)"
    using run_handler_ok [of ?j s1 0 rep "()"] rep by auto
  let ?g = "(sy_cfg ?y2)\<lparr>cf_srv := s2, cf_jobs := [] @ Ran 0 (dj_hdr ?j) cs # cf_jobs (sy_cfg ?y1),
      cf_log := job_id ?j # cf_log (sy_cfg ?y2)\<rparr>"
  have "dstep (sy_cfg ?y2) ?g" by (rule dstep.run) (use s2 in simp_all)
  then have "sstep ?y2 (?y2\<lparr>sy_cfg := ?g\<rparr>)" by (rule sstep.server) simp
  with 2 have 3: "sreach ?c bind_server (?y2\<lparr>sy_cfg := ?g\<rparr>)" by (rule sreach.step)
  show ?thesis
    by (rule exI, rule conjI [OF 3])
      (simp add: sys_init_def init_config_def rpcc_new_def next_header_def)
qed

theorem waiting_call_runs_at_most_once_witness:
  "\<exists>y. sreach (rpcc_new True 5 0) bind_server y \<and> rc_calls (sy_clt y) 1 = Some caller_new \<and>
     cf_log (sy_cfg y) = [(5, 1)] \<and> count_list (cf_log (sy_cfg y)) (5, 1) \<le> 1"
proof -
  obtain y where y: "sreach (rpcc_new True 5 0) bind_server y" "rc_calls (sy_clt y) 1 = Some caller_new"
     "cf_log (sy_cfg y) = [(5, 1)]" using sample_sys by blast
  have "count_list (cf_log (sy_cfg y)) (5, 1) \<le> 1"
    by (rule waiting_call_runs_at_most_once [OF y(1) _ y(2)]) (simp_all add: caller_new_def)
  with y show ?thesis by blast
qed

end
