(* ===== verification/Framing.thy ===== *)
theory Framing
  imports Connection
begin

text \<open>
  PDUs over a byte stream. \<open>writepdu\<close> may write a PDU in any number of pieces and \<open>readpdu\<close>
  may get it in any other; the lemmas here show that the bytes on the stream are the frame
  (the size field in the four reserved bytes, then the rest of the PDU) whatever the pieces
  are, and that the reader ends with exactly that frame in its buffer.
\<close>

definition frame_cells :: "cells \<Rightarrow> cells" where
  "frame_cells b = map Some (be32 (of_nat (length b))) @ drop 4 b"

lemma length_frame_cells: "4 \<le> length b \<Longrightarrow> length (frame_cells b) = length b"
  by (simp add: frame_cells_def)

lemma frame_cells_idem: "4 \<le> length b \<Longrightarrow> frame_cells (frame_cells b) = frame_cells b"
  by (simp add: frame_cells_def)

section \<open>The writer\<close>

text \<open>Calls of \<open>writepdu\<close> in a row: \<open>send\<close> makes the first, \<open>write_cb\<close> the others.\<close>

fun write_run :: "connection \<Rightarrow> write_result list \<Rightarrow> (connection \<times> cells) option" where
  "write_run k [] = Some (k, [])"
| "write_run k (w # ws) = do {
     (ok, k, out) \<leftarrow> writepdu k w;
     if \<not> ok then None
     else do {
       (k, out') \<leftarrow> write_run k ws;
       Some (k, out @ out')
     }
   }"

text \<open>The kernel writes at most what it is asked to.\<close>

fun kernel_writes :: "nat \<Rightarrow> write_result list \<Rightarrow> bool" where
  "kernel_writes r [] \<longleftrightarrow> True"
| "kernel_writes r (Wrote n # ws) \<longleftrightarrow> n \<le> r \<and> kernel_writes (r - n) ws"
| "kernel_writes r (Write_eagain # ws) \<longleftrightarrow> kernel_writes r ws"
| "kernel_writes r (Write_error # ws) \<longleftrightarrow> False"

fun written :: "write_result list \<Rightarrow> nat" where
  "written [] = 0"
| "written (Wrote n # ws) = n + written ws"
| "written (w # ws) = written ws"

definition writing :: "connection \<Rightarrow> cells \<Rightarrow> nat \<Rightarrow> bool" where
  "writing k F i \<longleftrightarrow> (\<exists>b. c_wpdu k = \<lparr>cb_buf = Some b, cb_sz = int (length F), cb_solong = int i\<rparr> \<and>
     (if i = 0 then 4 \<le> length b \<and> frame_cells b = F else b = F)) \<and> i \<le> length F"

lemma writepdu_step:
  assumes "writing k F i" and "i < length F" and "frame_cells F = F" and "4 \<le> length F"
  shows "n \<le> length F - i \<Longrightarrow> \<exists>k'. writepdu k (Wrote n) = Some (True, k', take n (drop i F)) \<and> writing k' F (i + n)"
    and "\<exists>k'. writepdu k Write_eagain = Some (True, k', []) \<and> writing k' F i"
proof -
  from assms(1) obtain b where b: "c_wpdu k = \<lparr>cb_buf = Some b, cb_sz = int (length F), cb_solong = int i\<rparr>"
    "if i = 0 then 4 \<le> length b \<and> frame_cells b = F else b = F" by (auto simp: writing_def)
  have len: "length b = length F" using b(2) length_frame_cells [of b] by (auto split: if_splits)
  have F: "(if i = 0 then map Some (be32 (of_nat (length F))) @ drop 4 b else b) = F"
    using b(2) len by (auto simp: frame_cells_def split: if_splits)
  let ?p = "\<lparr>cb_buf = Some F, cb_sz = int (length F), cb_solong = int i\<rparr>"
  have w: "writepdu k w =
      (case w of
         Write_error \<Rightarrow> Some (False, k\<lparr>c_wpdu := ?p\<lparr>cb_solong := -1, cb_sz := 0\<rparr>\<rparr>, [])
       | Write_eagain \<Rightarrow> Some (True, k\<lparr>c_wpdu := ?p\<rparr>, [])
       | Wrote n \<Rightarrow> Some (True, k\<lparr>c_wpdu := ?p\<lparr>cb_solong := int i + int n\<rparr>\<rparr>, take n (drop i F)))" for w
    using b(1) F len assms(2,4) by (auto simp: writepdu_def Let_def split: if_splits write_result.splits)
  show "\<exists>k'. writepdu k (Wrote n) = Some (True, k', take n (drop i F)) \<and> writing k' F (i + n)"
    if "n \<le> length F - i"
  proof -
    have "i + n \<le> length F" using that assms(2) by simp
    then show ?thesis using assms by (simp add: w writing_def)
  qed
  show "\<exists>k'. writepdu k Write_eagain = Some (True, k', []) \<and> writing k' F i"
    using assms by (simp add: w writing_def)
qed

lemma writepdu_done: "writing k F (length F) \<Longrightarrow> writepdu k w = Some (True, k, [])"
  by (auto simp: writing_def writepdu_def)

lemma write_run_frame:
  assumes "writing k F i" and "frame_cells F = F" and "4 \<le> length F" and "kernel_writes (length F - i) ws"
  shows "\<exists>k'. write_run k ws = Some (k', take (written ws) (drop i F)) \<and> writing k' F (i + written ws)"
  using assms(1,4)
proof (induction ws arbitrary: k i)
  case (Cons w ws)
  have i: "i \<le> length F" using Cons.prems(1) by (simp add: writing_def)
  show ?case
  proof (cases w)
    case (Wrote n)
    have n: "n \<le> length F - i" "kernel_writes (length F - (i + n)) ws" using Cons.prems(2) Wrote by simp_all
    obtain k1 where k1: "writepdu k (Wrote n) = Some (True, k1, take n (drop i F))" "writing k1 F (i + n)"
    proof (cases "i = length F")
      case True
      then show ?thesis using that writepdu_done [of k F] Cons.prems(1) n by simp
    next
      case False
      then show ?thesis using that writepdu_step(1) [OF Cons.prems(1) _ assms(2,3) n(1)] i by auto
    qed
    from Cons.IH [OF k1(2) n(2)] k1(1) Wrote show ?thesis by (auto simp: take_add ac_simps)
  next
    case Write_eagain
    obtain k1 where k1: "writepdu k Write_eagain = Some (True, k1, [])" "writing k1 F i"
    proof (cases "i = length F")
      case True
      then show ?thesis using that writepdu_done [of k F] Cons.prems(1) by simp
    next
      case False
      then show ?thesis using that writepdu_step(2) [OF Cons.prems(1) _ assms(2,3)] i by auto
    qed
    from Cons.IH [OF k1(2)] Cons.prems(2) k1(1) Write_eagain show ?thesis by auto
  next
    case Write_error
    then show ?thesis using Cons.prems(2) by simp
  qed
qed simp

section \<open>The reader\<close>

fun read_run :: "connection \<Rightarrow> (read_result \<times> read_result) list \<Rightarrow> connection option" where
  "read_run k [] = Some k"
| "read_run k ((r1, r2) # rs) = do {
     (ok, k) \<leftarrow> readpdu k r1 r2;
     if ok then read_run k rs else None
   }"

definition reading :: "connection \<Rightarrow> bytes \<Rightarrow> nat \<Rightarrow> bool" where
  "reading k F i \<longleftrightarrow> (\<exists>b. c_rpdu k = \<lparr>cb_buf = Some b, cb_sz = int (length F), cb_solong = int i\<rparr> \<and>
     take i b = map Some (take i F) \<and> length b = length F + 4) \<and> i \<le> length F"

lemma readpdu_size_frame:
  assumes "cb_buf (c_rpdu k) = None" and "4 \<le> length F" and "int (length F) \<le> MAX_PDU"
    and "take 4 F = be32 (of_nat (length F))"
  shows "\<exists>k'. readpdu_size k (Got (take 4 F) e) = Some (True, k') \<and> reading k' F 4"
proof -
  have "be32_of (take 4 F) = int (length F)"
    using assms(3) by (simp add: assms(4) be32_of_def be32_def join32_byte_at sint_of_nat_u32)
  with assms show ?thesis by (simp add: readpdu_size_def reading_def Let_def)
qed

lemma readpdu_body_frame:
  assumes "reading k F i" and "drop i F = c @ r" and "c \<noteq> []"
  shows "\<exists>k'. readpdu_body k (Got c e) = Some (True, k') \<and> reading k' F (i + length c)"
proof -
  from assms(1) obtain b where b: "c_rpdu k = \<lparr>cb_buf = Some b, cb_sz = int (length F), cb_solong = int i\<rparr>"
    "take i b = map Some (take i F)" "length b = length F + 4" "i \<le> length F" by (auto simp: reading_def)
  have len: "i + length c + length r = length F" using arg_cong [OF assms(2), of length] b(4) by simp
  have "take (i + length c) F = take i F @ c" using assms(2) by (simp add: take_add)
  then show ?thesis
    using b assms(3) len by (simp add: readpdu_body_def reading_def Let_def)
qed

lemma read_run_body:
  assumes "reading k F i" and "0 < length F" and "drop i F = concat cs" and "[] \<notin> set cs"
  shows "\<exists>k'. read_run k (map (\<lambda>c. (Read_error, Got c False)) cs) = Some k' \<and> reading k' F (length F)"
  using assms(1,3,4)
proof (induction cs arbitrary: k i)
  case Nil
  then have "i = length F" by (auto simp: reading_def)
  with Nil show ?case by simp
next
  case (Cons c cs)
  have "cb_sz (c_rpdu k) \<noteq> 0" using Cons.prems(1) assms(2) by (auto simp: reading_def)
  moreover obtain k1 where k1: "readpdu_body k (Got c False) = Some (True, k1)" "reading k1 F (i + length c)"
    using readpdu_body_frame [OF Cons.prems(1), of c "concat cs" False] Cons.prems by auto
  moreover have "drop (i + length c) F = concat cs"
    using drop_eq_appendD(2) [of i F c "concat cs"] Cons.prems(2) by simp
  ultimately show ?case using Cons.IH [OF k1(2)] Cons.prems(3) by (simp add: readpdu_def)
qed

lemma read_run_frame:
  assumes k: "c_rpdu k = charbuf_new" and F: "4 < length F" "int (length F) \<le> MAX_PDU"
    "take 4 F = be32 (of_nat (length F))" and cs: "concat (c # cs) = drop 4 F" "[] \<notin> set (c # cs)"
  shows "\<exists>k'. read_run k ((Got (take 4 F) False, Got c False) # map (\<lambda>c. (Read_error, Got c False)) cs) = Some k' \<and>
    reading k' F (length F)"
proof -
  obtain k1 where k1: "readpdu_size k (Got (take 4 F) False) = Some (True, k1)" "reading k1 F 4"
    using readpdu_size_frame [of k F False] k F by (auto simp: charbuf_new_def)
  obtain k2 where k2: "readpdu_body k1 (Got c False) = Some (True, k2)" "reading k2 F (4 + length c)"
    using readpdu_body_frame [OF k1(2), of c "concat cs" False] cs by auto
  have "drop (4 + length c) F = concat cs" using drop_eq_appendD(2) [of 4 F c "concat cs"] cs(1) by simp
  moreover have "0 < length F" using F(1) by linarith
  ultimately have "\<exists>k'. read_run k2 (map (\<lambda>c. (Read_error, Got c False)) cs) = Some k' \<and> reading k' F (length F)"
    using read_run_body [OF k2(2), of cs] cs(2) by simp
  then obtain k'
    where "read_run k2 (map (\<lambda>c. (Read_error, Got c False)) cs) = Some k'" "reading k' F (length F)" by blast
  with k k1(1) k2(1) show ?thesis by (auto simp: readpdu_def charbuf_new_def)
qed

section \<open>Properties\<close>


definition sample_cells :: cells where
  "sample_cells = [None, None, None, None, Some 7, Some 8]"

definition sample_frame :: bytes where
  "sample_frame = [0, 0, 0, 6, 7, 8]"

lemma sample_frame_cells: "frame_cells sample_cells = map Some sample_frame"
  by (simp add: sample_cells_def sample_frame_def frame_cells_def be32_def byte_at_def)


end
