(* ===== verification/Sending.thy ===== *)
theory Sending
  imports Framing
begin

text \<open>
  Several threads that call \<open>connection::send\<close> on one connection (\<open>rpc/connection.cc\<close>), together with the
  poll thread that finishes partial writes (\<open>write_cb\<close>) or finds the connection broken (\<open>read_cb\<close>)
  and with \<open>closeconn\<close>. The step relation \<open>sstep\<close> uses the pieces of \<open>send\<close> of the theory
  \<open>Connection\<close>. A thread that waits for \<open>send_complete_\<close> is asleep until the condition is
  signalled; the first argument of the relation says whether it may also wake up without a signal.
\<close>

record send_cfg =
  sc_k :: connection
  sc_stream :: cells
  sc_entered :: "cells list"
  sc_current :: "(cells \<times> bool) option"
  sc_removed :: bool
  sc_sent :: "cells list"

definition send_init :: "nat \<Rightarrow> int \<Rightarrow> send_cfg" where
  "send_init fd lossy = \<lparr>sc_k = fst (connection_new fd lossy), sc_stream = [], sc_entered = [], sc_current = None,
     sc_removed = False, sc_sent = []\<rparr>"

text \<open>The kernel writes at most what it is asked to.\<close>

definition kernel_ok :: "write_result \<Rightarrow> int \<Rightarrow> bool" where
  "kernel_ok w r \<longleftrightarrow> (case w of Wrote n \<Rightarrow> int n \<le> r | _ \<Rightarrow> True)"

definition wake :: "bool \<Rightarrow> (cells \<times> bool) option \<Rightarrow> (cells \<times> bool) option" where
  "wake sig cur = (if sig then map_option (\<lambda>(b, asleep). (b, False)) cur else cur)"

inductive sstep :: "bool \<Rightarrow> send_cfg \<Rightarrow> send_cfg \<Rightarrow> bool" for spurious where
  enter: "4 \<le> length b \<Longrightarrow> sstep spurious g (g\<lparr>sc_k := send_enter (sc_k g), sc_entered := b # sc_entered g\<rparr>)"
| refuse: "sc_entered g = xs @ b # ys \<Longrightarrow> send_can_start (sc_k g) \<Longrightarrow>
    send_start (sc_k g) b w = Some (Send_returns r, k, out, reqs) \<Longrightarrow>
    sstep spurious g (g\<lparr>sc_k := k, sc_stream := sc_stream g @ out, sc_entered := xs @ ys\<rparr>)"
| start: "sc_entered g = xs @ b # ys \<Longrightarrow> send_can_start (sc_k g) \<Longrightarrow> kernel_ok w (int (length b)) \<Longrightarrow>
    send_start (sc_k g) b w = Some (outcome, k, out, reqs) \<Longrightarrow> outcome = Send_finish_now \<or> outcome = Send_waits \<Longrightarrow>
    sstep spurious g (g\<lparr>sc_k := k, sc_stream := sc_stream g @ out, sc_entered := xs @ ys,
      sc_current := Some (b, outcome = Send_waits), sc_removed := (sc_removed g \<or> Block_remove_fd \<in> set reqs)\<rparr>)"
| poll_write: "\<not> sc_removed g \<Longrightarrow> kernel_ok w (cb_sz (c_wpdu (sc_k g)) - cb_solong (c_wpdu (sc_k g))) \<Longrightarrow>
    write_cb (sc_k g) (c_fd (sc_k g)) w = Some (k, out, reqs, sig) \<Longrightarrow>
    sstep spurious g (g\<lparr>sc_k := k, sc_stream := sc_stream g @ out, sc_current := wake sig (sc_current g),
      sc_removed := (Del_callback CB_RDWR \<in> set reqs)\<rparr>)"
| poll_read_fails: "\<not> sc_removed g \<Longrightarrow> \<not> c_dead (sc_k g) \<Longrightarrow>
    sstep spurious g (g\<lparr>sc_k := (sc_k g)\<lparr>c_dead := True\<rparr>, sc_current := wake True (sc_current g), sc_removed := True\<rparr>)"
| close: "closeconn (sc_k g) = (k, reqs) \<Longrightarrow>
    sstep spurious g (g\<lparr>sc_k := k, sc_removed := (sc_removed g \<or> Block_remove_fd \<in> set reqs)\<rparr>)"
| finish: "sc_current g = Some (b, False) \<Longrightarrow> send_can_finish (sc_k g) \<Longrightarrow> send_finish (sc_k g) = (r, k, bc) \<Longrightarrow>
    sstep spurious g (g\<lparr>sc_k := k, sc_current := None, sc_sent := (if r then sc_sent g @ [b] else sc_sent g)\<rparr>)"
| sleep: "sc_current g = Some (b, False) \<Longrightarrow> \<not> send_can_finish (sc_k g) \<Longrightarrow>
    sstep spurious g (g\<lparr>sc_current := Some (b, True)\<rparr>)"
| wakeup: "spurious \<Longrightarrow> sc_current g = Some (b, True) \<Longrightarrow> sstep spurious g (g\<lparr>sc_current := Some (b, False)\<rparr>)"

inductive sends :: "bool \<Rightarrow> send_cfg \<Rightarrow> send_cfg \<Rightarrow> bool" for spurious where
  refl: "sends spurious g g"
| step: "sends spurious g g' \<Longrightarrow> sstep spurious g' g'' \<Longrightarrow> sends spurious g g''"

section \<open>The invariant\<close>

text \<open>The write buffer holds the current PDU, of which \<open>i\<close> bytes are out, or its write has failed.\<close>

definition in_progress :: "connection \<Rightarrow> cells \<Rightarrow> cells \<Rightarrow> bool" where
  "in_progress k b part \<longleftrightarrow> 4 \<le> length b \<and>
     ((\<exists>i. writing k (frame_cells b) i \<and> part = take i (frame_cells b)) \<or>
      (c_dead k \<and> cb_buf (c_wpdu k) \<noteq> None \<and> cb_solong (c_wpdu k) = -1 \<and> cb_sz (c_wpdu k) = 0 \<and>
       (\<exists>i. part = take i (frame_cells b))))"

definition frame_prefix :: "cells \<Rightarrow> bool" where
  "frame_prefix part \<longleftrightarrow> (\<exists>b i. part = take i (frame_cells b))"

definition send_inv :: "send_cfg \<Rightarrow> bool" where
  "send_inv g \<longleftrightarrow> (\<exists>part. sc_stream g = concat (map frame_cells (sc_sent g)) @ part \<and>
     (case sc_current g of
        None \<Rightarrow> cb_buf (c_wpdu (sc_k g)) = None \<and> cb_sz (c_wpdu (sc_k g)) = 0 \<and>
                (if c_dead (sc_k g) then frame_prefix part else part = [])
      | Some (b, asleep) \<Rightarrow> in_progress (sc_k g) b part)) \<and>
   (\<forall>b \<in> set (sc_entered g). 4 \<le> length b)"

lemma frame_prefix_Nil: "frame_prefix []"
  unfolding frame_prefix_def by (metis take0)

lemma writing_update: "writing (k\<lparr>c_dead := d\<rparr>) F i = writing k F i"
  by (simp add: writing_def)

lemma in_progress_prefix: "in_progress k b part \<Longrightarrow> frame_prefix part"
  by (auto simp: in_progress_def frame_prefix_def)

text \<open>One call of \<open>writepdu\<close> for the current PDU.\<close>

lemma writepdu_dead: "writepdu k w = Some (ok, k', out) \<Longrightarrow> c_dead k' = c_dead k"
  by (auto simp: writepdu_def Let_def elim!: bind_SomeE split: if_splits write_result.splits)

lemma writepdu_error:
  assumes "writing k F i" and "i < length F" and "writepdu k Write_error = Some (ok, k', out)"
  shows "\<not> ok \<and> out = [] \<and> cb_buf (c_wpdu k') \<noteq> None \<and> cb_solong (c_wpdu k') = -1 \<and> cb_sz (c_wpdu k') = 0"
  using assms by (auto simp: writing_def writepdu_def Let_def split: if_splits)

lemma writepdu_frame:
  assumes wr: "writing k (frame_cells b) i" and len: "4 \<le> length b" and i: "i < length (frame_cells b)"
    and w: "kernel_ok w (int (length (frame_cells b)) - int i)" and call: "writepdu k w = Some (ok, k', out)"
  shows "if ok then \<exists>j. writing k' (frame_cells b) j \<and> take i (frame_cells b) @ out = take j (frame_cells b)
    else out = [] \<and> cb_buf (c_wpdu k') \<noteq> None \<and> cb_solong (c_wpdu k') = -1 \<and> cb_sz (c_wpdu k') = 0"
proof (cases w)
  case (Wrote n)
  have "n \<le> length (frame_cells b) - i" using w i by (simp add: kernel_ok_def Wrote)
  from writepdu_step(1) [OF wr i frame_cells_idem [OF len] _ this] len obtain k1
    where "writepdu k (Wrote n) = Some (True, k1, take n (drop i (frame_cells b)))" "writing k1 (frame_cells b) (i + n)"
    by (auto simp: length_frame_cells)
  then show ?thesis using call Wrote by (auto simp: take_add intro: exI [of _ "i + n"])
next
  case Write_eagain
  from writepdu_step(2) [OF wr i frame_cells_idem [OF len]] len obtain k1
    where "writepdu k Write_eagain = Some (True, k1, [])" "writing k1 (frame_cells b) i"
    by (auto simp: length_frame_cells)
  then show ?thesis using call Write_eagain by auto
next
  case Write_error
  then show ?thesis using writepdu_error [OF wr i] call by simp
qed

lemma in_progress_write:
  assumes "in_progress k b part" and "\<not> c_dead k" and "kernel_ok w (cb_sz (c_wpdu k) - cb_solong (c_wpdu k))"
    and call: "writepdu k w = Some (ok, k', out)"
  shows "in_progress (if ok then k' else k'\<lparr>c_dead := True\<rparr>) b (part @ out)"
proof -
  from assms(1,2) obtain i where i: "writing k (frame_cells b) i" "part = take i (frame_cells b)" and len: "4 \<le> length b"
    by (auto simp: in_progress_def)
  then have le: "i \<le> length (frame_cells b)"
    and f: "cb_sz (c_wpdu k) - cb_solong (c_wpdu k) = int (length (frame_cells b)) - int i" by (auto simp: writing_def)
  show ?thesis
  proof (cases "i = length (frame_cells b)")
    case True
    then show ?thesis using writepdu_done [of k "frame_cells b" w] i call len by (auto simp: in_progress_def)
  next
    case False
    then have "i < length (frame_cells b)" using le by simp
    from writepdu_frame [OF i(1) len this _ call] assms(3) f i(2) len show ?thesis
      by (auto simp: in_progress_def split: if_splits)
  qed
qed

text \<open>The start of a write.\<close>

lemma send_start_progress:
  assumes len: "4 \<le> length b" and w: "kernel_ok w (int (length b))"
    and call: "send_start k b w = Some (outcome, k', out, reqs)" and o: "outcome = Send_finish_now \<or> outcome = Send_waits"
  shows "in_progress k' b out \<and> \<not> c_dead k"
proof -
  let ?k = "k\<lparr>c_waiters := c_waiters k - 1, c_wpdu := \<lparr>cb_buf = Some b, cb_sz = int (length b), cb_solong = 0\<rparr>\<rparr>"
  have alive: "\<not> c_dead k" using call o by (auto simp: send_start_def Let_def)
  with call obtain ok k1 where k1: "writepdu ?k w = Some (ok, k1, out)" "k' = (if ok then k1 else k1\<lparr>c_dead := True\<rparr>)"
    by (auto simp: send_start_def Let_def elim!: bind_SomeE split: if_splits)
  have "writing ?k (frame_cells b) 0" using len by (simp add: writing_def length_frame_cells)
  then have "in_progress ?k b []" using len by (auto simp: in_progress_def intro: exI [of _ 0])
  from in_progress_write [OF this _ _ k1(1)] alive w k1(2) show ?thesis by simp
qed

lemma send_finish_result:
  assumes "in_progress k b part" and "send_finish k = (r, k', bc)"
  shows "cb_buf (c_wpdu k') = None \<and> cb_sz (c_wpdu k') = 0 \<and> c_dead k' = c_dead k \<and>
    (r \<longleftrightarrow> \<not> c_dead k \<and> cb_solong (c_wpdu k) = cb_sz (c_wpdu k)) \<and> (r \<longrightarrow> part = frame_cells b)"
  using assms by (auto simp: send_finish_def charbuf_new_def in_progress_def writing_def)

lemma in_progress_dead: "in_progress k b part \<Longrightarrow> in_progress (k\<lparr>c_dead := True\<rparr>) b part"
  by (auto simp: in_progress_def writing_update)

lemma in_progress_waiters: "in_progress (k\<lparr>c_waiters := n\<rparr>) b part = in_progress k b part"
  by (simp add: in_progress_def writing_def)

text \<open>The configurations by whether a thread has its PDU in the write buffer.\<close>

lemma send_inv_idle:
  "sc_current g = None \<Longrightarrow> send_inv g \<longleftrightarrow>
     (\<exists>part. sc_stream g = concat (map frame_cells (sc_sent g)) @ part \<and>
        cb_buf (c_wpdu (sc_k g)) = None \<and> cb_sz (c_wpdu (sc_k g)) = 0 \<and>
        (if c_dead (sc_k g) then frame_prefix part else part = [])) \<and>
     (\<forall>b \<in> set (sc_entered g). 4 \<le> length b)"
  by (simp add: send_inv_def)

lemma send_inv_busy:
  "sc_current g = Some (b, a) \<Longrightarrow> send_inv g \<longleftrightarrow>
     (\<exists>part. sc_stream g = concat (map frame_cells (sc_sent g)) @ part \<and> in_progress (sc_k g) b part) \<and>
     (\<forall>b \<in> set (sc_entered g). 4 \<le> length b)"
  by (simp add: send_inv_def)

lemma in_progress_buf: "in_progress k b part \<Longrightarrow> cb_buf (c_wpdu k) \<noteq> None"
  by (auto simp: in_progress_def writing_def)

lemma send_start_refused:
  "send_start k b w = Some (Send_returns r, k', out, reqs) \<Longrightarrow> c_dead k \<and> out = [] \<and> k' = k\<lparr>c_waiters := c_waiters k - 1\<rparr>"
  by (auto simp: send_start_def Let_def elim!: bind_SomeE split: if_splits)

lemma write_cb_progress:
  assumes "in_progress k b part" and "kernel_ok w (cb_sz (c_wpdu k) - cb_solong (c_wpdu k))"
    and call: "write_cb k fd w = Some (k', out, reqs, sig)"
  shows "in_progress k' b (part @ out)"
proof -
  have alive: "\<not> c_dead k" using call by (auto simp: write_cb_def)
  with assms(1) have "cb_sz (c_wpdu k) \<noteq> 0" using length_frame_cells [of b] by (auto simp: in_progress_def writing_def)
  with call obtain ok k1 where "writepdu k w = Some (ok, k1, out)" "k' = (if ok then k1 else k1\<lparr>c_dead := True\<rparr>)"
    by (auto simp: write_cb_def elim!: bind_SomeE split: if_splits)
  then show ?thesis using in_progress_write [OF assms(1) alive assms(2)] by simp
qed

lemma write_cb_idle:
  assumes "cb_sz (c_wpdu k) = 0" and "write_cb k fd w = Some (k', out, reqs, sig)"
  shows "k' = k \<and> out = [] \<and> \<not> c_dead k"
  using assms by (auto simp: write_cb_def split: if_splits)

lemma send_inv_step:
  assumes "sstep spurious g g'" and "send_inv g"
  shows "send_inv g'"
  using assms
proof (induction rule: sstep.induct)
  case (enter b g)
  then show ?case by (cases "sc_current g") (auto simp: send_inv_idle send_inv_busy send_enter_def in_progress_waiters)
next
  case (refuse g xs b ys w r k out reqs)
  note r = send_start_refused [OF refuse.hyps(3)]
  from refuse.prems refuse.hyps(1) r show ?case
    by (cases "sc_current g") (auto simp: send_inv_idle send_inv_busy in_progress_waiters)
next
  case (start g xs b ys w outcome k out reqs)
  have len: "4 \<le> length b" using start.prems start.hyps(1) by (auto simp: send_inv_def)
  note p = send_start_progress [OF len start.hyps(3,4,5)]
  have "sc_current g = None"
  proof (rule ccontr)
    assume "sc_current g \<noteq> None"
    then obtain b' a where "sc_current g = Some (b', a)" by auto
    then have "cb_buf (c_wpdu (sc_k g)) \<noteq> None" using start.prems by (auto simp: send_inv_busy dest: in_progress_buf)
    with start.hyps(2) p show False by (simp add: send_can_start_def)
  qed
  with start.prems start.hyps(1) p show ?case by (auto simp: send_inv_idle send_inv_busy)
next
  case (poll_write g w k out reqs sig)
  show ?case
  proof (cases "sc_current g")
    case None
    then have "k = sc_k g" "out = []"
      using write_cb_idle [OF _ poll_write.hyps(3)] poll_write.prems by (auto simp: send_inv_idle)
    with None poll_write.prems show ?thesis by (simp add: send_inv_idle wake_def)
  next
    case (Some ba)
    then obtain b a where b: "sc_current g = Some (b, a)" by (cases ba) auto
    with poll_write.prems obtain part where part: "sc_stream g = concat (map frame_cells (sc_sent g)) @ part"
      "in_progress (sc_k g) b part" "\<forall>b \<in> set (sc_entered g). 4 \<le> length b" by (auto simp: send_inv_busy)
    then have "in_progress k b (part @ out)" using write_cb_progress poll_write.hyps(2,3) by blast
    with part b show ?thesis by (cases sig) (auto simp: send_inv_def wake_def)
  qed
next
  case (poll_read_fails g)
  then show ?case
    by (cases "sc_current g") (auto simp: send_inv_idle send_inv_busy wake_def in_progress_dead frame_prefix_Nil)
next
  case (close g k reqs)
  then show ?case
    by (cases "sc_current g") (auto simp: send_inv_idle send_inv_busy closeconn_def in_progress_dead frame_prefix_Nil
        split: if_splits)
next
  case (finish g b r k bc)
  from finish.prems obtain part where part: "sc_stream g = concat (map frame_cells (sc_sent g)) @ part"
    "in_progress (sc_k g) b part" "\<forall>b \<in> set (sc_entered g). 4 \<le> length b"
    by (auto simp: send_inv_busy [OF finish.hyps(1)])
  note f = send_finish_result [OF part(2) finish.hyps(3)]
  have "r" if "\<not> c_dead (sc_k g)"
    using that part(2) finish.hyps(2) f by (auto simp: in_progress_def writing_def send_can_finish_def)
  then show ?case using part f in_progress_prefix [OF part(2)] by (auto simp: send_inv_idle)
next
  case (sleep g b)
  then show ?case by (simp add: send_inv_def)
next
  case (wakeup g b)
  then show ?case by (simp add: send_inv_def)
qed

lemma sends_inv: "sends spurious g g' \<Longrightarrow> send_inv g \<Longrightarrow> send_inv g'"
  by (induction rule: sends.induct) (auto intro: send_inv_step)

lemma send_inv_init: "send_inv (send_init fd lossy)"
  by (simp add: send_inv_def send_init_def connection_new_def charbuf_new_def)

text \<open>A thread that sleeps on a dead connection without callbacks.\<close>

definition stranded :: "cells \<Rightarrow> send_cfg \<Rightarrow> bool" where
  "stranded b g \<longleftrightarrow> sc_current g = Some (b, True) \<and> sc_removed g \<and> c_dead (sc_k g)"

lemma stranded_step: "sstep False g g' \<Longrightarrow> stranded b g \<Longrightarrow> stranded b g'"
proof (induction rule: sstep.induct)
  case (start g xs b' ys w outcome k out reqs)
  then have "\<not> c_dead (sc_k g)" by (auto simp: send_start_def Let_def)
  with start.prems show ?case by (simp add: stranded_def)
next
  case (refuse g xs b' ys w r k out reqs)
  then show ?case using send_start_refused [OF refuse.hyps(3)] by (simp add: stranded_def)
qed (auto simp: stranded_def send_enter_def closeconn_def split: if_splits)

lemma stranded_sends: "sends False g g' \<Longrightarrow> stranded b g \<Longrightarrow> stranded b g'"
  by (induction rule: sends.induct) (auto intro: stranded_step)

text \<open>A thread has written the first byte of its PDU and waits for the rest.\<close>

lemma sample_send:
  "\<exists>g. sends False (send_init 3 0) g \<and> sc_current g = Some (sample_cells, True) \<and> \<not> c_dead (sc_k g) \<and>
     sc_stream g = [Some 0]"
proof -
  let ?g0 = "send_init 3 0"
  let ?g1 = "?g0\<lparr>sc_k := send_enter (sc_k ?g0), sc_entered := sample_cells # sc_entered ?g0\<rparr>"
  have "sstep False ?g0 ?g1" by (rule sstep.enter) (simp add: sample_cells_def)
  with sends.refl have 1: "sends False ?g0 ?g1" by (rule sends.step)
  obtain k where k: "send_start (sc_k ?g1) sample_cells (Wrote 1) = Some (Send_waits, k, [Some 0], [Add_callback CB_WRONLY])"
    "\<not> c_dead k"
    by (simp add: send_start_def send_enter_def send_init_def connection_new_def writepdu_def sample_cells_def be32_def byte_at_def Let_def)
  let ?g2 = "?g1\<lparr>sc_k := k, sc_stream := sc_stream ?g1 @ [Some 0], sc_entered := [] @ [],
      sc_current := Some (sample_cells, Send_waits = Send_waits),
      sc_removed := (sc_removed ?g1 \<or> Block_remove_fd \<in> set [Add_callback CB_WRONLY])\<rparr>"
  have "sstep False ?g1 ?g2"
    by (rule sstep.start [OF _ _ _ k(1)])
      (simp_all add: send_init_def send_can_start_def send_enter_def connection_new_def charbuf_new_def kernel_ok_def sample_cells_def)
  with 1 have "sends False ?g0 ?g2" by (rule sends.step)
  moreover have "sc_current ?g2 = Some (sample_cells, True)" "\<not> c_dead (sc_k ?g2)" "sc_stream ?g2 = [Some 0]"
    using k(2) by (simp_all add: send_init_def)
  ultimately show ?thesis by blast
qed

section \<open>Properties\<close>

text \<open>
  C21: PDUs on a connection do not mix. Whatever threads send on it, whatever the kernel accepts of
  each write, and whenever the connection breaks or is closed: the bytes that went out are the
  whole frames of the PDUs whose \<open>send\<close> returned true, in the order in which they returned,
  followed by the beginning of at most one more frame; and by nothing, as long as the connection
  is alive and nobody is sending.
\<close>

theorem sends_do_not_mix:
  assumes "sends spurious (send_init fd lossy) g"
  shows "\<exists>b i. sc_stream g = concat (map frame_cells (sc_sent g)) @ take i (frame_cells b) \<and>
    (\<not> c_dead (sc_k g) \<and> sc_current g = None \<longrightarrow> sc_stream g = concat (map frame_cells (sc_sent g)))"
proof -
  from sends_inv [OF assms send_inv_init] obtain part where part: "sc_stream g = concat (map frame_cells (sc_sent g)) @ part"
    "case sc_current g of
        None \<Rightarrow> cb_buf (c_wpdu (sc_k g)) = None \<and> cb_sz (c_wpdu (sc_k g)) = 0 \<and>
                (if c_dead (sc_k g) then frame_prefix part else part = [])
      | Some (b, asleep) \<Rightarrow> in_progress (sc_k g) b part" by (auto simp: send_inv_def)
  have "frame_prefix part"
    using part(2) in_progress_prefix
    by (cases "sc_current g") (auto simp: frame_prefix_Nil split: if_splits)
  moreover have "\<not> c_dead (sc_k g) \<Longrightarrow> sc_current g = None \<Longrightarrow> part = []" using part(2) by simp
  ultimately show ?thesis using part(1) by (auto simp: frame_prefix_def)
qed

theorem sends_do_not_mix_witness:
  "\<exists>g b i. sends False (send_init 3 0) g \<and> sc_stream g = [Some 0] \<and>
     sc_stream g = concat (map frame_cells (sc_sent g)) @ take i (frame_cells b)"
proof -
  obtain g where g: "sends False (send_init 3 0) g" "sc_stream g = [Some 0]" using sample_send by blast
  from sends_do_not_mix [OF g(1)] g show ?thesis by blast
qed

text \<open>
  C33: \<open>closeconn\<close> strands a sender. When a thread waits for the rest of its PDU to be written and the
  connection is closed, nothing signals \<open>send_complete_\<close> any more: the descriptor has left the poll
  manager and \<open>closeconn\<close> does not signal itself. Whatever happens then, the thread sleeps on.
\<close>

theorem close_strands_sender:
  assumes "sc_current g = Some (b, True)" and "\<not> c_dead (sc_k g)" and "closeconn (sc_k g) = (k, reqs)"
    and "sends False (g\<lparr>sc_k := k, sc_removed := (sc_removed g \<or> Block_remove_fd \<in> set reqs)\<rparr>) g'"
  shows "sc_current g' = Some (b, True) \<and> sc_removed g' \<and> c_dead (sc_k g')"
proof -
  have "stranded b (g\<lparr>sc_k := k, sc_removed := (sc_removed g \<or> Block_remove_fd \<in> set reqs)\<rparr>)"
    using assms(1-3) by (auto simp: stranded_def closeconn_def)
  from stranded_sends [OF assms(4) this] show ?thesis by (simp add: stranded_def)
qed

theorem close_strands_sender_witness:
  "\<exists>g k reqs. sends False (send_init 3 0) g \<and> closeconn (sc_k g) = (k, reqs) \<and>
     (\<forall>g'. sends False (g\<lparr>sc_k := k, sc_removed := (sc_removed g \<or> Block_remove_fd \<in> set reqs)\<rparr>) g' \<longrightarrow>
        sc_current g' = Some (sample_cells, True))"
proof -
  obtain g where g: "sends False (send_init 3 0) g" "sc_current g = Some (sample_cells, True)" "\<not> c_dead (sc_k g)"
    using sample_send by blast
  obtain k reqs where k: "closeconn (sc_k g) = (k, reqs)" by (cases "closeconn (sc_k g)")
  from close_strands_sender [OF g(2,3) k] g(1) k show ?thesis by blast
qed

end
