(* ===== verification/Aio.thy ===== *)
theory Aio
  imports Connection
begin

text \<open>
  The two implementations of the interface \<open>aio_mgr\<close> of \<open>rpc/pollmgr.h\<close>: \<open>SelectAIO\<close>, which
  \<open>PollMgr\<close> uses, and \<open>EPollAIO\<close>, its alternative (\<open>rpc/pollmgr.cc\<close>).

  The contract of the interface is the locale \<open>aio\<close>: the sets of descriptors watched for
  reading and for writing, how \<open>watch_fd\<close> and \<open>unwatch_fd\<close> change them, and that
  \<open>unwatch_fd\<close> tells whether the descriptor is still watched at all. Both implementations are
  interpretations of it. \<open>is_watched\<close> is not part of the contract: the one of \<open>EPollAIO\<close> masks
  with \<open>CB_MASK\<close>, the complement of the flags, and never finds anything.
\<close>

abbreviation MAX_POLL_FDS :: nat where
  "MAX_POLL_FDS \<equiv> 128"

section \<open>The interface\<close>

definition rd_fds :: "nat \<Rightarrow> poll_flag \<Rightarrow> nat set" where
  "rd_fds fd flag = (if flag = CB_WRONLY then {} else {fd})"

definition wr_fds :: "nat \<Rightarrow> poll_flag \<Rightarrow> nat set" where
  "wr_fds fd flag = (if flag = CB_RDONLY then {} else {fd})"

definition proper :: "poll_flag \<Rightarrow> bool" where
  "proper flag \<longleftrightarrow> flag = CB_RDONLY \<or> flag = CB_WRONLY \<or> flag = CB_RDWR"

locale aio =
  fixes watch :: "'a \<Rightarrow> nat \<Rightarrow> poll_flag \<Rightarrow> 'a option"
    and unwatch :: "'a \<Rightarrow> nat \<Rightarrow> poll_flag \<Rightarrow> (bool \<times> 'a) option"
    and rd :: "'a \<Rightarrow> nat set" and wr :: "'a \<Rightarrow> nat set"
    and inv :: "'a \<Rightarrow> bool"
    and own :: "'a \<Rightarrow> nat set"
  assumes watch_ok: "inv a \<Longrightarrow> fd < MAX_POLL_FDS \<Longrightarrow> fd \<notin> own a \<Longrightarrow> proper flag \<Longrightarrow>
      \<exists>a'. watch a fd flag = Some a' \<and> inv a' \<and> own a' = own a \<and>
        rd a' = rd a \<union> rd_fds fd flag \<and> wr a' = wr a \<union> wr_fds fd flag"
    and unwatch_ok: "inv a \<Longrightarrow> fd \<in> rd a \<union> wr a \<Longrightarrow> fd < MAX_POLL_FDS \<Longrightarrow> fd \<notin> own a \<Longrightarrow> proper flag \<Longrightarrow>
      \<exists>a'. unwatch a fd flag = Some (fd \<notin> rd a' \<union> wr a', a') \<and> inv a' \<and> own a' = own a \<and>
        rd a' = rd a - rd_fds fd flag \<and> wr a' = wr a - wr_fds fd flag"
begin

text \<open>Unwatching what was watched restores the sets.\<close>

lemma watch_unwatch:
  assumes "inv a" and "fd < MAX_POLL_FDS" and "fd \<notin> own a" and "proper flag" and "fd \<notin> rd a \<union> wr a"
  shows "\<exists>a1 a2. watch a fd flag = Some a1 \<and> unwatch a1 fd flag = Some (True, a2) \<and> inv a2 \<and>
    rd a2 = rd a \<and> wr a2 = wr a"
proof -
  from watch_ok [OF assms(1-4)] obtain a1 where a1: "watch a fd flag = Some a1" "inv a1" "own a1 = own a"
    "rd a1 = rd a \<union> rd_fds fd flag" "wr a1 = wr a \<union> wr_fds fd flag" by blast
  have "fd \<in> rd a1 \<union> wr a1" using a1(4,5) assms(4) by (auto simp: rd_fds_def wr_fds_def proper_def)
  from unwatch_ok [OF a1(2) this assms(2) _ assms(4)] assms(3) a1(3) obtain a2
    where a2: "unwatch a1 fd flag = Some (fd \<notin> rd a2 \<union> wr a2, a2)" "inv a2"
      "rd a2 = rd a1 - rd_fds fd flag" "wr a2 = wr a1 - wr_fds fd flag" by auto
  have "rd a2 = rd a" "wr a2 = wr a"
    using a1(4,5) a2(3,4) assms(5) by (auto simp: rd_fds_def wr_fds_def split: if_splits)
  with a1(1) a2 assms(5) show ?thesis by auto
qed

end

section \<open>SelectAIO\<close>

record select_aio =
  sa_rfds :: "nat set"
  sa_wfds :: "nat set"
  sa_highfds :: nat
  sa_pipe :: nat
  sa_wakeups :: nat

definition select_aio_new :: "nat \<Rightarrow> select_aio" where
  "select_aio_new pipefd0 =
     \<lparr>sa_rfds = {pipefd0}, sa_wfds = {}, sa_highfds = pipefd0, sa_pipe = pipefd0, sa_wakeups = 0\<rparr>"

definition select_watch_fd :: "select_aio \<Rightarrow> nat \<Rightarrow> poll_flag \<Rightarrow> select_aio" where
  "select_watch_fd a fd flag =
     (let a = (if sa_highfds a \<le> fd then a\<lparr>sa_highfds := fd\<rparr> else a);
          a = (if flag = CB_RDONLY then a\<lparr>sa_rfds := insert fd (sa_rfds a)\<rparr>
               else if flag = CB_WRONLY then a\<lparr>sa_wfds := insert fd (sa_wfds a)\<rparr>
               else a\<lparr>sa_rfds := insert fd (sa_rfds a), sa_wfds := insert fd (sa_wfds a)\<rparr>)
      in a\<lparr>sa_wakeups := sa_wakeups a + 1\<rparr>)"

definition select_is_watched :: "select_aio \<Rightarrow> nat \<Rightarrow> poll_flag \<Rightarrow> bool" where
  "select_is_watched a fd flag =
     (if flag = CB_RDONLY then fd \<in> sa_rfds a
      else if flag = CB_WRONLY then fd \<in> sa_wfds a
      else fd \<in> sa_rfds a \<and> fd \<in> sa_wfds a)"

text \<open>The loop that looks for the new highest descriptor.\<close>

definition new_high :: "select_aio \<Rightarrow> nat" where
  "new_high a = foldl (\<lambda>newh i. if i \<in> sa_rfds a then i else if i \<in> sa_wfds a then i else newh)
     (sa_pipe a) [0..<sa_highfds a + 1]"

definition select_unwatch_fd :: "select_aio \<Rightarrow> nat \<Rightarrow> poll_flag \<Rightarrow> (bool \<times> select_aio) option" where
  "select_unwatch_fd a fd flag = do {
     a \<leftarrow> (if flag = CB_RDONLY then Some (a\<lparr>sa_rfds := sa_rfds a - {fd}\<rparr>)
          else if flag = CB_WRONLY then Some (a\<lparr>sa_wfds := sa_wfds a - {fd}\<rparr>)
          else if flag = CB_RDWR then Some (a\<lparr>sa_wfds := sa_wfds a - {fd}, sa_rfds := sa_rfds a - {fd}\<rparr>)
          else None);
     let a = (if fd \<notin> sa_rfds a \<and> fd \<notin> sa_wfds a \<and> fd = sa_highfds a then a\<lparr>sa_highfds := new_high a\<rparr> else a);
     let a = (if flag = CB_RDWR then a\<lparr>sa_wakeups := sa_wakeups a + 1\<rparr> else a);
     Some (fd \<notin> sa_rfds a \<and> fd \<notin> sa_wfds a, a)
   }"

text \<open>\<open>wait_ready\<close>: \<open>select\<close> gets the sets and \<open>high + 1\<close>, and answers with the descriptors that are
  ready (\<open>rdy\<close>, \<open>wdy\<close>) or an error, \<open>EINTR\<close> or another.\<close>

datatype select_result = Selected "nat set" "nat set" | Select_eintr | Select_error

definition select_wait_ready :: "select_aio \<Rightarrow> select_result \<Rightarrow> ((nat list \<times> nat list) \<times> select_aio) option" where
  "select_wait_ready a res =
     (case res of
        Select_eintr \<Rightarrow> Some (([], []), a)
      | Select_error \<Rightarrow> None
      | Selected rdy wdy \<Rightarrow>
          let fds = [0..<sa_highfds a + 1]; woken = sa_pipe a \<in> rdy \<and> sa_pipe a \<le> sa_highfds a in
          if woken \<and> sa_wakeups a = 0 then None
          else Some ((filter (\<lambda>fd. fd \<in> rdy \<and> fd \<noteq> sa_pipe a) fds,
                      filter (\<lambda>fd. fd \<in> wdy \<and> \<not> (fd = sa_pipe a \<and> woken)) fds),
                     if woken then a\<lparr>sa_wakeups := sa_wakeups a - 1\<rparr> else a))"

text \<open>The invariant: \<open>highfds_\<close> is the highest watched descriptor, so that \<open>select\<close> is asked about
  all of them.\<close>

definition select_inv :: "select_aio \<Rightarrow> bool" where
  "select_inv a \<longleftrightarrow> sa_pipe a \<in> sa_rfds a \<and> sa_highfds a \<in> sa_rfds a \<union> sa_wfds a \<and>
     (\<forall>fd \<in> sa_rfds a \<union> sa_wfds a. fd \<le> sa_highfds a)"

lemma select_inv_new: "select_inv (select_aio_new p)"
  by (simp add: select_inv_def select_aio_new_def)

lemma select_watch_effect:
  "proper flag \<Longrightarrow> sa_rfds (select_watch_fd a fd flag) = sa_rfds a \<union> rd_fds fd flag"
  "proper flag \<Longrightarrow> sa_wfds (select_watch_fd a fd flag) = sa_wfds a \<union> wr_fds fd flag"
  "sa_pipe (select_watch_fd a fd flag) = sa_pipe a"
  "sa_highfds (select_watch_fd a fd flag) = max (sa_highfds a) fd"
  by (auto simp: select_watch_fd_def rd_fds_def wr_fds_def proper_def Let_def max_def)

lemma select_watch_inv:
  assumes "select_inv a" and "proper flag"
  shows "select_inv (select_watch_fd a fd flag)"
proof -
  let ?a = "select_watch_fd a fd flag"
  have fds: "sa_rfds ?a \<union> sa_wfds ?a = insert fd (sa_rfds a \<union> sa_wfds a)" "sa_rfds a \<subseteq> sa_rfds ?a"
    using assms(2) by (auto simp: select_watch_effect rd_fds_def wr_fds_def proper_def)
  then show ?thesis
    using assms(1) unfolding select_inv_def fds(1) select_watch_effect(3,4)
    by (auto simp: max_def le_max_iff_disj intro: order_trans)
qed

lemma foldl_last_in:
  fixes p :: nat
  assumes "p \<in> S" and "p \<le> n"
  shows "foldl (\<lambda>h i. if i \<in> S then i else h) p [0..<n + 1] \<in> S \<and>
    (\<forall>i \<in> S. i \<le> n \<longrightarrow> i \<le> foldl (\<lambda>h i. if i \<in> S then i else h) p [0..<n + 1])"
proof -
  have "foldl (\<lambda>h i. if i \<in> S then i else h) p [0..<m] \<in> S \<and>
    (\<forall>i \<in> S. i < m \<longrightarrow> i \<le> foldl (\<lambda>h i. if i \<in> S then i else h) p [0..<m]) \<and>
    foldl (\<lambda>h i. if i \<in> S then i else h) p [0..<m] \<le> max p m" for m
    by (induction m) (use assms(1) in \<open>auto simp: less_Suc_eq\<close>)
  from this [of "n + 1"] show ?thesis by auto
qed

lemma new_high_max:
  assumes "sa_pipe a \<in> sa_rfds a" and "sa_pipe a \<le> sa_highfds a"
  shows "new_high a \<in> sa_rfds a \<union> sa_wfds a \<and>
    (\<forall>i \<in> sa_rfds a \<union> sa_wfds a. i \<le> sa_highfds a \<longrightarrow> i \<le> new_high a)"
proof -
  have "new_high a = foldl (\<lambda>h i. if i \<in> sa_rfds a \<union> sa_wfds a then i else h) (sa_pipe a) [0..<sa_highfds a + 1]"
    unfolding new_high_def by (rule foldl_cong) auto
  with foldl_last_in [of "sa_pipe a" "sa_rfds a \<union> sa_wfds a" "sa_highfds a"] assms show ?thesis by simp
qed

lemma select_unwatch_effect:
  assumes inv: "select_inv a" and fd: "fd \<noteq> sa_pipe a" and flag: "proper flag"
  shows "\<exists>a'. select_unwatch_fd a fd flag = Some (fd \<notin> sa_rfds a' \<union> sa_wfds a', a') \<and> select_inv a' \<and>
    sa_pipe a' = sa_pipe a \<and> sa_rfds a' = sa_rfds a - rd_fds fd flag \<and> sa_wfds a' = sa_wfds a - wr_fds fd flag"
proof -
  define b where "b = a\<lparr>sa_wfds := sa_wfds a - wr_fds fd flag, sa_rfds := sa_rfds a - rd_fds fd flag\<rparr>"
  define c where "c = (if fd \<notin> sa_rfds b \<and> fd \<notin> sa_wfds b \<and> fd = sa_highfds b
    then b\<lparr>sa_highfds := new_high b\<rparr> else b)"
  define d where "d = (if flag = CB_RDWR then c\<lparr>sa_wakeups := sa_wakeups c + 1\<rparr> else c)"
  have step: "select_unwatch_fd a fd flag = Some (fd \<notin> sa_rfds d \<union> sa_wfds d, d)"
    using flag by (auto simp: select_unwatch_fd_def d_def c_def b_def proper_def rd_fds_def wr_fds_def Let_def)
  have b: "sa_pipe b \<in> sa_rfds b" "sa_pipe b \<le> sa_highfds b" "sa_highfds b = sa_highfds a"
    "sa_rfds b \<union> sa_wfds b \<subseteq> sa_rfds a \<union> sa_wfds a"
    using inv fd by (auto simp: b_def select_inv_def rd_fds_def)
  have "select_inv c"
  proof (cases "fd \<notin> sa_rfds b \<and> fd \<notin> sa_wfds b \<and> fd = sa_highfds b")
    case True
    then show ?thesis
      using new_high_max [OF b(1,2)] b inv by (auto simp: c_def select_inv_def)
  next
    case False
    have "sa_highfds b \<in> sa_rfds b \<union> sa_wfds b"
      using False inv by (auto simp: b_def select_inv_def rd_fds_def wr_fds_def split: if_splits)
    then show ?thesis using False b inv by (auto simp: c_def select_inv_def)
  qed
  then have "select_inv d" by (simp add: d_def select_inv_def)
  with step show ?thesis by (auto simp: d_def c_def b_def)
qed

interpretation sel: aio "\<lambda>a fd flag. Some (select_watch_fd a fd flag)" select_unwatch_fd
  "\<lambda>a. sa_rfds a - {sa_pipe a}" sa_wfds "\<lambda>a. select_inv a \<and> sa_pipe a \<notin> sa_wfds a" "\<lambda>a. {sa_pipe a}"
proof (unfold_locales, goal_cases)
  case (1 a fd flag)
  then show ?case
    by (auto simp: select_watch_inv select_watch_effect rd_fds_def wr_fds_def)
next
  case (2 a fd flag)
  then show ?case
    using select_unwatch_effect [of a fd flag] by (auto simp: rd_fds_def wr_fds_def split: if_splits)
qed

section \<open>EPollAIO\<close>

text \<open>The flags as the integers the enumeration gives them.\<close>

fun flag_bits :: "poll_flag \<Rightarrow> u32" where
  "flag_bits CB_NONE = 0"
| "flag_bits CB_RDONLY = 0x1"
| "flag_bits CB_WRONLY = 0x10"
| "flag_bits CB_RDWR = 0x11"
| "flag_bits CB_MASK = NOT 0x11"

text \<open>\<open>ep_reg\<close> is the kernel's interest list, with the two events of each descriptor
  (\<open>EPOLLIN\<close>, \<open>EPOLLOUT\<close>): adding a registered descriptor, or changing or removing an
  unregistered one, makes \<open>epoll_ctl\<close> fail.\<close>

record epoll_aio =
  ep_status :: "nat \<Rightarrow> u32"
  ep_reg :: "nat \<Rightarrow> (bool \<times> bool) option"

definition epoll_events :: "u32 \<Rightarrow> bool \<times> bool" where
  "epoll_events st = (st AND 0x1 \<noteq> 0, st AND 0x10 \<noteq> 0)"

definition epoll_aio_new :: epoll_aio where
  "epoll_aio_new = \<lparr>ep_status = (\<lambda>_. 0), ep_reg = (\<lambda>_. None)\<rparr>"

definition epoll_watch_fd :: "epoll_aio \<Rightarrow> nat \<Rightarrow> poll_flag \<Rightarrow> epoll_aio option" where
  "epoll_watch_fd a fd flag =
     (if \<not> fd < MAX_POLL_FDS then None
      else let add = (ep_status a fd = 0);
               st = ep_status a fd OR flag_bits flag
        in if flag = CB_RDWR \<and> epoll_events st \<noteq> (True, True) then None
           else if add = (ep_reg a fd \<noteq> None) then None
           else Some (a\<lparr>ep_status := (ep_status a)(fd := st),
                       ep_reg := (ep_reg a)(fd := Some (epoll_events st))\<rparr>))"

definition epoll_unwatch_fd :: "epoll_aio \<Rightarrow> nat \<Rightarrow> poll_flag \<Rightarrow> (bool \<times> epoll_aio) option" where
  "epoll_unwatch_fd a fd flag =
     (if \<not> fd < MAX_POLL_FDS then None
      else let st = ep_status a fd AND NOT (flag_bits flag); del = (st = 0)
        in if flag = CB_RDWR \<and> \<not> del then None
           else if ep_reg a fd = None then None
           else Some (del, a\<lparr>ep_status := (ep_status a)(fd := st),
                            ep_reg := (ep_reg a)(fd := if del then None else Some (epoll_events st))\<rparr>))"

definition epoll_is_watched :: "epoll_aio \<Rightarrow> nat \<Rightarrow> poll_flag \<Rightarrow> bool option" where
  "epoll_is_watched a fd flag =
     (if fd < MAX_POLL_FDS then Some (ep_status a fd AND flag_bits CB_MASK = flag_bits flag) else None)"

text \<open>The events that belong to a flag; the source does not use this function.\<close>

definition poll_flag_to_event :: "poll_flag \<Rightarrow> bool \<times> bool" where
  "poll_flag_to_event flag =
     (if flag = CB_RDONLY then (True, False) else if flag = CB_WRONLY then (False, True) else (True, True))"

text \<open>The events of \<open>epoll_wait\<close>, with the readable and the writable bit of each.\<close>

fun epoll_wait_ready :: "(nat \<times> bool \<times> bool) list \<Rightarrow> nat list \<times> nat list" where
  "epoll_wait_ready [] = ([], [])"
| "epoll_wait_ready ((fd, inp, outp) # evs) =
     (let (r, w) = epoll_wait_ready evs in (if inp then fd # r else r, if outp then fd # w else w))"

definition epoll_inv :: "epoll_aio \<Rightarrow> bool" where
  "epoll_inv a \<longleftrightarrow>
     (\<forall>fd. ep_status a fd \<in> {0, 0x1, 0x10, 0x11} \<and>
        ep_reg a fd = (if ep_status a fd = 0 then None else Some (epoll_events (ep_status a fd))))"

abbreviation ep_rd :: "epoll_aio \<Rightarrow> nat set" where
  "ep_rd a \<equiv> {fd. ep_status a fd AND 0x1 \<noteq> 0}"

abbreviation ep_wr :: "epoll_aio \<Rightarrow> nat set" where
  "ep_wr a \<equiv> {fd. ep_status a fd AND 0x10 \<noteq> 0}"

lemma epoll_inv_new: "epoll_inv epoll_aio_new"
  by (simp add: epoll_inv_def epoll_aio_new_def)

lemma epoll_inv_at: "epoll_inv a \<Longrightarrow> ep_status a fd = 0 \<or> ep_status a fd = 0x1 \<or> ep_status a fd = 0x10 \<or> ep_status a fd = 0x11"
  by (auto simp: epoll_inv_def)

definition ep_states :: "u32 set" where
  "ep_states = {0, 0x1, 0x10, 0x11}"

lemma zero_in_ep_states [simp]: "0 \<in> ep_states"
  by (simp add: ep_states_def)

lemma ep_zero: "x \<in> ep_states \<Longrightarrow> x = 0 \<longleftrightarrow> x AND 0x1 = 0 \<and> x AND 0x10 = 0"
  by (auto simp: ep_states_def)

lemma epoll_events_flag: "proper f \<Longrightarrow> epoll_events (flag_bits f) = poll_flag_to_event f"
  by (auto simp: proper_def epoll_events_def poll_flag_to_event_def)

lemma ep_or:
  assumes "x \<in> ep_states" and "proper f"
  shows "x OR flag_bits f \<in> ep_states" and "x OR flag_bits f \<noteq> 0"
    and "(x OR flag_bits f) AND 0x1 \<noteq> 0 \<longleftrightarrow> x AND 0x1 \<noteq> 0 \<or> f \<noteq> CB_WRONLY"
    and "(x OR flag_bits f) AND 0x10 \<noteq> 0 \<longleftrightarrow> x AND 0x10 \<noteq> 0 \<or> f \<noteq> CB_RDONLY"
  using assms by (auto simp: ep_states_def proper_def)

lemma ep_and:
  assumes "x \<in> ep_states" and "proper f"
  shows "x AND NOT (flag_bits f) \<in> ep_states" and "f = CB_RDWR \<Longrightarrow> x AND NOT (flag_bits f) = 0"
    and "(x AND NOT (flag_bits f)) AND 0x1 \<noteq> 0 \<longleftrightarrow> x AND 0x1 \<noteq> 0 \<and> f = CB_WRONLY"
    and "(x AND NOT (flag_bits f)) AND 0x10 \<noteq> 0 \<longleftrightarrow> x AND 0x10 \<noteq> 0 \<and> f = CB_RDONLY"
  using assms by (auto simp: ep_states_def proper_def)

lemma epoll_inv_iff: "epoll_inv a \<longleftrightarrow> (\<forall>fd. ep_status a fd \<in> ep_states \<and>
    ep_reg a fd = (if ep_status a fd = 0 then None else Some (epoll_events (ep_status a fd))))"
  by (simp add: epoll_inv_def ep_states_def)

interpretation ep: aio epoll_watch_fd epoll_unwatch_fd ep_rd ep_wr epoll_inv "\<lambda>_. {}"
proof (unfold_locales, goal_cases)
  case (1 a fd flag)
  have st: "ep_status a fd \<in> ep_states" "ep_reg a fd \<noteq> None \<longleftrightarrow> ep_status a fd \<noteq> 0"
    using 1(1) by (auto simp: epoll_inv_iff)
  note b = ep_or [OF st(1) 1(4)]
  define x where "x = ep_status a fd OR flag_bits flag"
  define a' where "a' = a\<lparr>ep_status := (ep_status a)(fd := x), ep_reg := (ep_reg a)(fd := Some (epoll_events x))\<rparr>"
  have "epoll_watch_fd a fd flag = Some a'"
    using 1(2) st(2) b(3,4) unfolding epoll_watch_fd_def Let_def a'_def x_def epoll_events_def by auto
  moreover have "epoll_inv a'" using 1(1) b(1,2) by (simp add: a'_def x_def [symmetric] epoll_inv_iff)
  moreover have "ep_rd a' = ep_rd a \<union> rd_fds fd flag" "ep_wr a' = ep_wr a \<union> wr_fds fd flag"
    using b(3,4) by (auto simp: a'_def x_def [symmetric] rd_fds_def wr_fds_def split: if_splits)
  ultimately show ?case by blast
next
  case (2 a fd flag)
  have st: "ep_status a fd \<in> ep_states" "ep_reg a fd \<noteq> None \<longleftrightarrow> ep_status a fd \<noteq> 0"
    using 2(1) by (auto simp: epoll_inv_iff)
  note b = ep_and [OF st(1) 2(5)]
  define x where "x = ep_status a fd AND NOT (flag_bits flag)"
  define a' where "a' = a\<lparr>ep_status := (ep_status a)(fd := x),
    ep_reg := (ep_reg a)(fd := if x = 0 then None else Some (epoll_events x))\<rparr>"
  have reg: "ep_reg a fd \<noteq> None" using 2(2) st ep_zero [OF st(1)] by auto
  then have "epoll_unwatch_fd a fd flag = Some (x = 0, a')"
    using 2(3) b(2) unfolding epoll_unwatch_fd_def Let_def a'_def x_def by auto
  moreover have "x = 0 \<longleftrightarrow> fd \<notin> ep_rd a' \<union> ep_wr a'" using ep_zero [OF b(1)] by (auto simp: a'_def x_def)
  moreover have "epoll_inv a'" using 2(1) b(1) by (simp add: a'_def x_def [symmetric] epoll_inv_iff)
  moreover have "ep_rd a' = ep_rd a - rd_fds fd flag" "ep_wr a' = ep_wr a - wr_fds fd flag"
    using b(3,4) by (auto simp: a'_def x_def [symmetric] rd_fds_def wr_fds_def split: if_splits)
  ultimately show ?case by auto
qed

section \<open>Properties\<close>

text \<open>
  \<open>SelectAIO\<close> always asks \<open>select\<close> about every watched descriptor: \<open>watch_fd\<close> and
  \<open>unwatch_fd\<close>, with the search for the new highest descriptor, keep \<open>highfds_\<close> the maximum of
  the watched ones, change the two sets exactly as asked, and \<open>unwatch_fd\<close> returns whether the
  descriptor is not watched any more.
\<close>

lemma select_tracks_highest:
  assumes "select_inv a" and "proper flag" and "fd \<noteq> sa_pipe a"
  shows "select_inv (select_watch_fd a fd flag) \<and>
    sa_rfds (select_watch_fd a fd flag) = sa_rfds a \<union> rd_fds fd flag \<and>
    sa_wfds (select_watch_fd a fd flag) = sa_wfds a \<union> wr_fds fd flag \<and>
    (\<exists>a'. select_unwatch_fd a fd flag = Some (fd \<notin> sa_rfds a' \<union> sa_wfds a', a') \<and> select_inv a' \<and>
       sa_rfds a' = sa_rfds a - rd_fds fd flag \<and> sa_wfds a' = sa_wfds a - wr_fds fd flag)"
  using select_watch_inv [OF assms(1,2), of fd] select_watch_effect(1,2) [OF assms(2), of a fd]
    select_unwatch_effect [OF assms(1,3,2)] by auto

text \<open>
  \<open>EPollAIO::is_watched\<close> answers false for every descriptor and every of the three flags,
  watched or not: the mask it applies removes exactly the bits it looks for.
\<close>

lemma epoll_is_watched_always_false:
  assumes "epoll_inv a" and "fd < MAX_POLL_FDS" and "proper flag"
  shows "epoll_is_watched a fd flag = Some False"
proof -
  have "ep_status a fd \<in> ep_states" using assms(1) by (simp add: epoll_inv_iff)
  then have "ep_status a fd AND flag_bits CB_MASK = 0" by (auto simp: ep_states_def)
  moreover have "flag_bits flag \<noteq> 0" using assms(3) by (auto simp: proper_def)
  ultimately show ?thesis using assms(2) by (simp add: epoll_is_watched_def)
qed

end
