(* ===== verification/PollMgr.thy ===== *)
theory PollMgr
  imports Aio
begin

text \<open>
  The class \<open>PollMgr\<close> of \<open>rpc/pollmgr.h\<close> and \<open>rpc/pollmgr.cc\<close>: the table of callbacks and the
  loop of the poll thread. The operations take the \<open>aio_mgr\<close> they call as arguments; their
  effect on the table is proved in the locale \<open>aio\<close>.

  \<open>block_remove_fd\<close> promises that, once it returns, no callback for the descriptor will be made
  again. It waits until the poll thread passes the top of its loop. The step relation
  \<open>pstep\<close> interleaves the poll thread, over \<open>SelectAIO\<close>, with threads that add, delete and
  remove callbacks; the invariant follows a removed descriptor through the snapshot of the
  sets that \<open>wait_ready\<close> takes and the list of ready descriptors. A \<open>pthread_cond_wait\<close> that
  wakes up without a broadcast is not modelled; the code does not guard against it.
\<close>

section \<open>The operations\<close>

record 'a pollmgr =
  pm_callbacks :: "nat \<Rightarrow> nat option"
  pm_aio :: 'a
  pm_pending :: bool

definition pollmgr_new :: "'a \<Rightarrow> 'a pollmgr" where
  "pollmgr_new a0 = \<lparr>pm_callbacks = (\<lambda>_. None), pm_aio = a0, pm_pending = False\<rparr>"

text \<open>The only object of the class, made at the first call of \<open>Instance\<close>: the static pointer and the state of \<open>pthread_once\<close>.
  \<open>p\<close> is what \<open>new PollMgr()\<close> would return.\<close>

record 'p pollmgr_static =
  ps_instance :: "'p option"
  ps_initialized :: bool

definition PollMgrInit :: "'p \<Rightarrow> 'p pollmgr_static \<Rightarrow> 'p pollmgr_static" where
  "PollMgrInit p st = st\<lparr>ps_instance := Some p\<rparr>"

definition Instance :: "'p \<Rightarrow> 'p pollmgr_static \<Rightarrow> 'p option \<times> 'p pollmgr_static" where
  "Instance p st =
     (let st = (if ps_initialized st then st else (PollMgrInit p st)\<lparr>ps_initialized := True\<rparr>) in (ps_instance st, st))"

fun instances :: "'p list \<Rightarrow> 'p pollmgr_static \<Rightarrow> 'p option list" where
  "instances [] st = []"
| "instances (p # ps) st = (case Instance p st of (i, st) \<Rightarrow> i # instances ps st)"

definition set_callback :: "'a pollmgr \<Rightarrow> nat \<Rightarrow> nat option \<Rightarrow> 'a pollmgr" where
  "set_callback p fd ch = p\<lparr>pm_callbacks := (pm_callbacks p)(fd := ch)\<rparr>"

definition add_callback ::
  "('a \<Rightarrow> nat \<Rightarrow> poll_flag \<Rightarrow> 'a option) \<Rightarrow> 'a pollmgr \<Rightarrow> nat \<Rightarrow> poll_flag \<Rightarrow> nat \<Rightarrow> 'a pollmgr option" where
  "add_callback watch p fd flag ch =
     (if \<not> fd < MAX_POLL_FDS then None
      else do {
        a \<leftarrow> watch (pm_aio p) fd flag;
        if pm_callbacks p fd = None \<or> pm_callbacks p fd = Some ch
        then Some (set_callback (p\<lparr>pm_aio := a\<rparr>) fd (Some ch)) else None
      })"

text \<open>\<open>block_remove_fd\<close> up to its wait, and after it. \<open>callbacks_[fd]\<close> is out of range for a
  descriptor of 128 or more.\<close>

definition block_remove_begin ::
  "('a \<Rightarrow> nat \<Rightarrow> poll_flag \<Rightarrow> (bool \<times> 'a) option) \<Rightarrow> 'a pollmgr \<Rightarrow> nat \<Rightarrow> 'a pollmgr option" where
  "block_remove_begin unwatch p fd = do {
     (_, a) \<leftarrow> unwatch (pm_aio p) fd CB_RDWR;
     Some (p\<lparr>pm_aio := a, pm_pending := True\<rparr>)
   }"

definition block_remove_end :: "'a pollmgr \<Rightarrow> nat \<Rightarrow> 'a pollmgr option" where
  "block_remove_end p fd = (if fd < MAX_POLL_FDS then Some (set_callback p fd None) else None)"

definition del_callback ::
  "('a \<Rightarrow> nat \<Rightarrow> poll_flag \<Rightarrow> (bool \<times> 'a) option) \<Rightarrow> 'a pollmgr \<Rightarrow> nat \<Rightarrow> poll_flag \<Rightarrow> 'a pollmgr option" where
  "del_callback unwatch p fd flag = do {
     (gone, a) \<leftarrow> unwatch (pm_aio p) fd flag;
     let p = p\<lparr>pm_aio := a\<rparr>;
     if gone then (if fd < MAX_POLL_FDS then Some (set_callback p fd None) else None) else Some p
   }"

definition has_callback ::
  "('a \<Rightarrow> nat \<Rightarrow> poll_flag \<Rightarrow> bool) \<Rightarrow> 'a pollmgr \<Rightarrow> nat \<Rightarrow> poll_flag \<Rightarrow> nat \<Rightarrow> bool option" where
  "has_callback is_watched p fd flag c =
     (if \<not> fd < MAX_POLL_FDS then None
      else if pm_callbacks p fd \<noteq> Some c then Some False
      else Some (is_watched (pm_aio p) fd flag))"

text \<open>The top of \<open>wait_loop\<close>: whether the waiting removers are woken.\<close>

definition wait_loop_top :: "'a pollmgr \<Rightarrow> bool \<times> 'a pollmgr" where
  "wait_loop_top p = (if pm_pending p then (True, p\<lparr>pm_pending := False\<rparr>) else (False, p))"

text \<open>What the loop does with the ready descriptors: the callbacks it makes, reads first.\<close>

definition wait_loop_calls :: "'a pollmgr \<Rightarrow> nat list \<Rightarrow> nat list \<Rightarrow> (nat \<times> nat \<times> bool) list" where
  "wait_loop_calls p readable writable =
     [(fd, the (pm_callbacks p fd), False). fd \<leftarrow> readable, pm_callbacks p fd \<noteq> None] @
     [(fd, the (pm_callbacks p fd), True). fd \<leftarrow> writable, pm_callbacks p fd \<noteq> None]"

section \<open>The only object\<close>

text \<open>All calls of \<open>Instance\<close> return the object that the first of them made.\<close>

lemma instances_initialized:
  "ps_initialized st \<Longrightarrow> instances ps st = replicate (length ps) (ps_instance st)"
  by (induction ps) (simp_all add: Instance_def)

lemma one_instance:
  "instances (p # ps) \<lparr>ps_instance = None, ps_initialized = False\<rparr> = replicate (Suc (length ps)) (Some p)"
  by (simp add: Instance_def PollMgrInit_def instances_initialized)

section \<open>The table of callbacks\<close>

definition table_ok :: "nat set \<Rightarrow> 'a pollmgr \<Rightarrow> bool" where
  "table_ok W p \<longleftrightarrow> (\<forall>fd. fd \<in> W \<longrightarrow> pm_callbacks p fd \<noteq> None)"

context aio
begin

lemma add_callback_ok:
  assumes "inv (pm_aio p)" and "table_ok (rd (pm_aio p) \<union> wr (pm_aio p)) p"
    and "fd < MAX_POLL_FDS" and "fd \<notin> own (pm_aio p)" and "proper flag" and "pm_callbacks p fd \<in> {None, Some ch}"
  shows "\<exists>p'. add_callback watch p fd flag ch = Some p' \<and> inv (pm_aio p') \<and>
    table_ok (rd (pm_aio p') \<union> wr (pm_aio p')) p' \<and> pm_callbacks p' fd = Some ch \<and>
    rd_fds fd flag \<subseteq> rd (pm_aio p') \<and> wr_fds fd flag \<subseteq> wr (pm_aio p')"
proof -
  from watch_ok [OF assms(1,3-5)] obtain a' where a': "watch (pm_aio p) fd flag = Some a'" "inv a'"
    "rd a' = rd (pm_aio p) \<union> rd_fds fd flag" "wr a' = wr (pm_aio p) \<union> wr_fds fd flag" by blast
  with assms(2,3,6) show ?thesis
    by (auto simp: add_callback_def set_callback_def table_ok_def rd_fds_def wr_fds_def)
qed

lemma add_callback_own:
  assumes "inv (pm_aio p)" and "fd < MAX_POLL_FDS" and "fd \<notin> own (pm_aio p)" and "proper flag"
    and "add_callback watch p fd flag ch = Some p'"
  shows "own (pm_aio p') = own (pm_aio p)"
  using watch_ok [OF assms(1-4)] assms(5) by (auto simp: add_callback_def set_callback_def split: if_splits)

lemma del_callback_ok:
  assumes "inv (pm_aio p)" and "table_ok (rd (pm_aio p) \<union> wr (pm_aio p)) p"
    and "fd \<in> rd (pm_aio p) \<union> wr (pm_aio p)" and "fd < MAX_POLL_FDS" and "fd \<notin> own (pm_aio p)" and "proper flag"
  shows "\<exists>p'. del_callback unwatch p fd flag = Some p' \<and> inv (pm_aio p') \<and>
    table_ok (rd (pm_aio p') \<union> wr (pm_aio p')) p' \<and>
    (pm_callbacks p' fd = None \<longleftrightarrow> fd \<notin> rd (pm_aio p') \<union> wr (pm_aio p')) \<and>
    (flag = CB_RDWR \<longrightarrow> pm_callbacks p' fd = None)"
proof -
  from unwatch_ok [OF assms(1,3-6)] obtain a'
    where a': "unwatch (pm_aio p) fd flag = Some (fd \<notin> rd a' \<union> wr a', a')" "inv a'"
      "rd a' = rd (pm_aio p) - rd_fds fd flag" "wr a' = wr (pm_aio p) - wr_fds fd flag" by blast
  have "pm_callbacks p fd \<noteq> None" using assms(2,3) by (auto simp: table_ok_def)
  with a' assms(2,4) show ?thesis
    by (auto simp: del_callback_def set_callback_def table_ok_def rd_fds_def wr_fds_def Let_def)
qed

lemma add_then_del:
  assumes "inv (pm_aio p)" and "table_ok (rd (pm_aio p) \<union> wr (pm_aio p)) p"
    and "fd < MAX_POLL_FDS" and "fd \<notin> own (pm_aio p)" and "proper flag" and "pm_callbacks p fd \<in> {None, Some ch}"
  shows "\<exists>p1 p2. add_callback watch p fd flag ch = Some p1 \<and> pm_callbacks p1 fd = Some ch \<and>
    table_ok (rd (pm_aio p1) \<union> wr (pm_aio p1)) p1 \<and>
    del_callback unwatch p1 fd CB_RDWR = Some p2 \<and> pm_callbacks p2 fd = None \<and>
    table_ok (rd (pm_aio p2) \<union> wr (pm_aio p2)) p2"
proof -
  from add_callback_ok [OF assms] obtain p1
    where p1: "add_callback watch p fd flag ch = Some p1" "inv (pm_aio p1)"
      "table_ok (rd (pm_aio p1) \<union> wr (pm_aio p1)) p1" "pm_callbacks p1 fd = Some ch"
      "rd_fds fd flag \<subseteq> rd (pm_aio p1)" "wr_fds fd flag \<subseteq> wr (pm_aio p1)" by blast
  have own: "fd \<notin> own (pm_aio p1)"
    using add_callback_own [OF assms(1,3-5) p1(1)] assms(4) by simp
  have fd: "fd \<in> rd (pm_aio p1) \<union> wr (pm_aio p1)"
    using p1(5,6) by (auto simp: rd_fds_def wr_fds_def split: if_splits)
  from del_callback_ok [OF p1(2,3) fd assms(3) own, of CB_RDWR] p1(1,3,4)
  show ?thesis by (auto simp: proper_def)
qed

end

section \<open>The poll thread and the threads that remove descriptors\<close>

datatype poll_phase = Top | Before_wait | Selecting select_aio | Dispatching "nat list"

record poll_config =
  pc_mgr :: "select_aio pollmgr"
  pc_phase :: poll_phase
  pc_waiting :: "nat list"
  pc_woken :: "nat list"
  pc_gone :: "nat set"

abbreviation sel_watch :: "select_aio \<Rightarrow> nat \<Rightarrow> poll_flag \<Rightarrow> select_aio option" where
  "sel_watch \<equiv> (\<lambda>a fd flag. Some (select_watch_fd a fd flag))"

definition poll_init :: "nat \<Rightarrow> poll_config" where
  "poll_init pipefd0 = \<lparr>pc_mgr = pollmgr_new (select_aio_new pipefd0), pc_phase = Top, pc_waiting = [],
     pc_woken = [], pc_gone = {}\<rparr>"

inductive pstep :: "poll_config \<Rightarrow> poll_config \<Rightarrow> bool" where
  top: "pc_phase g = Top \<Longrightarrow> wait_loop_top (pc_mgr g) = (wake, p) \<Longrightarrow>
    pstep g (g\<lparr>pc_mgr := p, pc_phase := Before_wait,
      pc_woken := (if wake then pc_woken g @ pc_waiting g else pc_woken g),
      pc_waiting := (if wake then [] else pc_waiting g)\<rparr>)"
| snapshot: "pc_phase g = Before_wait \<Longrightarrow> pstep g (g\<lparr>pc_phase := Selecting (pm_aio (pc_mgr g))\<rparr>)"
| selected: "pc_phase g = Selecting a \<Longrightarrow> rdy \<subseteq> sa_rfds a \<Longrightarrow> wdy \<subseteq> sa_wfds a \<Longrightarrow>
    select_wait_ready (a\<lparr>sa_wakeups := sa_wakeups (pm_aio (pc_mgr g))\<rparr>) (Selected rdy wdy) = Some ((r, w), a') \<Longrightarrow>
    pstep g (g\<lparr>pc_phase := Dispatching (r @ w),
      pc_mgr := (pc_mgr g)\<lparr>pm_aio := (pm_aio (pc_mgr g))\<lparr>sa_wakeups := sa_wakeups a'\<rparr>\<rparr>\<rparr>)"
| interrupted: "pc_phase g = Selecting a \<Longrightarrow> pstep g (g\<lparr>pc_phase := Top\<rparr>)"
| dispatch: "pc_phase g = Dispatching (fd # fds) \<Longrightarrow> pstep g (g\<lparr>pc_phase := Dispatching fds\<rparr>)"
| round_done: "pc_phase g = Dispatching [] \<Longrightarrow> pstep g (g\<lparr>pc_phase := Top\<rparr>)"
| add: "add_callback sel_watch (pc_mgr g) fd flag ch = Some p \<Longrightarrow> proper flag \<Longrightarrow>
    fd \<notin> set (pc_waiting g) \<Longrightarrow> fd \<notin> set (pc_woken g) \<Longrightarrow>
    pstep g (g\<lparr>pc_mgr := p, pc_gone := pc_gone g - {fd}\<rparr>)"
| delete: "del_callback select_unwatch_fd (pc_mgr g) fd flag = Some p \<Longrightarrow> pstep g (g\<lparr>pc_mgr := p\<rparr>)"
| remove: "block_remove_begin select_unwatch_fd (pc_mgr g) fd = Some p \<Longrightarrow>
    pstep g (g\<lparr>pc_mgr := p, pc_waiting := fd # pc_waiting g\<rparr>)"
| removed: "pc_woken g = xs @ fd # ys \<Longrightarrow> block_remove_end (pc_mgr g) fd = Some p \<Longrightarrow> fd \<notin> set (pc_waiting g) \<Longrightarrow>
    pstep g (g\<lparr>pc_mgr := p, pc_woken := xs @ ys, pc_gone := insert fd (pc_gone g)\<rparr>)"

inductive preach :: "nat \<Rightarrow> poll_config \<Rightarrow> bool" for pipefd0 where
  start: "preach pipefd0 (poll_init pipefd0)"
| step: "preach pipefd0 g \<Longrightarrow> pstep g g' \<Longrightarrow> preach pipefd0 g'"

text \<open>Where a descriptor can still lead to a callback.\<close>

definition watched :: "select_aio \<Rightarrow> nat set" where
  "watched a = sa_rfds a \<union> sa_wfds a"

fun in_flight :: "poll_phase \<Rightarrow> nat set" where
  "in_flight Top = {}"
| "in_flight Before_wait = {}"
| "in_flight (Selecting a) = watched a"
| "in_flight (Dispatching fds) = set fds"

definition poll_inv :: "nat \<Rightarrow> poll_config \<Rightarrow> bool" where
  "poll_inv fd g \<longleftrightarrow>
     (fd \<in> set (pc_waiting g) \<longrightarrow> fd \<notin> watched (pm_aio (pc_mgr g)) \<and> pm_pending (pc_mgr g)) \<and>
     (fd \<in> set (pc_woken g) \<or> fd \<in> pc_gone g \<longrightarrow>
        fd \<notin> watched (pm_aio (pc_mgr g)) \<and> fd \<notin> in_flight (pc_phase g)) \<and>
     (fd \<in> pc_gone g \<longrightarrow> pm_callbacks (pc_mgr g) fd = None)"

lemma watched_watch: "proper flag \<Longrightarrow> watched (select_watch_fd a x flag) = insert x (watched a)"
  by (auto simp: watched_def select_watch_effect rd_fds_def wr_fds_def proper_def)

lemma watched_unwatch:
  "select_unwatch_fd a x flag = Some (gone, a') \<Longrightarrow> fd \<in> watched a' \<Longrightarrow> fd \<in> watched a"
  by (auto simp: select_unwatch_fd_def watched_def Let_def elim!: bind_SomeE split: if_splits)

lemma watched_unwatch_all:
  "select_unwatch_fd a x CB_RDWR = Some (gone, a') \<Longrightarrow> x \<notin> watched a'"
  by (auto simp: select_unwatch_fd_def watched_def Let_def split: if_splits)

lemma select_wait_ready_subset:
  "select_wait_ready a (Selected rdy wdy) = Some ((r, w), a') \<Longrightarrow> set r \<subseteq> rdy \<and> set w \<subseteq> wdy"
  by (auto simp: select_wait_ready_def Let_def split: if_splits)

lemma poll_inv_step:
  assumes "pstep g g'" and "poll_inv fd g"
  shows "poll_inv fd g'"
  using assms
proof (induction rule: pstep.induct)
  case (top g wake p)
  then show ?case by (auto simp: poll_inv_def wait_loop_top_def split: if_splits)
next
  case (snapshot g)
  then show ?case by (auto simp: poll_inv_def)
next
  case (selected g a rdy wdy r w a')
  then show ?case using select_wait_ready_subset [OF selected.hyps(4)] by (auto simp: poll_inv_def watched_def)
next
  case (add g x flag ch p)
  then show ?case
    by (auto simp: poll_inv_def add_callback_def set_callback_def watched_watch split: if_splits)
next
  case (delete g x flag p)
  from delete.hyps obtain gone a where a: "select_unwatch_fd (pm_aio (pc_mgr g)) x flag = Some (gone, a)"
    and p: "p = (pc_mgr g)\<lparr>pm_aio := a\<rparr> \<or> p = set_callback ((pc_mgr g)\<lparr>pm_aio := a\<rparr>) x None"
    by (auto simp: del_callback_def Let_def elim!: bind_SomeE split: if_splits)
  have "fd \<notin> watched (pm_aio (pc_mgr g)) \<Longrightarrow> fd \<notin> watched a" using watched_unwatch [OF a] by blast
  with delete.prems p show ?case by (auto simp: poll_inv_def set_callback_def)
next
  case (remove g x p)
  from remove.hyps obtain gone a where a: "select_unwatch_fd (pm_aio (pc_mgr g)) x CB_RDWR = Some (gone, a)"
    and p: "p = (pc_mgr g)\<lparr>pm_aio := a, pm_pending := True\<rparr>"
    by (auto simp: block_remove_begin_def elim!: bind_SomeE)
  have "fd \<notin> watched (pm_aio (pc_mgr g)) \<Longrightarrow> fd \<notin> watched a" "x \<notin> watched a"
    using watched_unwatch [OF a] watched_unwatch_all [OF a] by blast+
  with remove.prems p show ?case by (auto simp: poll_inv_def)
next
  case (removed g xs x ys p)
  then show ?case by (auto simp: poll_inv_def block_remove_end_def set_callback_def split: if_splits)
qed (auto simp: poll_inv_def)

lemma preach_inv: "preach pipefd0 g \<Longrightarrow> poll_inv fd g"
proof (induction rule: preach.induct)
  case start
  show ?case by (simp add: poll_inv_def poll_init_def)
next
  case (step g g')
  then show ?case by (blast intro: poll_inv_step)
qed

section \<open>Properties\<close>

text \<open>
  C8: The promise of \<open>block_remove_fd\<close>. In every interleaving of the poll thread with threads
  that add, delete and remove callbacks: once \<open>block_remove_fd(fd)\<close> has returned, and until a
  callback for \<open>fd\<close> is added again, \<open>fd\<close> is neither watched nor in the sets the poll thread
  waits on nor among the descriptors it is about to serve, and has no callback.
\<close>

theorem removed_fd_never_called:
  assumes "preach pipefd0 g" and "fd \<in> pc_gone g"
  shows "fd \<notin> watched (pm_aio (pc_mgr g)) \<and> fd \<notin> in_flight (pc_phase g) \<and> pm_callbacks (pc_mgr g) fd = None"
  using preach_inv [OF assms(1), of fd] assms(2) by (simp add: poll_inv_def)

text \<open>A descriptor is added, then removed while the poll thread starts a round.\<close>

lemma sample_removal: "\<exists>g. preach 3 g \<and> 5 \<in> pc_gone g"
proof -
  let ?g0 = "poll_init 3"
  obtain p1 where p1: "add_callback sel_watch (pc_mgr ?g0) 5 CB_RDONLY 0 = Some p1"
    by (simp add: add_callback_def poll_init_def pollmgr_new_def)
  let ?g1 = "?g0\<lparr>pc_mgr := p1, pc_gone := pc_gone ?g0 - {5}\<rparr>"
  have "pstep ?g0 ?g1" by (rule pstep.add [OF p1]) (simp_all add: proper_def poll_init_def)
  with preach.start have 1: "preach 3 ?g1" by (rule preach.step)
  obtain p2 where p2: "block_remove_begin select_unwatch_fd (pc_mgr ?g1) 5 = Some p2" "pm_pending p2"
    by (auto simp: block_remove_begin_def select_unwatch_fd_def Let_def)
  let ?g2 = "?g1\<lparr>pc_mgr := p2, pc_waiting := 5 # pc_waiting ?g1\<rparr>"
  have "pstep ?g1 ?g2" by (rule pstep.remove [OF p2(1)])
  with 1 have 2: "preach 3 ?g2" by (rule preach.step)
  let ?g3 = "?g2\<lparr>pc_mgr := p2\<lparr>pm_pending := False\<rparr>, pc_phase := Before_wait,
      pc_woken := (if True then pc_woken ?g2 @ pc_waiting ?g2 else pc_woken ?g2),
      pc_waiting := (if True then [] else pc_waiting ?g2)\<rparr>"
  have "pstep ?g2 ?g3"
    by (rule pstep.top) (simp_all add: poll_init_def wait_loop_top_def p2(2))
  with 2 have 3: "preach 3 ?g3" by (rule preach.step)
  obtain p4 where p4: "block_remove_end (pc_mgr ?g3) 5 = Some p4" by (simp add: block_remove_end_def)
  have "pstep ?g3 (?g3\<lparr>pc_mgr := p4, pc_woken := [] @ [], pc_gone := insert 5 (pc_gone ?g3)\<rparr>)"
    by (rule pstep.removed [OF _ p4]) (simp_all add: poll_init_def)
  with 3 have "preach 3 (?g3\<lparr>pc_mgr := p4, pc_woken := [] @ [], pc_gone := insert 5 (pc_gone ?g3)\<rparr>)"
    by (rule preach.step)
  moreover have "5 \<in> pc_gone (?g3\<lparr>pc_mgr := p4, pc_woken := [] @ [], pc_gone := insert 5 (pc_gone ?g3)\<rparr>)"
    by simp
  ultimately show ?thesis by blast
qed

theorem removed_fd_never_called_witness:
  "\<exists>g. preach 3 g \<and> 5 \<in> pc_gone g \<and> 5 \<notin> watched (pm_aio (pc_mgr g)) \<and> 5 \<notin> in_flight (pc_phase g) \<and>
     pm_callbacks (pc_mgr g) 5 = None"
proof -
  obtain g where g: "preach 3 g" "5 \<in> pc_gone g" using sample_removal by blast
  from removed_fd_never_called [OF g] g show ?thesis by blast
qed



end
