(* ===== verification/Timing.thy ===== *)
theory Timing
  imports Prelude "HOL-Library.Signed_Division"
begin

text \<open>
  The clock arithmetic of \<open>rpc/rpc.cc\<close> (\<open>add_timespec\<close>, \<open>cmp_timespec\<close>, \<open>diff_timespec\<close>) and the
  deadlines of the retry loop of \<open>rpcc::call1\<close>. The seconds and nanoseconds of a \<open>timespec\<close> are
  64-bit and far from their bounds; they are integers here. The C operators \<open>/\<close> and \<open>%\<close> truncate
  towards zero: they are \<open>sdiv\<close> and \<open>smod\<close>.
\<close>

section \<open>Time values\<close>

record timespec =
  tv_sec :: int
  tv_nsec :: int

abbreviation GIGA :: int where
  "GIGA \<equiv> 1000000000"

definition nanos :: "timespec \<Rightarrow> int" where
  "nanos t = tv_sec t * GIGA + tv_nsec t"

definition normal :: "timespec \<Rightarrow> bool" where
  "normal t \<longleftrightarrow> 0 \<le> tv_nsec t \<and> tv_nsec t < GIGA"

definition cmp_timespec :: "timespec \<Rightarrow> timespec \<Rightarrow> int" where
  "cmp_timespec a b =
     (if tv_sec b < tv_sec a then 1
      else if tv_sec a < tv_sec b then -1
      else if tv_nsec b < tv_nsec a then 1
      else if tv_nsec a < tv_nsec b then -1
      else 0)"

text \<open>The loop that carries nanoseconds over into seconds; its test is \<open>>\<close>.\<close>

function carry :: "timespec \<Rightarrow> timespec" where
  "carry r = (if GIGA < tv_nsec r then carry \<lparr>tv_sec = tv_sec r + 1, tv_nsec = tv_nsec r - GIGA\<rparr> else r)"
  by pat_completeness auto

termination carry
  by (relation "measure (\<lambda>r. nat (tv_nsec r))") auto

declare carry.simps [simp del]

definition add_timespec :: "timespec \<Rightarrow> int \<Rightarrow> timespec option" where
  "add_timespec a b =
     (let r = \<lparr>tv_sec = tv_sec a + b sdiv 1000, tv_nsec = tv_nsec a + (b smod 1000) * 1000000\<rparr>
      in if tv_nsec r < 0 then None else Some (carry r))"

text \<open>The difference in milliseconds, an \<open>int\<close>.\<close>

definition to_int :: "int \<Rightarrow> int" where
  "to_int x = signed_take_bit 31 x"

definition diff_timespec :: "timespec \<Rightarrow> timespec \<Rightarrow> int option" where
  "diff_timespec e s =
     (let diff = (if tv_sec s < tv_sec e then to_int ((tv_sec e - tv_sec s) * 1000) else 0) in
      if \<not> (diff \<noteq> 0 \<or> tv_sec e = tv_sec s) then None
      else if tv_nsec s < tv_nsec e then Some (to_int (diff + (tv_nsec e - tv_nsec s) sdiv 1000000))
      else Some (to_int (diff - (tv_nsec s - tv_nsec e) sdiv 1000000)))"

lemma cmp_timespec_iff:
  assumes "normal a" and "normal b"
  shows "0 < cmp_timespec a b \<longleftrightarrow> nanos b < nanos a" and "cmp_timespec a b < 0 \<longleftrightarrow> nanos a < nanos b"
  using assms by (auto simp: cmp_timespec_def nanos_def normal_def)

lemma carry_nanos: "nanos (carry r) = nanos r"
proof (induction r rule: carry.induct)
  case (1 r)
  then show ?case by (subst carry.simps) (auto simp: nanos_def algebra_simps)
qed

lemma carry_bounds: "0 \<le> tv_nsec r \<Longrightarrow> 0 \<le> tv_nsec (carry r) \<and> tv_nsec (carry r) \<le> GIGA"
proof (induction r rule: carry.induct)
  case (1 r)
  then show ?case by (subst (1 2) carry.simps) auto
qed

lemma sdiv_smod_pos: "0 \<le> b \<Longrightarrow> b sdiv (1000 :: int) = b div 1000 \<and> b smod 1000 = b mod 1000"
  by (auto simp: signed_divide_int_def signed_modulo_int_def modulo_int_def sgn_if abs_if)

text \<open>Adding a non-negative number of milliseconds is exact, and the result is normal or has
  exactly \<open>10 ^ 9\<close> nanoseconds.\<close>

lemma add_timespec_ok:
  assumes "normal a" and "0 \<le> b"
  shows "\<exists>r. add_timespec a b = Some r \<and> nanos r = nanos a + b * 1000000 \<and>
    0 \<le> tv_nsec r \<and> tv_nsec r \<le> GIGA"
proof -
  let ?r = "\<lparr>tv_sec = tv_sec a + b div 1000, tv_nsec = tv_nsec a + (b mod 1000) * 1000000\<rparr>"
  have nn: "0 \<le> tv_nsec ?r" using assms pos_mod_sign [of 1000 b] by (simp add: normal_def)
  have "nanos ?r = nanos a + b * 1000000"
    unfolding nanos_def by simp presburger
  moreover have "add_timespec a b = Some (carry ?r)"
    using nn sdiv_smod_pos [OF assms(2)] by (simp add: add_timespec_def Let_def)
  ultimately show ?thesis using carry_nanos [of ?r] carry_bounds [OF nn] by auto
qed

lemma add_timespec_whole_seconds:
  assumes "normal a" and "0 \<le> b" and "b mod 1000 = 0"
  shows "\<exists>r. add_timespec a b = Some r \<and> nanos r = nanos a + b * 1000000 \<and> normal r"
proof -
  from add_timespec_ok [OF assms(1,2)] obtain r where r: "add_timespec a b = Some r"
    "nanos r = nanos a + b * 1000000" by blast
  have "tv_nsec r = tv_nsec a"
    using r(1) sdiv_smod_pos [OF assms(2)] assms(1,3)
    by (auto simp: add_timespec_def Let_def carry.simps normal_def split: if_splits)
  with r assms(1) show ?thesis by (auto simp: normal_def)
qed

end
