(* ===== verification/Refs.thy ===== *)
theory Refs
  imports Connection "HOL-Library.Multiset"
begin

text \<open>
  Reference counts of connections. A holder of a reference is a thread or an object with a
  pointer to the connection; it may be inside \<open>send\<close>. The invariant \<open>conn_refs H R\<close> says that the
  count of every connection in the heap \<open>H\<close> is the number of its holders in the multiset \<open>R\<close>, that
  every holder points to a live object, and that only a connection in whose \<open>send\<close> somebody is
  has a write under way.

  The contract of reference counting is the locale \<open>refcount\<close>; \<open>incref\<close> and \<open>decref\<close> of
  \<open>connection\<close> are its interpretation \<open>rc\<close>. The users of connections (\<open>rpcc\<close>, \<open>rpcs\<close>,
  \<open>tcpsconn\<close>) rely on its laws.
\<close>

section \<open>The contract\<close>

text \<open>A holder: the connection and whether the holder is inside \<open>send\<close>.\<close>

type_synonym holder = "cid \<times> bool"

locale refcount =
  fixes inc :: "'h \<Rightarrow> cid \<Rightarrow> 'h option"
    and dec :: "'h \<Rightarrow> cid \<Rightarrow> 'h option"
    and ok :: "'h \<Rightarrow> holder multiset \<Rightarrow> bool"
  assumes inc_ok: "ok H R \<Longrightarrow> (c, b) \<in># R \<Longrightarrow> \<exists>H'. inc H c = Some H' \<and> ok H' (add_mset (c, False) R)"
    and dec_ok: "ok H (add_mset (c, False) R) \<Longrightarrow> \<exists>H'. dec H c = Some H' \<and> ok H' R"
begin

text \<open>A pointer moves from one connection to another that somebody holds.\<close>

lemma swap_ok:
  assumes "ok H (add_mset (c, False) R)" and "(d, b) \<in># R"
  shows "\<exists>H1 H2. dec H c = Some H1 \<and> inc H1 d = Some H2 \<and> ok H2 (add_mset (d, False) R)"
  using dec_ok [OF assms(1)] inc_ok [OF _ assms(2)] by blast

text \<open>A reference that is taken and given back leaves the holders alone.\<close>

lemma take_release:
  assumes "ok H R" and "(c, b) \<in># R"
  shows "\<exists>H1 H2. inc H c = Some H1 \<and> dec H1 c = Some H2 \<and> ok H2 R"
  using inc_ok [OF assms] dec_ok by blast

text \<open>A list of references is given back one after the other.\<close>

lemma release_all:
  assumes "ok H (mset (map (\<lambda>c. (c, False)) cs) + R)"
  shows "\<exists>H'. fold (\<lambda>c h. Option.bind h (\<lambda>H. dec H c)) cs (Some H) = Some H' \<and> ok H' R"
  using assms
proof (induction cs arbitrary: H)
  case (Cons c cs)
  then have "ok H (add_mset (c, False) (mset (map (\<lambda>c. (c, False)) cs) + R))" by simp
  from dec_ok [OF this] obtain H1 where "dec H c = Some H1" "ok H1 (mset (map (\<lambda>c. (c, False)) cs) + R)" by blast
  with Cons.IH show ?case by simp
qed simp

end

section \<open>Connections\<close>

definition holders :: "holder multiset \<Rightarrow> cid \<Rightarrow> nat" where
  "holders R c = count R (c, False) + count R (c, True)"

definition conn_refs :: "conn_heap \<Rightarrow> holder multiset \<Rightarrow> bool" where
  "conn_refs H R \<longleftrightarrow> finite (dom H) \<and>
     (\<forall>c k. H c = Some k \<longrightarrow> c_refno k = int (holders R c) \<and>
        (cb_buf (c_wpdu k) \<noteq> None \<longrightarrow> (c, True) \<in># R)) \<and>
     (\<forall>c. 0 < holders R c \<longrightarrow> H c \<noteq> None)"

lemma holders_add: "holders (add_mset (c, b) R) d = (if c = d then holders R d + 1 else holders R d)"
  by (simp add: holders_def)

lemma holders_pos: "(c, b) \<in># R \<Longrightarrow> 0 < holders R c"
  by (cases b) (simp_all add: holders_def)

lemma holders_mem: "(c, True) \<in># R \<longleftrightarrow> count R (c, True) \<noteq> 0"
  by simp

lemma conn_refs_empty: "conn_refs Map.empty {#}"
  by (simp add: conn_refs_def holders_def)

lemma conn_refs_live: "conn_refs H R \<Longrightarrow> (c, b) \<in># R \<Longrightarrow> \<exists>k. H c = Some k"
  using holders_pos by (auto simp: conn_refs_def)

lemma conn_refs_dom: "conn_refs H R \<Longrightarrow> H c = None \<Longrightarrow> holders R c = 0"
  by (auto simp: conn_refs_def)

lemma incref_ok:
  assumes "conn_refs H R" and "(c, b) \<in># R"
  shows "\<exists>H'. incref H c = Some H' \<and> conn_refs H' (add_mset (c, False) R)"
proof -
  obtain k where k: "H c = Some k" using conn_refs_live [OF assms] by blast
  with assms(1) have "conn_refs (H(c \<mapsto> k\<lparr>c_refno := c_refno k + 1\<rparr>)) (add_mset (c, False) R)"
    by (auto simp: conn_refs_def holders_add)
  with k show ?thesis by (simp add: incref_def)
qed

lemma decref_ok:
  assumes "conn_refs H (add_mset (c, False) R)"
  shows "\<exists>H'. decref H c = Some H' \<and> conn_refs H' R"
proof -
  obtain k where k: "H c = Some k" using conn_refs_live [OF assms] by auto
  have ref: "c_refno k = int (holders R c) + 1"
    and buf: "cb_buf (c_wpdu k) \<noteq> None \<Longrightarrow> (c, True) \<in># R"
    using assms k by (auto simp: conn_refs_def holders_add)
  have rest: "H d = Some kd \<Longrightarrow> d \<noteq> c \<Longrightarrow> c_refno kd = int (holders R d) \<and> (cb_buf (c_wpdu kd) \<noteq> None \<longrightarrow> (d, True) \<in># R)"
    and live: "0 < holders R d \<Longrightarrow> H d \<noteq> None" and fin: "finite (dom H)" for d kd
    using assms by (auto simp: conn_refs_def holders_add split: if_splits)
  show ?thesis
  proof (cases "holders R c = 0 \<and> c_dead k")
    case True
    then have "cb_buf (c_wpdu k) = None" using buf holders_pos by (metis less_numeral_extra(3))
    with True k ref have "decref H c = Some (H(c := None))" by (simp add: decref_def delete_conn_def)
    moreover have "conn_refs (H(c := None)) R" using True rest live fin by (auto simp: conn_refs_def)
    ultimately show ?thesis by blast
  next
    case False
    then have "decref H c = Some (H(c \<mapsto> k\<lparr>c_refno := c_refno k - 1\<rparr>))" using k ref by (auto simp: decref_def)
    moreover have "conn_refs (H(c \<mapsto> k\<lparr>c_refno := c_refno k - 1\<rparr>)) R"
      using ref buf rest live fin by (auto simp: conn_refs_def)
    ultimately show ?thesis by blast
  qed
qed

interpretation rc: refcount incref decref conn_refs
  by unfold_locales (rule incref_ok decref_ok; assumption)+

lemma conn_refs_new:
  assumes "conn_refs H R" and "H c = None"
  shows "conn_refs (H(c \<mapsto> fst (connection_new fd lossy))) (add_mset (c, False) R)"
  using assms conn_refs_dom [OF assms]
  by (auto simp: conn_refs_def connection_new_def charbuf_new_def holders_add)

text \<open>Nobody points to a connection that has been deleted, and a connection is deleted when its
  last reference goes and it is dead.\<close>

lemma decref_deletes:
  assumes "conn_refs H (add_mset (c, False) R)" and "decref H c = Some H'" and "H c = Some k"
  shows "H' c = None \<longleftrightarrow> holders R c = 0 \<and> c_dead k"
  using assms by (auto simp: conn_refs_def holders_add decref_def delete_conn_def Let_def split: if_splits)

text \<open>The holder that a pointer is, unless it is null.\<close>

definition opt_refs :: "cid option \<Rightarrow> holder multiset" where
  "opt_refs ch = (case ch of None \<Rightarrow> {#} | Some k \<Rightarrow> {#(k, False)#})"

lemma opt_refs_simps [simp]: "opt_refs None = {#}" "opt_refs (Some k) = {#(k, False)#}"
  by (simp_all add: opt_refs_def)

lemma decref_opt:
  assumes "conn_refs H (R + opt_refs ch)"
  shows "\<exists>H'. (case ch of None \<Rightarrow> Some H | Some k \<Rightarrow> decref H k) = Some H' \<and> conn_refs H' R"
  using assms rc.dec_ok by (cases ch) auto

end
