(* ===== verification/Retry.thy ===== *)
theory Retry
  imports Timing Refs Rpcc
begin

text \<open>
  The part of \<open>rpcc\<close> (\<open>rpc/rpc.cc\<close>) that deals with time and with the channel: \<open>get_refconn\<close>,
  \<open>connect_to_dst\<close> (\<open>rpc/connection.cc\<close>), the retry loop of \<open>call1\<close> and the destructor. One turn of the
  loop is \<open>call1_turn\<close>; a \<open>turn\<close> holds what the turn learns from outside: the answer of \<open>connect\<close>,
  the clock, what the other threads do to the channels in the meantime (the sending itself
  included), and whether the reply has come when the wait is over.
\<close>

section \<open>The channel\<close>

text \<open>\<open>connect_to_dst\<close>: the descriptor, when \<open>connect\<close> succeeds; \<open>new\<close> is the address of the new
  object, a function of the heap.\<close>

definition connect_to_dst ::
  "(conn_heap \<Rightarrow> cid) \<Rightarrow> conn_heap \<Rightarrow> int \<Rightarrow> nat option \<Rightarrow> cid option \<times> conn_heap" where
  "connect_to_dst new H lossy fd =
     (case fd of
        None \<Rightarrow> (None, H)
      | Some s \<Rightarrow> (Some (new H), H(new H \<mapsto> fst (connection_new s lossy))))"

definition get_refconn ::
  "(conn_heap \<Rightarrow> cid) \<Rightarrow> nat option \<Rightarrow> rpcc \<Rightarrow> conn_heap \<Rightarrow> cid option \<Rightarrow> (cid option \<times> rpcc \<times> conn_heap) option" where
  "get_refconn new fd c H ch = do {
     dead \<leftarrow> (case rc_chan c of None \<Rightarrow> Some True | Some k \<Rightarrow> isdead H k);
     (c, H) \<leftarrow> (if dead then do {
         H \<leftarrow> (case rc_chan c of None \<Rightarrow> Some H | Some k \<Rightarrow> decref H k);
         let (k, H) = connect_to_dst new H (sint (rc_lossytest c)) fd;
         Some (c\<lparr>rc_chan := k\<rparr>, H)
       } else Some (c, H));
     (case rc_chan c of
        None \<Rightarrow> Some (ch, c, H)
      | Some k \<Rightarrow> do {
          H \<leftarrow> (case ch of None \<Rightarrow> Some H | Some old \<Rightarrow> decref H old);
          H \<leftarrow> incref H k;
          Some (Some k, c, H)
        })
   }"

text \<open>The destructor; \<open>closeconn\<close> also removes the callbacks of the descriptor.\<close>

definition close_channel :: "conn_heap \<Rightarrow> cid \<Rightarrow> conn_heap option" where
  "close_channel H k = do { kn \<leftarrow> H k; decref (H(k \<mapsto> fst (closeconn kn))) k }"

definition rpcc_delete :: "rpcc \<Rightarrow> conn_heap \<Rightarrow> conn_heap option" where
  "rpcc_delete c H = do {
     H \<leftarrow> (case rc_chan c of None \<Rightarrow> Some H | Some k \<Rightarrow> close_channel H k);
     if rc_calls c = Map.empty then Some H else None
   }"

section \<open>The retry loop\<close>

record call_loop =
  cl_rpcc :: rpcc
  cl_heap :: conn_heap
  cl_ch :: "cid option"
  cl_transmit :: bool
  cl_final :: timespec
  cl_curr :: int
  cl_sends :: "cid list"

record turn =
  tn_fd :: "nat option"
  tn_now :: timespec
  tn_others :: "rpcc \<Rightarrow> conn_heap \<Rightarrow> rpcc \<times> conn_heap"
  tn_done :: bool

abbreviation to_min :: int where
  "to_min \<equiv> 1000"

abbreviation to_max :: int where
  "to_max \<equiv> 120000"

definition call1_begin :: "rpcc \<Rightarrow> conn_heap \<Rightarrow> timespec \<Rightarrow> int \<Rightarrow> call_loop option" where
  "call1_begin c H now to = do {
     f \<leftarrow> add_timespec now to;
     Some \<lparr>cl_rpcc = c, cl_heap = H, cl_ch = None, cl_transmit = True, cl_final = f, cl_curr = to_min, cl_sends = []\<rparr>
   }"

definition call1_transmit :: "(conn_heap \<Rightarrow> cid) \<Rightarrow> turn \<Rightarrow> call_loop \<Rightarrow> call_loop option" where
  "call1_transmit new t l =
     (if cl_transmit l then do {
        (ch, c, H) \<leftarrow> get_refconn new (tn_fd t) (cl_rpcc l) (cl_heap l) (cl_ch l);
        Some (l\<lparr>cl_rpcc := c, cl_heap := H, cl_ch := ch, cl_transmit := False,
                cl_sends := cl_sends l @ (case ch of None \<Rightarrow> [] | Some k \<Rightarrow> [k])\<rparr>)
      } else Some l)"

text \<open>The deadline of a turn and what is left of the final one; second 0 marks the last turn.\<close>

definition next_deadline :: "timespec \<Rightarrow> int \<Rightarrow> timespec \<Rightarrow> (timespec \<times> timespec) option" where
  "next_deadline now cur final = do {
     nd \<leftarrow> add_timespec now cur;
     if 0 < cmp_timespec nd final then Some (final, final\<lparr>tv_sec := 0\<rparr>) else Some (nd, final)
   }"

text \<open>\<open>pthread_cond_timedwait\<close> refuses a deadline that is not normal at once (\<open>EINVAL\<close>), which is
  not \<open>ETIMEDOUT\<close>: the inner loop then turns until the reply is there.\<close>

datatype turn_result = Turn_again | Turn_over | Turn_spins

definition call1_turn :: "(conn_heap \<Rightarrow> cid) \<Rightarrow> turn \<Rightarrow> call_loop \<Rightarrow> (turn_result \<times> call_loop) option" where
  "call1_turn new t l = do {
     l \<leftarrow> call1_transmit new t l;
     if tv_sec (cl_final l) = 0 then Some (Turn_over, l)
     else do {
       (nd, f) \<leftarrow> next_deadline (tn_now t) (cl_curr l) (cl_final l);
       let (c, H) = tn_others t (cl_rpcc l) (cl_heap l);
       let l = l\<lparr>cl_rpcc := c, cl_heap := H, cl_final := f\<rparr>;
       if tn_done t then Some (Turn_over, l)
       else if \<not> normal nd then Some (Turn_spins, l)
       else do {
         dead \<leftarrow> (if \<not> rc_retrans c then Some False
                  else case cl_ch l of None \<Rightarrow> Some True | Some k \<Rightarrow> isdead H k);
         Some (Turn_again, l\<lparr>cl_transmit := dead, cl_curr := to_int (cl_curr l * 2)\<rparr>)
       }
     }
   }"

fun call1_loop :: "(conn_heap \<Rightarrow> cid) \<Rightarrow> turn list \<Rightarrow> call_loop \<Rightarrow> (turn_result \<times> call_loop) option" where
  "call1_loop new [] l = Some (Turn_again, l)"
| "call1_loop new (t # ts) l = do {
     (r, l) \<leftarrow> call1_turn new t l;
     if r = Turn_again then call1_loop new ts l else Some (r, l)
   }"

text \<open>The end of \<open>call1\<close>: the reference to the channel goes.\<close>

definition call1_release :: "call_loop \<Rightarrow> conn_heap option" where
  "call1_release l = (case cl_ch l of None \<Rightarrow> Some (cl_heap l) | Some k \<Rightarrow> decref (cl_heap l) k)"

section \<open>References to the channel\<close>

text \<open>The counts are right, with \<open>chan_\<close> and this thread's own references among the holders.\<close>

definition client_refs :: "holder multiset \<Rightarrow> rpcc \<Rightarrow> conn_heap \<Rightarrow> bool" where
  "client_refs own c H \<longleftrightarrow> (\<exists>R. conn_refs H (R + opt_refs (rc_chan c) + own))"

text \<open>The allocator returns an address that is not in use.\<close>

definition allocates :: "(conn_heap \<Rightarrow> cid) \<Rightarrow> bool" where
  "allocates new \<longleftrightarrow> (\<forall>H. finite (dom H) \<longrightarrow> H (new H) = None)"

text \<open>The other threads keep the counts right whatever this thread holds.\<close>

definition others_ok :: "(rpcc \<Rightarrow> conn_heap \<Rightarrow> rpcc \<times> conn_heap) \<Rightarrow> bool" where
  "others_ok f \<longleftrightarrow> (\<forall>own c H c' H'. client_refs own c H \<longrightarrow> f c H = (c', H') \<longrightarrow>
     client_refs own c' H' \<and> rc_retrans c' = rc_retrans c)"

lemma others_okD:
  assumes "others_ok f" and "client_refs own c H" and "f c H = (c', H')"
  shows "client_refs own c' H'" and "rc_retrans c' = rc_retrans c"
  using assms unfolding others_ok_def by blast+

lemma connect_refs:
  assumes "allocates new" and "conn_refs H R" and "connect_to_dst new H lossy fd = (k, H')"
  shows "conn_refs H' (R + opt_refs k)"
proof (cases fd)
  case None
  then show ?thesis using assms by (auto simp: connect_to_dst_def)
next
  case (Some s)
  have "H (new H) = None" using assms(1,2) by (auto simp: allocates_def conn_refs_def)
  from conn_refs_new [OF assms(2) this, of s lossy] Some assms(3) show ?thesis by (auto simp: connect_to_dst_def)
qed

text \<open>\<open>chan_\<close> is replaced when it is missing or dead.\<close>

lemma reconnect_ok:
  assumes new: "allocates new" and refs: "conn_refs H (R + opt_refs (rc_chan c))"
  shows "\<exists>dead c' H'. (case rc_chan c of None \<Rightarrow> Some True | Some k \<Rightarrow> isdead H k) = Some dead \<and>
    (if dead then do {
         H \<leftarrow> (case rc_chan c of None \<Rightarrow> Some H | Some k \<Rightarrow> decref H k);
         let (k, H) = connect_to_dst new H (sint (rc_lossytest c)) fd;
         Some (c\<lparr>rc_chan := k\<rparr>, H)
       } else Some (c, H)) = Some (c', H') \<and>
    conn_refs H' (R + opt_refs (rc_chan c')) \<and> rc_retrans c' = rc_retrans c"
proof -
  obtain dead where dead: "(case rc_chan c of None \<Rightarrow> Some True | Some k \<Rightarrow> isdead H k) = Some dead"
    using refs conn_refs_live [of H _ _ False] by (cases "rc_chan c") (fastforce simp: isdead_def)+
  obtain H1 where H1: "(case rc_chan c of None \<Rightarrow> Some H | Some k \<Rightarrow> decref H k) = Some H1" "conn_refs H1 R"
    using decref_opt [OF refs] by blast
  obtain k H2 where k: "connect_to_dst new H1 (sint (rc_lossytest c)) fd = (k, H2)" by (cases "connect_to_dst new H1 (sint (rc_lossytest c)) fd")
  from connect_refs [OF new H1(2) k] have refs2: "conn_refs H2 (R + opt_refs k)" .
  show ?thesis
  proof (cases dead)
    case True
    then show ?thesis using dead H1(1) k refs2 by (intro exI [of _ True] exI [of _ "c\<lparr>rc_chan := k\<rparr>"] exI [of _ H2]) simp
  next
    case False
    then show ?thesis using dead refs by auto
  qed
qed

lemma get_refconn_ok:
  assumes new: "allocates new" and refs: "conn_refs H (R + opt_refs (rc_chan c) + opt_refs ch)"
  shows "\<exists>ch' c' H'. get_refconn new fd c H ch = Some (ch', c', H') \<and>
    conn_refs H' (R + opt_refs (rc_chan c') + opt_refs ch') \<and> rc_retrans c' = rc_retrans c \<and>
    (case rc_chan c' of None \<Rightarrow> ch' = ch | Some k \<Rightarrow> ch' = Some k)"
proof -
  have "R + opt_refs (rc_chan c) + opt_refs ch = (R + opt_refs ch) + opt_refs (rc_chan c)" by simp
  with reconnect_ok [OF new, of H "R + opt_refs ch" c fd] refs obtain dead c1 H1
    where dead: "(case rc_chan c of None \<Rightarrow> Some True | Some k \<Rightarrow> isdead H k) = Some dead"
    and c1: "(if dead then do {
         H \<leftarrow> (case rc_chan c of None \<Rightarrow> Some H | Some k \<Rightarrow> decref H k);
         let (k, H) = connect_to_dst new H (sint (rc_lossytest c)) fd;
         Some (c\<lparr>rc_chan := k\<rparr>, H)
       } else Some (c, H)) = Some (c1, H1)"
    and refs1: "conn_refs H1 (R + opt_refs ch + opt_refs (rc_chan c1))" "rc_retrans c1 = rc_retrans c"
    by metis
  show ?thesis
  proof (cases "rc_chan c1")
    case None
    then show ?thesis using dead c1 refs1 by (simp add: get_refconn_def)
  next
    case (Some k)
    have "conn_refs H1 (add_mset (k, False) R + opt_refs ch)" using refs1(1) Some by (simp add: add.commute)
    from decref_opt [OF this] obtain H2
      where H2: "(case ch of None \<Rightarrow> Some H1 | Some k \<Rightarrow> decref H1 k) = Some H2" "conn_refs H2 (add_mset (k, False) R)" by blast
    from rc.inc_ok [OF H2(2), of k False] obtain H3
      where H3: "incref H2 k = Some H3" "conn_refs H3 (add_mset (k, False) (add_mset (k, False) R))" by auto
    show ?thesis using dead c1 Some H2(1) H3 refs1(2) by (simp add: get_refconn_def)
  qed
qed

definition loop_refs :: "call_loop \<Rightarrow> bool" where
  "loop_refs l \<longleftrightarrow> client_refs (opt_refs (cl_ch l)) (cl_rpcc l) (cl_heap l)"

lemma call1_transmit_ok:
  assumes "allocates new" and "loop_refs l"
  shows "\<exists>l'. call1_transmit new t l = Some l' \<and> loop_refs l' \<and> \<not> cl_transmit l' \<and>
    cl_final l' = cl_final l \<and> cl_curr l' = cl_curr l \<and> rc_retrans (cl_rpcc l') = rc_retrans (cl_rpcc l) \<and>
    length (cl_sends l') \<le> length (cl_sends l) + (if cl_transmit l then 1 else 0)"
proof (cases "cl_transmit l")
  case True
  from assms(2) obtain R where R: "conn_refs (cl_heap l) (R + opt_refs (rc_chan (cl_rpcc l)) + opt_refs (cl_ch l))"
    by (auto simp: loop_refs_def client_refs_def)
  from get_refconn_ok [OF assms(1) R, of "tn_fd t"] obtain ch' c' H'
    where g: "get_refconn new (tn_fd t) (cl_rpcc l) (cl_heap l) (cl_ch l) = Some (ch', c', H')"
      "conn_refs H' (R + opt_refs (rc_chan c') + opt_refs ch')" "rc_retrans c' = rc_retrans (cl_rpcc l)" by blast
  then show ?thesis using True
    by (auto simp: call1_transmit_def loop_refs_def client_refs_def split: option.splits)
next
  case False
  then show ?thesis using assms(2) by (simp add: call1_transmit_def)
qed

lemma loop_release:
  assumes "loop_refs l"
  shows "\<exists>H. call1_release l = Some H \<and> client_refs {#} (cl_rpcc l) H"
proof -
  from assms obtain R where "conn_refs (cl_heap l) ((R + opt_refs (rc_chan (cl_rpcc l))) + opt_refs (cl_ch l))"
    by (auto simp: loop_refs_def client_refs_def)
  from decref_opt [OF this] show ?thesis by (auto simp: call1_release_def client_refs_def)
qed

lemma isdead_ch:
  assumes "loop_refs l"
  shows "\<exists>d. (case cl_ch l of None \<Rightarrow> Some True | Some k \<Rightarrow> isdead (cl_heap l) k) = Some d"
proof (cases "cl_ch l")
  case (Some k)
  with assms obtain R where "conn_refs (cl_heap l) (add_mset (k, False) R)"
    by (auto simp: loop_refs_def client_refs_def)
  from conn_refs_live [OF this, of k False] Some show ?thesis by (auto simp: isdead_def)
qed auto

section \<open>The deadlines\<close>

text \<open>What the clock and \<open>pthread_cond_timedwait\<close> promise: the readings are normal and, when a wait
  with the deadline of its own turn ended in a timeout, the next reading is not earlier than it.
  \<open>fin\<close> is the final deadline, \<open>lb\<close> the earliest possible reading, \<open>cur\<close> the current timeout.\<close>

fun clock_ok :: "int \<Rightarrow> int \<Rightarrow> int \<Rightarrow> turn list \<Rightarrow> bool" where
  "clock_ok fin lb cur [] = True"
| "clock_ok fin lb cur (t # ts) =
     (normal (tn_now t) \<and> lb \<le> nanos (tn_now t) \<and>
      (nanos (tn_now t) + cur * 1000000 \<le> fin \<longrightarrow> clock_ok fin (nanos (tn_now t) + cur * 1000000) (2 * cur) ts))"

lemma next_deadline_ok:
  assumes "normal now" and "0 \<le> cur" and "cur mod 1000 = 0" and "normal final"
  shows "\<exists>nd f. next_deadline now cur final = Some (nd, f) \<and> normal nd \<and>
    f = (if nanos final < nanos now + cur * 1000000 then final\<lparr>tv_sec := 0\<rparr> else final)"
proof -
  from add_timespec_whole_seconds [OF assms(1-3)] obtain r
    where r: "add_timespec now cur = Some r" "nanos r = nanos now + cur * 1000000" "normal r" by blast
  then show ?thesis using cmp_timespec_iff(1) [OF r(3) assms(4)] assms(4) by (simp add: next_deadline_def)
qed

lemma to_int_id: "0 \<le> x \<Longrightarrow> x < 2147483648 \<Longrightarrow> to_int x = x"
  by (simp add: to_int_def signed_take_bit_int_eq_self_iff)

text \<open>One turn. Unless the loop ends, the timeout has doubled and the final deadline is either
  marked or still ahead.\<close>

lemma call1_turn_ok:
  assumes new: "allocates new" and refs: "loop_refs l" and others: "others_ok (tn_others t)"
    and now: "normal (tn_now t)" and cur: "0 \<le> cl_curr l" "cl_curr l mod 1000 = 0"
    and final: "normal (cl_final l)"
  shows "\<exists>r l'. call1_turn new t l = Some (r, l') \<and> loop_refs l' \<and> r \<noteq> Turn_spins \<and>
    rc_retrans (cl_rpcc l') = rc_retrans (cl_rpcc l) \<and>
    length (cl_sends l') \<le> length (cl_sends l) + (if cl_transmit l then 1 else 0) \<and>
    (tv_sec (cl_final l) = 0 \<longrightarrow> r = Turn_over) \<and>
    (r = Turn_again \<longrightarrow> cl_curr l' = to_int (cl_curr l * 2) \<and> (cl_transmit l' \<longrightarrow> rc_retrans (cl_rpcc l)) \<and>
      cl_final l' = (if nanos (cl_final l) < nanos (tn_now t) + cl_curr l * 1000000
                     then (cl_final l)\<lparr>tv_sec := 0\<rparr> else cl_final l))"
proof -
  from call1_transmit_ok [OF new refs, of t] obtain l1
    where l1: "call1_transmit new t l = Some l1" "loop_refs l1" "cl_final l1 = cl_final l"
      "cl_curr l1 = cl_curr l" "rc_retrans (cl_rpcc l1) = rc_retrans (cl_rpcc l)"
      "length (cl_sends l1) \<le> length (cl_sends l) + (if cl_transmit l then 1 else 0)" by blast
  from next_deadline_ok [OF now cur final] obtain nd f
    where nd: "next_deadline (tn_now t) (cl_curr l) (cl_final l) = Some (nd, f)" "normal nd"
      "f = (if nanos (cl_final l) < nanos (tn_now t) + cl_curr l * 1000000
            then (cl_final l)\<lparr>tv_sec := 0\<rparr> else cl_final l)" by blast
  obtain c H where cH: "tn_others t (cl_rpcc l1) (cl_heap l1) = (c, H)" by (cases "tn_others t (cl_rpcc l1) (cl_heap l1)")
  let ?l2 = "l1\<lparr>cl_rpcc := c, cl_heap := H, cl_final := f\<rparr>"
  have c: "loop_refs ?l2" "rc_retrans c = rc_retrans (cl_rpcc l)"
    using others_okD [OF others _ cH, of "opt_refs (cl_ch l1)"] l1(2,5) by (simp_all add: loop_refs_def)
  from isdead_ch [OF c(1)] obtain d
    where d: "(case cl_ch l1 of None \<Rightarrow> Some True | Some k \<Rightarrow> isdead H k) = Some d" by (auto cong: option.case_cong)
  show ?thesis
  proof (cases "tv_sec (cl_final l) = 0")
    case True
    then have "call1_turn new t l = Some (Turn_over, l1)" using l1(1,3) by (simp add: call1_turn_def)
    then show ?thesis using l1 by blast
  next
    case no: False
    show ?thesis
    proof (cases "tn_done t")
      case True
      then have "call1_turn new t l = Some (Turn_over, ?l2)" using l1(1,3,4) nd(1) cH no by (simp add: call1_turn_def)
      then show ?thesis using c l1(6) no by auto
    next
      case False
      let ?l3 = "?l2\<lparr>cl_transmit := rc_retrans c \<and> d, cl_curr := to_int (cl_curr l * 2)\<rparr>"
      have "call1_turn new t l = Some (Turn_again, ?l3)"
        using False l1(1,3,4) nd(1,2) cH no d by (simp add: call1_turn_def Let_def)
      moreover have "loop_refs ?l3" using c(1) by (simp add: loop_refs_def)
      ultimately show ?thesis using c(2) l1(6) no nd(3) by auto
    qed
  qed
qed

lemma timeout_bound:
  assumes "1000 * 2 ^ Suc k \<le> (2147484647 :: int)"
  shows "k < 21"
proof (rule ccontr)
  assume "\<not> k < 21"
  then have "(2 :: int) ^ 22 \<le> 2 ^ Suc k" by (intro power_increasing) auto
  with assms show False by simp
qed

text \<open>A loop whose final deadline is marked ends with the next turn.\<close>

lemma call1_loop_marked:
  assumes "allocates new" and "loop_refs l" and "tv_sec (cl_final l) = 0" and "ts \<noteq> []"
  shows "\<exists>l'. call1_loop new ts l = Some (Turn_over, l') \<and> loop_refs l' \<and>
    rc_retrans (cl_rpcc l') = rc_retrans (cl_rpcc l) \<and>
    length (cl_sends l') \<le> length (cl_sends l) + (if cl_transmit l then 1 else 0)"
proof -
  obtain t ts' where ts: "ts = t # ts'" using assms(4) by (cases ts) auto
  from call1_transmit_ok [OF assms(1,2), of t] obtain l1
    where l1: "call1_transmit new t l = Some l1" "loop_refs l1" "cl_final l1 = cl_final l"
      "rc_retrans (cl_rpcc l1) = rc_retrans (cl_rpcc l)"
      "length (cl_sends l1) \<le> length (cl_sends l) + (if cl_transmit l then 1 else 0)" by blast
  then have "call1_loop new ts l = Some (Turn_over, l1)" using assms(3) by (simp add: ts call1_turn_def)
  with l1 show ?thesis by blast
qed

lemma call1_loop_ends:
  assumes "allocates new" and "loop_refs l" and "\<forall>t \<in> set ts. others_ok (tn_others t)"
    and "normal (cl_final l)" and "cl_curr l = 1000 * 2 ^ k" and "clock_ok (nanos (cl_final l)) lb (cl_curr l) ts"
    and "nanos (cl_final l) \<le> lb + (2147484647 - 1000 * 2 ^ k) * 1000000" and "23 \<le> length ts + k" and "k \<le> 21"
  shows "\<exists>l'. call1_loop new ts l = Some (Turn_over, l') \<and> loop_refs l' \<and>
    (\<not> rc_retrans (cl_rpcc l) \<longrightarrow> length (cl_sends l') \<le> length (cl_sends l) + (if cl_transmit l then 1 else 0))"
  using assms
proof (induction ts arbitrary: l k lb)
  case (Cons t ts)
  have cur: "0 \<le> cl_curr l" "cl_curr l mod 1000 = 0" using Cons.prems(5) by auto
  have now: "normal (tn_now t)" "lb \<le> nanos (tn_now t)" using Cons.prems(6) by auto
  have oth: "others_ok (tn_others t)" using Cons.prems(3) by simp
  from call1_turn_ok [OF Cons.prems(1,2) oth now(1) cur Cons.prems(4)] obtain r l1
    where turn: "call1_turn new t l = Some (r, l1)" "loop_refs l1" "r \<noteq> Turn_spins"
      "rc_retrans (cl_rpcc l1) = rc_retrans (cl_rpcc l)"
      "length (cl_sends l1) \<le> length (cl_sends l) + (if cl_transmit l then 1 else 0)"
    and again: "r = Turn_again \<longrightarrow> cl_curr l1 = to_int (cl_curr l * 2) \<and> (cl_transmit l1 \<longrightarrow> rc_retrans (cl_rpcc l)) \<and>
      cl_final l1 = (if nanos (cl_final l) < nanos (tn_now t) + cl_curr l * 1000000
                     then (cl_final l)\<lparr>tv_sec := 0\<rparr> else cl_final l)" by blast
  show ?case
  proof (cases "r = Turn_again")
    case False
    then have "r = Turn_over" using turn(3) by (cases r) auto
    then show ?thesis using turn by auto
  next
    case True
    then have loop: "call1_loop new (t # ts) l = call1_loop new ts l1" using turn(1) by simp
    show ?thesis
    proof (cases "nanos (cl_final l) < nanos (tn_now t) + cl_curr l * 1000000")
      case marked: True
      have "tv_sec (cl_final l1) = 0" using again True marked by simp
      moreover have "ts \<noteq> []" using Cons.prems(8,9) by auto
      ultimately show ?thesis
        using call1_loop_marked [OF Cons.prems(1) turn(2)] loop turn(4,5) again True
        by (fastforce split: if_splits)
    next
      case False
      then have fin: "cl_final l1 = cl_final l" using again True by simp
      have k: "k < 21" using False now(2) Cons.prems(5,7) by (intro timeout_bound) auto
      then have "(2 :: int) ^ k \<le> 2 ^ 20" by (intro power_increasing) auto
      then have "cl_curr l1 = 1000 * 2 ^ Suc k" using again True Cons.prems(5) to_int_id [of "1000 * 2 ^ Suc k"] by simp
      moreover have "clock_ok (nanos (cl_final l1)) (nanos (tn_now t) + cl_curr l * 1000000) (1000 * 2 ^ Suc k) ts"
        using Cons.prems(5,6) False fin by simp
      moreover have "nanos (cl_final l1) \<le> nanos (tn_now t) + cl_curr l * 1000000 + (2147484647 - 1000 * 2 ^ Suc k) * 1000000"
        using Cons.prems(5,7) now(2) fin by simp
      ultimately have "\<exists>l'. call1_loop new ts l1 = Some (Turn_over, l') \<and> loop_refs l' \<and>
        (\<not> rc_retrans (cl_rpcc l1) \<longrightarrow> length (cl_sends l') \<le> length (cl_sends l1) + (if cl_transmit l1 then 1 else 0))"
        using Cons.prems(1,3,4,8) turn(2) fin k
        by (intro Cons.IH [of l1 "Suc k" "nanos (tn_now t) + cl_curr l * 1000000"]) auto
      then show ?thesis using loop turn(4,5) again True by (fastforce split: if_splits)
    qed
  qed
qed simp

section \<open>Properties\<close>


text \<open>A call of two minutes over a network on which \<open>connect\<close> always fails, and an allocator.\<close>

definition sample_new :: "conn_heap \<Rightarrow> cid" where
  "sample_new H = Suc (Max (insert 0 (dom H)))"

lemma sample_new_ok: "allocates sample_new"
proof -
  have "H (sample_new H) = None" if "finite (dom H)" for H :: conn_heap
  proof (rule ccontr)
    assume "H (sample_new H) \<noteq> None"
    then have "sample_new H \<le> Max (insert 0 (dom H))" using that by (intro Max_ge) auto
    then show False by (simp add: sample_new_def)
  qed
  then show ?thesis by (simp add: allocates_def)
qed

definition sample_turn :: "int \<Rightarrow> turn" where
  "sample_turn s = \<lparr>tn_fd = None, tn_now = \<lparr>tv_sec = s, tv_nsec = 0\<rparr>, tn_others = Pair, tn_done = False\<rparr>"

lemma sample_turn_ok: "others_ok (tn_others (sample_turn s))"
  by (simp add: sample_turn_def others_ok_def)


text \<open>
  C37: When a timeout below one second brings the nanoseconds to exactly \<open>10 ^ 9\<close>, \<open>add_timespec\<close>
  does not carry them over, because its loop tests with \<open>>\<close>: the final deadline, though exact, is
  an invalid time. A call with it that gets no reply does not time out: \<open>pthread_cond_timedwait\<close>
  rejects the deadline and the loop around it turns for ever.
\<close>

theorem invalid_deadline_spins:
  assumes "normal now" and "0 \<le> to" and "tv_nsec now + to mod 1000 * 1000000 = GIGA" and "tv_sec now > 0"
    and "allocates new" and "client_refs {#} c H" and "others_ok (tn_others t)"
    and "tn_now t = now" and "to < to_min" and "\<not> tn_done t"
  shows "\<exists>l l'. call1_begin c H now to = Some l \<and> nanos (cl_final l) = nanos now + to * 1000000 \<and>
    tv_nsec (cl_final l) = GIGA \<and> call1_turn new t l = Some (Turn_spins, l')"
proof -
  have to: "to mod 1000 = to" "to div 1000 = 0" using assms(2,9) by auto
  let ?f = "\<lparr>tv_sec = tv_sec now, tv_nsec = GIGA\<rparr>"
  have f: "add_timespec now to = Some ?f"
    using assms(3) to sdiv_smod_pos [OF assms(2)] by (simp add: add_timespec_def carry.simps)
  let ?l = "\<lparr>cl_rpcc = c, cl_heap = H, cl_ch = None, cl_transmit = True, cl_final = ?f, cl_curr = to_min, cl_sends = []\<rparr>"
  have l: "call1_begin c H now to = Some ?l" using f by (simp add: call1_begin_def)
  have "loop_refs ?l" using assms(6) by (simp add: loop_refs_def)
  from call1_transmit_ok [OF assms(5) this, of t] obtain l1
    where l1: "call1_transmit new t ?l = Some l1" "loop_refs l1" "cl_final l1 = ?f" "cl_curr l1 = to_min" by auto
  have nd: "next_deadline now to_min ?f = Some (?f, ?f\<lparr>tv_sec := 0\<rparr>)"
    using assms(1) by (simp add: next_deadline_def add_timespec_def cmp_timespec_def carry.simps sdiv_smod_pos normal_def)
  obtain c1 H1 where others: "tn_others t (cl_rpcc l1) (cl_heap l1) = (c1, H1)"
    by (cases "tn_others t (cl_rpcc l1) (cl_heap l1)")
  have "\<exists>l'. call1_turn new t ?l = Some (Turn_spins, l')"
    using l1 nd others assms(4,8,10) by (simp add: call1_turn_def Let_def normal_def)
  moreover have "nanos ?f = nanos now + to * 1000000" using assms(3) to(1) by (simp add: nanos_def)
  ultimately show ?thesis using l by auto
qed

theorem invalid_deadline_spins_witness:
  "\<exists>l l'. call1_begin (rpcc_new True 5 0) Map.empty \<lparr>tv_sec = 7, tv_nsec = 999000000\<rparr> 1 = Some l \<and>
     tv_nsec (cl_final l) = GIGA \<and>
     call1_turn sample_new ((sample_turn 7)\<lparr>tn_now := \<lparr>tv_sec = 7, tv_nsec = 999000000\<rparr>\<rparr>) l = Some (Turn_spins, l')"
proof -
  have refs: "client_refs {#} (rpcc_new True 5 0) Map.empty"
    using conn_refs_empty by (auto simp: client_refs_def rpcc_new_def)
  let ?now = "\<lparr>tv_sec = 7, tv_nsec = 999000000\<rparr>"
  have "\<exists>l l'. call1_begin (rpcc_new True 5 0) Map.empty ?now 1 = Some l \<and> nanos (cl_final l) = nanos ?now + 1 * 1000000 \<and>
      tv_nsec (cl_final l) = GIGA \<and> call1_turn sample_new ((sample_turn 7)\<lparr>tn_now := ?now\<rparr>) l = Some (Turn_spins, l')"
    by (rule invalid_deadline_spins [OF _ _ _ _ sample_new_ok refs])
      (simp_all add: normal_def sample_turn_def others_ok_def)
  then show ?thesis by blast
qed

end
