(* ===== verification/Listener.thy ===== *)
theory Listener
  imports Retry
begin

text \<open>
  The class \<open>tcpsconn\<close> of \<open>rpc/connection.h\<close> and \<open>rpc/connection.cc\<close>: the listening socket of a
  server, its accept loop, the collection of dead connections and the destructor. The answers of
  the kernel (the descriptors, \<open>select\<close>, \<open>accept\<close>) are arguments. \<open>conns_\<close> is a \<open>std::map\<close>: an
  association list in the order of the descriptors.
\<close>

section \<open>The operations\<close>

record tcpsconn =
  tc_pipe :: nat
  tc_tcp :: nat
  tc_lossy :: int
  tc_conns :: "(nat \<times> cid) list"

text \<open>The constructor: every failing system call ends in \<open>assert(0)\<close>.\<close>

definition tcpsconn_new :: "nat option \<Rightarrow> bool \<Rightarrow> bool \<Rightarrow> nat option \<Rightarrow> int \<Rightarrow> tcpsconn option" where
  "tcpsconn_new sock bind_ok listen_ok pipe0 lossytest = do {
     tcp \<leftarrow> sock;
     if \<not> bind_ok then None
     else if \<not> listen_ok then None
     else do { p \<leftarrow> pipe0; Some \<lparr>tc_pipe = p, tc_tcp = tcp, tc_lossy = lossytest, tc_conns = []\<rparr> }
   }"

text \<open>\<open>conns_[fd] = c\<close>\<close>

fun conns_put :: "(nat \<times> cid) list \<Rightarrow> nat \<Rightarrow> cid \<Rightarrow> (nat \<times> cid) list" where
  "conns_put [] fd c = [(fd, c)]"
| "conns_put ((fd', c') # l) fd c =
     (if fd < fd' then (fd, c) # (fd', c') # l
      else if fd = fd' then (fd, c) # l
      else (fd', c') # conns_put l fd c)"

text \<open>The loop that looks for dead connections nobody else refers to. When it finds one it
  erases the iterator and then increments it: undefined.\<close>

fun collect_loop :: "conn_heap \<Rightarrow> (nat \<times> cid) list \<Rightarrow> unit option" where
  "collect_loop H [] = Some ()"
| "collect_loop H ((fd, c) # l) = do {
     dead \<leftarrow> isdead H c;
     ref \<leftarrow> conn_ref H c;
     if dead \<and> ref = 1 then None else collect_loop H l
   }"

datatype accept_result = Thread_exits | Goes_on conn_heap tcpsconn | Returns

definition process_accept :: "(conn_heap \<Rightarrow> cid) \<Rightarrow> conn_heap \<Rightarrow> tcpsconn \<Rightarrow> nat option \<Rightarrow> accept_result option" where
  "process_accept new H t s1 =
     (case s1 of
        None \<Rightarrow> Some Thread_exits
      | Some fd \<Rightarrow> do {
          let ch = new H;
          let H = H(ch \<mapsto> fst (connection_new fd (tc_lossy t)));
          collect_loop H (tc_conns t);
          Some (Goes_on H (t\<lparr>tc_conns := conns_put (tc_conns t) fd ch\<rparr>))
        })"

text \<open>One turn of \<open>accept_conn\<close>: the answer of \<open>select\<close> is an error, with whether it is \<open>EINTR\<close>, or
  the two bits of the set.\<close>

datatype accept_select = Accept_error bool | Accept_ready bool bool

definition accept_turn ::
  "(conn_heap \<Rightarrow> cid) \<Rightarrow> conn_heap \<Rightarrow> tcpsconn \<Rightarrow> accept_select \<Rightarrow> nat option \<Rightarrow> accept_result option" where
  "accept_turn new H t r s1 =
     (case r of
        Accept_error eintr \<Rightarrow> if eintr then Some (Goes_on H t) else None
      | Accept_ready pipe_set tcp_set \<Rightarrow>
          if pipe_set then Some Returns
          else if tcp_set then process_accept new H t s1
          else None)"

text \<open>The destructor, after the accept thread has returned.\<close>

fun close_conns :: "conn_heap \<Rightarrow> (nat \<times> cid) list \<Rightarrow> conn_heap option" where
  "close_conns H [] = Some H"
| "close_conns H ((fd, c) # l) = do { H \<leftarrow> close_channel H c; close_conns H l }"

definition tcpsconn_delete :: "conn_heap \<Rightarrow> tcpsconn \<Rightarrow> conn_heap option" where
  "tcpsconn_delete H t = close_conns H (tc_conns t)"

section \<open>Closing\<close>

lemma closeconn_refs:
  assumes "conn_refs H R" and "H c = Some k"
  shows "conn_refs (H(c \<mapsto> fst (closeconn k))) R"
proof -
  have "c_refno (fst (closeconn k)) = c_refno k" "c_wpdu (fst (closeconn k)) = c_wpdu k"
    by (simp_all add: closeconn_def)
  with assms show ?thesis by (auto simp: conn_refs_def)
qed

lemma close_channel_ok:
  assumes "conn_refs H (add_mset (c, False) R)"
  shows "\<exists>H'. close_channel H c = Some H' \<and> conn_refs H' R \<and> (holders R c = 0 \<longrightarrow> H' c = None)"
proof -
  obtain k where k: "H c = Some k" using conn_refs_live [OF assms, of c False] by auto
  let ?H = "H(c \<mapsto> fst (closeconn k))"
  have refs: "conn_refs ?H (add_mset (c, False) R)" using closeconn_refs [OF assms k] .
  from rc.dec_ok [OF refs] obtain H' where H': "decref ?H c = Some H'" "conn_refs H' R" by blast
  have "c_dead (fst (closeconn k))" by (simp add: closeconn_def)
  with decref_deletes [OF refs H'(1)] have "holders R c = 0 \<longrightarrow> H' c = None" by simp
  then show ?thesis using k H' by (simp add: close_channel_def)
qed

lemma close_channel_frame: "close_channel H c = Some H' \<Longrightarrow> d \<noteq> c \<Longrightarrow> H' d = H d"
  by (auto simp: close_channel_def decref_def delete_conn_def Let_def elim!: bind_SomeE split: if_splits)

lemma close_conns_frame: "close_conns H l = Some H' \<Longrightarrow> \<forall>fd. (fd, c) \<notin> set l \<Longrightarrow> H' c = H c"
proof (induction H l rule: close_conns.induct)
  case (2 H fd c' l)
  then obtain H1 where H1: "close_channel H c' = Some H1" "close_conns H1 l = Some H'" by (auto elim!: bind_SomeE)
  with 2 close_channel_frame [OF H1(1), of c] show ?case by auto
qed simp

definition listener_refs :: "(nat \<times> cid) list \<Rightarrow> holder multiset" where
  "listener_refs l = mset (map (\<lambda>(fd, c). (c, False)) l)"

lemma listener_refs_simps [simp]:
  "listener_refs [] = {#}" "listener_refs ((fd, c) # l) = add_mset (c, False) (listener_refs l)"
  by (simp_all add: listener_refs_def)

lemma holders_listener: "c \<notin> snd ` set l \<Longrightarrow> holders (listener_refs l) c = 0"
  by (induction l) (auto simp: holders_add, simp add: holders_def)

lemma listener_mem: "(fd, c) \<in> set l \<Longrightarrow> (c, False) \<in># listener_refs l"
  by (induction l) auto

lemma close_conns_ok:
  assumes "conn_refs H (listener_refs l + R)"
  shows "\<exists>H'. close_conns H l = Some H' \<and> conn_refs H' R"
  using assms
proof (induction H l rule: close_conns.induct)
  case (2 H fd c l)
  then have "conn_refs H (add_mset (c, False) (listener_refs l + R))" by simp
  from close_channel_ok [OF this] obtain H1 where H1: "close_channel H c = Some H1" "conn_refs H1 (listener_refs l + R)"
    by blast
  with "2.IH" show ?case by simp
qed simp

lemma close_conns_gone:
  assumes "conn_refs H (listener_refs l + R)" and "close_conns H l = Some H'" and "c \<in> snd ` set l" and "holders R c = 0"
  shows "H' c = None"
  using assms
proof (induction H l rule: close_conns.induct)
  case (2 H fd' c' l)
  then have "conn_refs H (add_mset (c', False) (listener_refs l + R))" by simp
  from close_channel_ok [OF this] obtain H1 where H1: "close_channel H c' = Some H1" "conn_refs H1 (listener_refs l + R)"
    "holders (listener_refs l + R) c' = 0 \<longrightarrow> H1 c' = None" by auto
  have l: "close_conns H1 l = Some H'" using "2.prems"(2) H1(1) by simp
  show ?case
  proof (cases "c \<in> snd ` set l")
    case True
    then show ?thesis using "2.IH" [OF H1(1,2) l] "2.prems"(4) by simp
  next
    case False
    then have "c = c'" using "2.prems"(3) by auto
    moreover have "holders (listener_refs l) c = 0" using False by (rule holders_listener)
    then have "holders (listener_refs l + R) c = 0" using "2.prems"(4) by (simp add: holders_def)
    ultimately have "H1 c = None" using H1(3) by simp
    moreover have "\<forall>fd. (fd, c) \<notin> set l" using False by (metis image_eqI snd_conv)
    ultimately show ?thesis using close_conns_frame [OF l, of c] by simp
  qed
qed simp

section \<open>Accepting\<close>

definition collectable :: "conn_heap \<Rightarrow> (nat \<times> cid) list \<Rightarrow> bool" where
  "collectable H l \<longleftrightarrow> (\<exists>(fd, c) \<in> set l. \<exists>k. H c = Some k \<and> c_dead k \<and> c_refno k = 1)"

lemma collectable_simps:
  "\<not> collectable H []"
  "collectable H ((fd, c) # l) \<longleftrightarrow> (\<exists>k. H c = Some k \<and> c_dead k \<and> c_refno k = 1) \<or> collectable H l"
  by (simp_all add: collectable_def)

lemma collect_loop_iff:
  "\<forall>(fd, c) \<in> set l. H c \<noteq> None \<Longrightarrow> collect_loop H l = (if collectable H l then None else Some ())"
  by (induction H l rule: collect_loop.induct) (auto simp: collectable_simps isdead_def conn_ref_def)

lemma listener_put:
  "fd \<notin> fst ` set l \<Longrightarrow> listener_refs (conns_put l fd c) = add_mset (c, False) (listener_refs l)"
  by (induction l fd c rule: conns_put.induct) auto

lemma listener_live:
  assumes "conn_refs H (listener_refs l + R)"
  shows "\<forall>(fd, c) \<in> set l. H c \<noteq> None"
proof -
  have "\<exists>k. H c = Some k" if "(fd, c) \<in> set l" for fd c
    using conn_refs_live [OF assms, of c False] listener_mem [OF that] by simp
  then show ?thesis by auto
qed

section \<open>Properties\<close>

text \<open>
  A new connection on the listening socket. As long as no connection of \<open>conns_\<close> is dead with
  its last reference, \<open>process_accept\<close> adds the new connection and its reference. As soon as there
  is one, the loop that should collect it erases the map entry at the iterator and increments
  the iterator afterwards, which is undefined: the collection never works as written.
\<close>

lemma accept_or_undefined:
  assumes refs: "conn_refs H (listener_refs (tc_conns t) + R)" and "allocates new" and "fd \<notin> fst ` set (tc_conns t)"
  shows "if collectable H (tc_conns t) then process_accept new H t (Some fd) = None
    else \<exists>H' t'. process_accept new H t (Some fd) = Some (Goes_on H' t') \<and>
      conn_refs H' (listener_refs (tc_conns t') + R) \<and> map_of (tc_conns t') fd = Some (new H)"
proof -
  let ?l = "tc_conns t"
  define H1 where "H1 = H(new H \<mapsto> fst (connection_new fd (tc_lossy t)))"
  have none: "H (new H) = None" using assms(2) refs by (auto simp: allocates_def conn_refs_def)
  have live: "\<forall>(fd, c) \<in> set ?l. H c \<noteq> None" using refs by (rule listener_live)
  then have live': "\<forall>(fd, c) \<in> set ?l. H1 c \<noteq> None" and same: "\<forall>(fd, c) \<in> set ?l. H1 c = H c"
    using none by (auto simp: H1_def)
  then have coll: "collectable H1 ?l = collectable H ?l" unfolding collectable_def by (intro bex_cong) auto
  have "conn_refs H1 (listener_refs (conns_put ?l fd (new H)) + R)"
    using conn_refs_new [OF refs none, of fd "tc_lossy t"] listener_put [OF assms(3)] by (simp add: H1_def)
  moreover have "map_of (conns_put l fd c) fd = Some c" for l c by (induction l fd c rule: conns_put.induct) auto
  ultimately show ?thesis using collect_loop_iff [OF live'] coll
    by (cases "collectable H ?l") (simp_all add: process_accept_def Let_def H1_def [symmetric])
qed

text \<open>
  The destructor of the listener closes every connection of \<open>conns_\<close> and gives back its
  reference to each, never touching a deleted one; a connection that nobody else refers to is
  deleted, one that a job still refers to stays until the job gives its reference back.
\<close>

lemma listener_destructor_releases:
  assumes "conn_refs H (listener_refs (tc_conns t) + R)"
  shows "\<exists>H'. tcpsconn_delete H t = Some H' \<and> conn_refs H' R \<and>
    (\<forall>(fd, c) \<in> set (tc_conns t). H' c = None \<longleftrightarrow> holders R c = 0)"
proof -
  from close_conns_ok [OF assms] obtain H' where H': "close_conns H (tc_conns t) = Some H'" "conn_refs H' R" by blast
  have "H' c = None \<longleftrightarrow> holders R c = 0" if "(fd, c) \<in> set (tc_conns t)" for fd c
  proof
    show "holders R c = 0" if "H' c = None" using conn_refs_dom [OF H'(2) that] .
    have "c \<in> snd ` set (tc_conns t)" using image_eqI [of c snd "(fd, c)"] that by simp
    then show "H' c = None" if "holders R c = 0" using close_conns_gone [OF assms H'(1)] that by simp
  qed
  with H' show ?thesis by (auto simp: tcpsconn_delete_def)
qed

end
