(* ===== verification/Wire.thy ===== *)
theory Wire
  imports Codec
begin

text \<open>
  Properties of the wire format: round trips of the headers, and
  how the decoders behave on bytes that no encoder wrote. Every arithmetic extraction and
  both header extractions are total and stay inside the buffer; \<open>adv k u\<close> is the exact effect
  of asking for \<open>k\<close> bytes. The extraction of a string is not: its bound check is computed in
  \<open>unsigned int\<close> and wraps around.
\<close>

section \<open>Asking for bytes\<close>

definition adv :: "nat \<Rightarrow> unmarshall \<Rightarrow> unmarshall" where
  "adv k u = u\<lparr>u_ind := (if u_ind u \<le> u_sz u then min (u_ind u + k) (u_sz u) else u_ind u),
              u_ok := (u_ok u \<and> u_ind u + k \<le> u_sz u)\<rparr>"

lemma adv_adv: "0 < k \<Longrightarrow> adv j (adv k u) = adv (k + j) u"
  by (cases u) (auto simp: adv_def)

lemma unm_wf_adv [simp]: "unm_wf (adv k u) = unm_wf u"
  by (simp add: unm_wf_def adv_def)

lemma unmarshall_rawbyte_adv:
  assumes "unm_wf u"
  obtains x where "unmarshall_rawbyte u = Some (x, adv 1 u)"
proof (cases "u_sz u \<le> u_ind u")
  case True
  then have "unmarshall_rawbyte u = Some (0, adv 1 u)"
    by (cases u) (auto simp: unmarshall_rawbyte_def adv_def)
  then show ?thesis by (rule that)
next
  case False
  then have "unmarshall_rawbyte u = Some (scast (u_buf u ! u_ind u), adv 1 u)"
    using assms by (cases u) (auto simp: unmarshall_rawbyte_def adv_def unm_wf_def)
  then show ?thesis by (rule that)
qed

lemma unmarshall_uint_adv:
  assumes "unm_wf u"
  obtains x where "unmarshall_uint u = Some (x, adv 4 u)"
proof -
  obtain a where a: "unmarshall_rawbyte u = Some (a, adv 1 u)" using assms by (rule unmarshall_rawbyte_adv)
  obtain b where b: "unmarshall_rawbyte (adv 1 u) = Some (b, adv 1 (adv 1 u))"
    using assms by (auto intro: unmarshall_rawbyte_adv [of "adv 1 u"])
  obtain c where c: "unmarshall_rawbyte (adv 2 u) = Some (c, adv 1 (adv 2 u))"
    using assms by (auto intro: unmarshall_rawbyte_adv [of "adv 2 u"])
  obtain d where d: "unmarshall_rawbyte (adv 3 u) = Some (d, adv 1 (adv 3 u))"
    using assms by (auto intro: unmarshall_rawbyte_adv [of "adv 3 u"])
  show ?thesis using that a b c d by (simp add: unmarshall_uint_def adv_adv eval_nat_numeral)
qed

lemma unmarshall_ulonglong_adv:
  assumes "unm_wf u"
  obtains x where "unmarshall_ulonglong u = Some (x, adv 8 u)"
proof -
  obtain a where a: "unmarshall_uint u = Some (a, adv 4 u)" using assms by (rule unmarshall_uint_adv)
  obtain b where b: "unmarshall_uint (adv 4 u) = Some (b, adv 4 (adv 4 u))"
    using assms by (auto intro: unmarshall_uint_adv [of "adv 4 u"])
  show ?thesis using that a b by (simp add: unmarshall_ulonglong_def adv_adv)
qed

lemma okdone_adv: "u_ok u \<Longrightarrow> u_ind u \<le> u_sz u \<Longrightarrow> unm_wf u \<Longrightarrow> okdone (adv k u) \<longleftrightarrow> length (u_rest u) = k"
  by (auto simp: okdone_def adv_def length_u_rest min_def)

lemma unpack_req_header_total:
  assumes "unm_wf u" and "u_ok u"
  shows "\<exists>h. unpack_req_header u = Some (h, u\<lparr>u_ind := RPC_HEADER_SZ, u_ok := (RPC_HEADER_SZ \<le> u_sz u)\<rparr>)"
proof -
  let ?u = "u\<lparr>u_ind := 4\<rparr>"
  have wf: "unm_wf (adv k ?u)" for k using assms by simp
  obtain a where a: "unmarshall_uint ?u = Some (a, adv 4 ?u)" using assms by (auto intro: unmarshall_uint_adv [of ?u])
  obtain b where b: "unmarshall_uint (adv 4 ?u) = Some (b, adv 4 (adv 4 ?u))" using wf by (rule unmarshall_uint_adv)
  obtain c where c: "unmarshall_uint (adv 8 ?u) = Some (c, adv 4 (adv 8 ?u))" using wf by (rule unmarshall_uint_adv)
  obtain d where d: "unmarshall_uint (adv 12 ?u) = Some (d, adv 4 (adv 12 ?u))" using wf by (rule unmarshall_uint_adv)
  obtain e where e: "unmarshall_uint (adv 16 ?u) = Some (e, adv 4 (adv 16 ?u))" using wf by (rule unmarshall_uint_adv)
  show ?thesis using assms(2) a b c d e by (simp add: unpack_req_header_def adv_adv) (simp add: adv_def)
qed

lemma unpack_reply_header_total:
  assumes "unm_wf u" and "u_ok u"
  shows "\<exists>h. unpack_reply_header u = Some (h, u\<lparr>u_ind := RPC_HEADER_SZ, u_ok := (12 \<le> u_sz u)\<rparr>)"
proof -
  let ?u = "u\<lparr>u_ind := 4\<rparr>"
  have wf: "unm_wf (adv k ?u)" for k using assms by simp
  obtain a where a: "unmarshall_uint ?u = Some (a, adv 4 ?u)" using assms by (auto intro: unmarshall_uint_adv [of ?u])
  obtain b where b: "unmarshall_uint (adv 4 ?u) = Some (b, adv 4 (adv 4 ?u))" using wf by (rule unmarshall_uint_adv)
  show ?thesis using assms(2) a b by (simp add: unpack_reply_header_def adv_adv) (simp add: adv_def)
qed

section \<open>Properties\<close>

text \<open>
  Unpacking the header of a received PDU never reads outside it, whatever its bytes and
  its length; it reports an error exactly when the PDU is shorter than 24 bytes (a request)
  or 12 bytes (a reply).
\<close>

lemma headers_unpack_total:
  assumes "length b \<le> INT_MAX"
  shows "(\<exists>h u. unpack_req_header (unmarshall_of b (length b)) = Some (h, u) \<and>
      (u_ok u \<longleftrightarrow> 24 \<le> length b) \<and> u_buf u = b) \<and>
    (\<exists>h u. unpack_reply_header (unmarshall_of b (length b)) = Some (h, u) \<and>
      (u_ok u \<longleftrightarrow> 12 \<le> length b) \<and> u_buf u = b)"
proof -
  have "unm_wf (unmarshall_of b (length b))" "u_ok (unmarshall_of b (length b))"
    using assms by (simp_all add: unm_wf_def unmarshall_of_def)
  from unpack_req_header_total [OF this] unpack_reply_header_total [OF this] show ?thesis
    by (auto simp: unmarshall_of_def)
qed

text \<open>
  A request and a reply header written over the reserved bytes of a PDU are read back by
  the other side, and leave the payload behind them as it was.
\<close>

lemma header_roundtrip:
  assumes "marsh_wf m" and "24 \<le> m_ind m" and "m_ind m < MARSH_LIMIT"
  shows "(\<exists>m'. pack_req_header m h = Some m' \<and> drop 24 (m_contents m') = drop 24 (m_contents m) \<and>
      (\<forall>bs. wire_of (m_contents m') bs \<longrightarrow>
         unpack_req_header (unmarshall_of bs (length bs)) = Some (h, (unmarshall_of bs (length bs))\<lparr>u_ind := 24\<rparr>))) \<and>
    (\<exists>m'. pack_reply_header m r = Some m' \<and> drop 24 (m_contents m') = drop 24 (m_contents m) \<and>
      (\<forall>bs. wire_of (m_contents m') bs \<longrightarrow>
         unpack_reply_header (unmarshall_of bs (length bs)) = Some (r, (unmarshall_of bs (length bs))\<lparr>u_ind := 24\<rparr>)))"
proof
  have len: "length (m_contents m) = m_ind m" using assms(1) by simp
  obtain m' where m': "pack_req_header m h = Some m'"
    "m_contents m' = take 4 (m_contents m) @ map Some (enc_req h) @ drop 24 (m_contents m)"
    using assms(1,2) by (rule pack_req_header_contents)
  have "unpack_req_header (unmarshall_of bs (length bs)) = Some (h, (unmarshall_of bs (length bs))\<lparr>u_ind := 24\<rparr>)"
    if w: "wire_of (m_contents m') bs" for bs
  proof -
    from w obtain xs ys where bs: "bs = xs @ enc_req h @ ys" and l: "wire_of (take 4 (m_contents m)) xs"
        "wire_of (drop 24 (m_contents m)) ys" unfolding m'(2) wire_of_append wire_of_Some by auto
    show ?thesis
      by (rule unpack_req_header_wire [OF _ _ bs refl])
        (use wire_of_length [OF l(1)] wire_of_length [OF l(2)] len assms in simp_all)
  qed
  with m' len assms(2) show "\<exists>m'. pack_req_header m h = Some m' \<and> drop 24 (m_contents m') = drop 24 (m_contents m) \<and>
      (\<forall>bs. wire_of (m_contents m') bs \<longrightarrow>
         unpack_req_header (unmarshall_of bs (length bs)) = Some (h, (unmarshall_of bs (length bs))\<lparr>u_ind := 24\<rparr>))"
    by simp
next
  have len: "length (m_contents m) = m_ind m" using assms(1) by simp
  obtain m' where m': "pack_reply_header m r = Some m'"
    "m_contents m' = take 4 (m_contents m) @ map Some (enc_reply r) @ drop 12 (m_contents m)"
    using assms(1,2) by (rule pack_reply_header_contents)
  have "unpack_reply_header (unmarshall_of bs (length bs)) = Some (r, (unmarshall_of bs (length bs))\<lparr>u_ind := 24\<rparr>)"
    if w: "wire_of (m_contents m') bs" for bs
  proof -
    from w obtain xs ys where bs: "bs = xs @ enc_reply r @ ys" and l: "wire_of (take 4 (m_contents m)) xs"
        "wire_of (drop 12 (m_contents m)) ys" unfolding m'(2) wire_of_append wire_of_Some by auto
    show ?thesis
      by (rule unpack_reply_header_wire [OF _ _ bs refl])
        (use wire_of_length [OF l(1)] wire_of_length [OF l(2)] len assms in simp_all)
  qed
  with m' len assms(2) show "\<exists>m'. pack_reply_header m r = Some m' \<and> drop 24 (m_contents m') = drop 24 (m_contents m) \<and>
      (\<forall>bs. wire_of (m_contents m') bs \<longrightarrow>
         unpack_reply_header (unmarshall_of bs (length bs)) = Some (r, (unmarshall_of bs (length bs))\<lparr>u_ind := 24\<rparr>))"
    by simp
qed

subsection \<open>Strings\<close>

text \<open>
  C29: A string whose length field makes the position wrap around \<open>2 ^ 32\<close> passes the bound
  check of \<open>unmarshall::rawbytes\<close> and is read beyond the end of the buffer.
\<close>

theorem string_length_wraps:
  assumes "unm_wf u" and "u_ok u" and "u_rest u = be32 n @ r" and "u_sz u = length (u_buf u)"
    and "4294967296 \<le> u_ind u + 4 + unat n"
  shows "unmarshall_string s u = None"
proof -
  let ?u = "u\<lparr>u_ind := u_ind u + 4\<rparr>"
  have 1: "unmarshall_uint u = Some (n, ?u)" using get_okD [OF get_ok_uint assms(1-3)] by simp
  have len: "u_ind u + 4 \<le> u_sz u" "u_sz u \<le> length (u_buf u)" "u_sz u \<le> INT_MAX"
    using u_rest_len [OF assms(1,3)] assms(1) by (simp_all add: be32_def unm_wf_def)
  let ?k = "u_ind u + 4 + unat n - 4294967296"
  have "unat n < 4294967296" using unsigned_less [of n, where 'a = nat] by simp
  then have k: "?k \<le> u_sz u" using len by simp
  have "(of_nat (u_ind u + 4) + n :: u32) = of_nat (u_ind u + 4 + unat n)" by simp
  also have "\<dots> = of_nat (?k + 4294967296)" using assms(5) by (simp only: le_add_diff_inverse2)
  also have "\<dots> = of_nat ?k" by simp
  finally have "\<not> (of_nat (u_sz u) < (of_nat (u_ind ?u) + n :: u32))"
    using k len by (simp add: of_nat_u32_less del: of_nat_add)
  moreover have "\<not> u_ind ?u + unat n \<le> length (u_buf u)" using len assms(4,5) by simp
  ultimately have "unmarshall_rawbytes ?u s n = None" by (simp add: unmarshall_rawbytes_def)
  with 1 assms(2) show ?thesis by (simp add: unmarshall_string_def)
qed

theorem string_length_wraps_witness:
  "unmarshall_string [] ((unmarshall_of (replicate 24 0 @ be32 0xFFFFFFFF) 28)\<lparr>u_ind := 24\<rparr>) = None"
  by (rule string_length_wraps [of _ "0xFFFFFFFF" "[]"])
    (simp_all add: unm_wf_def unmarshall_of_def u_rest_def)

end
