(* ===== verification/WireTypes.thy ===== *)
theory WireTypes
  imports Wire
begin

text \<open>
  The types a message can be built from. The operators \<open>operator<<\<close> and \<open>operator>>\<close> of
  \<open>rpc/marshall.h\<close> are overloaded: eight for the base types, and templates that make them for
  \<open>std::vector<C>\<close> and \<open>std::map<A, B>\<close> from those of \<open>C\<close>, \<open>A\<close> and \<open>B\<close>. A \<open>wire_ty\<close> is a type that this
  overloading accepts, nested to any depth, and \<open>put_ty\<close> and \<open>get_ty\<close> are the operators the compiler
  selects for it. Keys of maps are \<open>unsigned int\<close> or \<open>unsigned long long\<close>, whose order in the source
  is the order of the words. Shown: an insertion keeps the buffer well-formed, an extraction
  returns only values of its type and keeps the buffer, it always returns at types without
  strings, and at every type it undoes the insertion.
\<close>

section \<open>Types and values\<close>

datatype wire_ty =
    T_uchar | T_char | T_ushort | T_short | T_uint | T_int | T_ulonglong | T_string
  | T_vector wire_ty | T_map_uint wire_ty | T_map_ulonglong wire_ty

datatype wire_val =
    V_uchar u8 | V_char u8 | V_ushort u16 | V_short u16 | V_uint u32 | V_int u32 | V_ulonglong u64
  | V_string bytes | V_vector "wire_val list" | V_map_uint "(u32 \<times> wire_val) list"
  | V_map_ulonglong "(u64 \<times> wire_val) list"

text \<open>A map is the list of its pairs in the order of the keys, each key once.\<close>

definition typed_map :: "('b \<Rightarrow> bool) \<Rightarrow> ('a::linorder \<times> 'b) list \<Rightarrow> bool" where
  "typed_map P d \<longleftrightarrow> sorted_wrt (<) (map fst d) \<and> list_all (\<lambda>(_, v). P v) d"

primrec has_type :: "wire_ty \<Rightarrow> wire_val \<Rightarrow> bool" where
  "has_type T_uchar v = (case v of V_uchar _ \<Rightarrow> True | _ \<Rightarrow> False)"
| "has_type T_char v = (case v of V_char _ \<Rightarrow> True | _ \<Rightarrow> False)"
| "has_type T_ushort v = (case v of V_ushort _ \<Rightarrow> True | _ \<Rightarrow> False)"
| "has_type T_short v = (case v of V_short _ \<Rightarrow> True | _ \<Rightarrow> False)"
| "has_type T_uint v = (case v of V_uint _ \<Rightarrow> True | _ \<Rightarrow> False)"
| "has_type T_int v = (case v of V_int _ \<Rightarrow> True | _ \<Rightarrow> False)"
| "has_type T_ulonglong v = (case v of V_ulonglong _ \<Rightarrow> True | _ \<Rightarrow> False)"
| "has_type T_string v = (case v of V_string _ \<Rightarrow> True | _ \<Rightarrow> False)"
| "has_type (T_vector t) v = (case v of V_vector vs \<Rightarrow> list_all (has_type t) vs | _ \<Rightarrow> False)"
| "has_type (T_map_uint t) v = (case v of V_map_uint d \<Rightarrow> typed_map (has_type t) d | _ \<Rightarrow> False)"
| "has_type (T_map_ulonglong t) v = (case v of V_map_ulonglong d \<Rightarrow> typed_map (has_type t) d | _ \<Rightarrow> False)"

section \<open>The operators the compiler selects\<close>

text \<open>\<open>m << v\<close> for a \<open>v\<close> of the type; a value of another type does not compile, which is \<open>None\<close>.\<close>

primrec put_ty :: "wire_ty \<Rightarrow> marshall \<Rightarrow> wire_val \<Rightarrow> marshall option" where
  "put_ty T_uchar m v = (case v of V_uchar x \<Rightarrow> marshall_uchar m x | _ \<Rightarrow> None)"
| "put_ty T_char m v = (case v of V_char x \<Rightarrow> marshall_char m x | _ \<Rightarrow> None)"
| "put_ty T_ushort m v = (case v of V_ushort x \<Rightarrow> marshall_ushort m x | _ \<Rightarrow> None)"
| "put_ty T_short m v = (case v of V_short x \<Rightarrow> marshall_short m x | _ \<Rightarrow> None)"
| "put_ty T_uint m v = (case v of V_uint x \<Rightarrow> marshall_uint m x | _ \<Rightarrow> None)"
| "put_ty T_int m v = (case v of V_int x \<Rightarrow> marshall_int m x | _ \<Rightarrow> None)"
| "put_ty T_ulonglong m v = (case v of V_ulonglong x \<Rightarrow> marshall_ulonglong m x | _ \<Rightarrow> None)"
| "put_ty T_string m v = (case v of V_string s \<Rightarrow> marshall_string m s | _ \<Rightarrow> None)"
| "put_ty (T_vector t) m v = (case v of V_vector vs \<Rightarrow> marshall_vector (put_ty t) m vs | _ \<Rightarrow> None)"
| "put_ty (T_map_uint t) m v = (case v of V_map_uint d \<Rightarrow> marshall_map marshall_uint (put_ty t) m d | _ \<Rightarrow> None)"
| "put_ty (T_map_ulonglong t) m v =
     (case v of V_map_ulonglong d \<Rightarrow> marshall_map marshall_ulonglong (put_ty t) m d | _ \<Rightarrow> None)"

text \<open>\<open>u >> z\<close> for a fresh \<open>z\<close> of the type: an empty string, vector or map.\<close>

definition tagged ::
  "('a \<Rightarrow> wire_val) \<Rightarrow> (unmarshall \<Rightarrow> ('a \<times> unmarshall) option) \<Rightarrow> unmarshall \<Rightarrow> (wire_val \<times> unmarshall) option" where
  "tagged f get u = do { (x, u) \<leftarrow> get u; Some (f x, u) }"

primrec get_ty :: "wire_ty \<Rightarrow> unmarshall \<Rightarrow> (wire_val \<times> unmarshall) option" where
  "get_ty T_uchar = tagged V_uchar unmarshall_uchar"
| "get_ty T_char = tagged V_char unmarshall_char"
| "get_ty T_ushort = tagged V_ushort unmarshall_ushort"
| "get_ty T_short = tagged V_short unmarshall_short"
| "get_ty T_uint = tagged V_uint unmarshall_uint"
| "get_ty T_int = tagged V_int unmarshall_int"
| "get_ty T_ulonglong = tagged V_ulonglong unmarshall_ulonglong"
| "get_ty T_string = tagged V_string (unmarshall_string [])"
| "get_ty (T_vector t) = tagged V_vector (unmarshall_vector (get_ty t) [])"
| "get_ty (T_map_uint t) = tagged V_map_uint (unmarshall_map unmarshall_uint (get_ty t))"
| "get_ty (T_map_ulonglong t) = tagged V_map_ulonglong (unmarshall_map unmarshall_ulonglong (get_ty t))"

text \<open>The reference encoding of a value, and the types without strings.\<close>

primrec enc_ty :: "wire_ty \<Rightarrow> wire_val \<Rightarrow> bytes" where
  "enc_ty T_uchar v = (case v of V_uchar x \<Rightarrow> [x] | _ \<Rightarrow> [])"
| "enc_ty T_char v = (case v of V_char x \<Rightarrow> [x] | _ \<Rightarrow> [])"
| "enc_ty T_ushort v = (case v of V_ushort x \<Rightarrow> be16 x | _ \<Rightarrow> [])"
| "enc_ty T_short v = (case v of V_short x \<Rightarrow> be16 x | _ \<Rightarrow> [])"
| "enc_ty T_uint v = (case v of V_uint x \<Rightarrow> be32 x | _ \<Rightarrow> [])"
| "enc_ty T_int v = (case v of V_int x \<Rightarrow> be32 x | _ \<Rightarrow> [])"
| "enc_ty T_ulonglong v = (case v of V_ulonglong x \<Rightarrow> be64 x | _ \<Rightarrow> [])"
| "enc_ty T_string v = (case v of V_string s \<Rightarrow> enc_string s | _ \<Rightarrow> [])"
| "enc_ty (T_vector t) v = (case v of V_vector vs \<Rightarrow> enc_vector (enc_ty t) vs | _ \<Rightarrow> [])"
| "enc_ty (T_map_uint t) v = (case v of V_map_uint d \<Rightarrow> enc_vector (enc_pair be32 (enc_ty t)) d | _ \<Rightarrow> [])"
| "enc_ty (T_map_ulonglong t) v = (case v of V_map_ulonglong d \<Rightarrow> enc_vector (enc_pair be64 (enc_ty t)) d | _ \<Rightarrow> [])"

primrec string_free :: "wire_ty \<Rightarrow> bool" where
  "string_free T_uchar = True"
| "string_free T_char = True"
| "string_free T_ushort = True"
| "string_free T_short = True"
| "string_free T_uint = True"
| "string_free T_int = True"
| "string_free T_ulonglong = True"
| "string_free T_string = False"
| "string_free (T_vector t) = string_free t"
| "string_free (T_map_uint t) = string_free t"
| "string_free (T_map_ulonglong t) = string_free t"

section \<open>Extraction keeps the buffer\<close>

lemma get_frame_tagged: "get_frame get \<Longrightarrow> get_frame (tagged f get)"
  unfolding tagged_def by (rule get_frame_bind [OF _ get_frame_Some])

lemma get_frame_ty: "get_frame (get_ty t)"
  by (induction t)
    (simp_all add: get_frame_tagged get_frame_base get_frame_ulonglong get_frame_string get_frame_vector get_frame_map)

section \<open>Extraction returns values of its type\<close>

text \<open>\<open>gets_only P get\<close>: whatever \<open>get\<close> returns satisfies \<open>P\<close>.\<close>

definition gets_only :: "('a \<Rightarrow> bool) \<Rightarrow> (unmarshall \<Rightarrow> ('a \<times> unmarshall) option) \<Rightarrow> bool" where
  "gets_only P get \<longleftrightarrow> (\<forall>u x u'. get u = Some (x, u') \<longrightarrow> P x)"

lemma gets_only_True: "gets_only (\<lambda>_. True) get"
  by (simp add: gets_only_def)

lemma gets_only_Some: "P x \<Longrightarrow> gets_only P (\<lambda>u. Some (x, u))"
  by (simp add: gets_only_def)

lemma gets_only_bind:
  "gets_only Q g \<Longrightarrow> (\<And>x. Q x \<Longrightarrow> gets_only P (h x)) \<Longrightarrow>
   gets_only P (\<lambda>u. Option.bind (g u) (\<lambda>(x, u). h x u))"
  unfolding gets_only_def by (fastforce elim!: bind_SomeE)

lemma gets_only_tagged: "gets_only (\<lambda>x. Q (f x)) get \<Longrightarrow> gets_only Q (tagged f get)"
  unfolding tagged_def by (rule gets_only_bind [OF _ gets_only_Some])

text \<open>The loops of the templates as functions of the buffer alone.\<close>

lemma unmarshall_elems_fun:
  "unmarshall_elems get 0 v = (\<lambda>u. Some (v, u))"
  "unmarshall_elems get (Suc n) v = (\<lambda>u. Option.bind (get u) (\<lambda>(z, u). unmarshall_elems get n (v @ [z]) u))"
  by (simp_all add: fun_eq_iff)

lemma unmarshall_pairs_fun:
  "unmarshall_pairs getA getB 0 d = (\<lambda>u. Some (d, u))"
  "unmarshall_pairs getA getB (Suc n) d = (\<lambda>u. Option.bind (getA u) (\<lambda>(a, u). Option.bind (getB u)
     (\<lambda>(b, u). unmarshall_pairs getA getB n (map_assign a b d) u)))"
  by (simp_all add: fun_eq_iff)

lemma gets_only_elems:
  "gets_only P get \<Longrightarrow> list_all P v \<Longrightarrow> gets_only (list_all P) (unmarshall_elems get n v)"
  by (induction n arbitrary: v) (auto simp: unmarshall_elems_fun intro: gets_only_Some gets_only_bind)

lemma gets_only_vector: "gets_only P get \<Longrightarrow> gets_only (list_all P) (unmarshall_vector get [])"
  unfolding unmarshall_vector_def
  by (rule gets_only_bind [OF gets_only_True]) (simp add: gets_only_elems)

lemma fst_map_assign: "fst ` set (map_assign a b d) = insert a (fst ` set d)"
  by (induction a b d rule: map_assign.induct) auto

lemma map_assign_typed:
  assumes "typed_map P d" and "P b"
  shows "typed_map P (map_assign a b d)"
proof -
  have "sorted_wrt (<) (map fst (map_assign a b d))"
    using assms(1) unfolding typed_map_def
  proof (induction a b d rule: map_assign.induct)
    case (2 a b k v d)
    have "\<forall>x\<in>insert a (fst ` set d). k < x" if "k < a" using that 2(2) by auto
    then show ?case using 2 by (auto simp flip: fst_map_assign [of a b d])
  qed simp
  moreover have "list_all (\<lambda>(_, v). P v) (map_assign a b d)"
    using assms unfolding typed_map_def by (induction a b d rule: map_assign.induct) auto
  ultimately show ?thesis by (simp add: typed_map_def)
qed

lemma gets_only_pairs:
  assumes "gets_only P getB"
  shows "typed_map P d \<Longrightarrow> gets_only (typed_map P) (unmarshall_pairs getA getB n d)"
proof (induction n arbitrary: d)
  case 0
  then show ?case by (simp add: unmarshall_pairs_fun gets_only_Some)
next
  case (Suc n)
  show ?case
    unfolding unmarshall_pairs_fun
    by (rule gets_only_bind [OF gets_only_True], rule gets_only_bind [OF assms])
      (rule Suc.IH, rule map_assign_typed [OF Suc.prems])
qed

lemma gets_only_map: "gets_only P getB \<Longrightarrow> gets_only (typed_map P) (unmarshall_map getA getB)"
  unfolding unmarshall_map_def
  by (rule gets_only_bind [OF gets_only_True], rule gets_only_pairs) (simp_all add: typed_map_def)

lemma gets_only_ty: "gets_only (has_type t) (get_ty t)"
  by (induction t) (simp_all add: gets_only_tagged gets_only_True gets_only_vector gets_only_map)

section \<open>Extraction returns\<close>

definition get_total :: "(unmarshall \<Rightarrow> ('a \<times> unmarshall) option) \<Rightarrow> bool" where
  "get_total get \<longleftrightarrow> (\<forall>u. unm_wf u \<longrightarrow> (\<exists>x u'. get u = Some (x, u') \<and> unm_wf u'))"

lemma get_total_Some: "get_total (\<lambda>u. Some (x, u))"
  by (simp add: get_total_def)

lemma get_total_bind:
  assumes "get_total g" and "\<And>x. get_total (h x)"
  shows "get_total (\<lambda>u. Option.bind (g u) (\<lambda>(x, u). h x u))"
  unfolding get_total_def
proof (intro allI impI)
  fix u assume "unm_wf u"
  then obtain x u1 where "g u = Some (x, u1)" "unm_wf u1" using assms(1) by (auto simp: get_total_def)
  then show "\<exists>y u'. Option.bind (g u) (\<lambda>(x, u). h x u) = Some (y, u') \<and> unm_wf u'"
    using assms(2) [of x] by (auto simp: get_total_def)
qed

lemma get_total_rawbyte: "get_total unmarshall_rawbyte"
  unfolding get_total_def by (metis unmarshall_rawbyte_adv unm_wf_adv)

lemmas get_total_rules = get_total_bind get_total_Some get_total_rawbyte

lemma get_total_base:
  "get_total unmarshall_uchar" "get_total unmarshall_char" "get_total unmarshall_ushort"
  "get_total unmarshall_uint"
  unfolding unmarshall_uchar_def unmarshall_char_def unmarshall_ushort_def unmarshall_uint_def
  by (rule get_total_rules)+

lemma get_total_ulonglong: "get_total unmarshall_ulonglong"
  unfolding unmarshall_ulonglong_def by (rule get_total_rules get_total_base)+

lemma get_total_elems: "get_total get \<Longrightarrow> get_total (unmarshall_elems get n v)"
  by (induction n arbitrary: v) (auto simp: unmarshall_elems_fun intro: get_total_Some get_total_bind)

lemma get_total_pairs: "get_total getA \<Longrightarrow> get_total getB \<Longrightarrow> get_total (unmarshall_pairs getA getB n d)"
  by (induction n arbitrary: d) (auto simp: unmarshall_pairs_fun intro!: get_total_Some get_total_bind)

lemma get_total_vector: "get_total get \<Longrightarrow> get_total (unmarshall_vector get v)"
  unfolding unmarshall_vector_def by (rule get_total_bind get_total_base get_total_elems | assumption)+

lemma get_total_map: "get_total getA \<Longrightarrow> get_total getB \<Longrightarrow> get_total (unmarshall_map getA getB)"
  unfolding unmarshall_map_def by (rule get_total_bind get_total_base get_total_pairs | assumption)+

lemma get_total_tagged: "get_total get \<Longrightarrow> get_total (tagged f get)"
  unfolding tagged_def by (rule get_total_bind [OF _ get_total_Some])

lemma get_total_ty: "string_free t \<Longrightarrow> get_total (get_ty t)"
  by (induction t)
    (simp_all add: get_total_tagged get_total_base get_total_ulonglong get_total_vector get_total_map)

section \<open>Insertion and extraction are inverse at every type\<close>

lemma get_ok_tagged: "get_ok get x bs \<Longrightarrow> get_ok (tagged f get) (f x) bs"
  unfolding tagged_def by (rule get_ok_bind_Some)

text \<open>Every value takes at least a byte, so a message below the limit has no collection that is too long.\<close>

lemma length_concat_ge:
  assumes "\<And>x. x \<in> set xs \<Longrightarrow> enc x \<noteq> []"
  shows "length xs \<le> length (concat (map enc xs))" and "x \<in> set xs \<Longrightarrow> length (enc x) \<le> length (concat (map enc xs))"
proof -
  show "length xs \<le> length (concat (map enc xs))"
    using assms
  proof (induction xs)
    case (Cons x xs)
    then have "0 < length (enc x)" "length xs \<le> length (concat (map enc xs))" by auto
    then show ?case by (simp only: list.map concat.simps length_append list.size)
  qed simp
  show "x \<in> set xs \<Longrightarrow> length (enc x) \<le> length (concat (map enc xs))" by (induction xs) auto
qed

lemma enc_ty_nonempty: "has_type t v \<Longrightarrow> enc_ty t v \<noteq> []"
  by (cases t; cases v) (simp_all add: be16_def be32_def be64_def enc_string_def enc_vector_def)

lemma enc_vector_len:
  assumes "\<And>x. x \<in> set xs \<Longrightarrow> enc x \<noteq> []"
  shows "length xs \<le> length (enc_vector enc xs)" and "x \<in> set xs \<Longrightarrow> length (enc x) \<le> length (enc_vector enc xs)"
  using length_concat_ge [of xs enc] assms by (fastforce simp: enc_vector_def)+

lemma string_fits: "length (enc_string s) \<le> INT_MAX \<Longrightarrow> short_list s"
  by (simp add: enc_string_def short_list_def)

lemma vector_fits:
  assumes "list_all (has_type t) vs" and "length (enc_vector (enc_ty t) vs) \<le> INT_MAX"
  shows "short_list vs" and "x \<in> set vs \<Longrightarrow> length (enc_ty t x) \<le> INT_MAX"
proof -
  have "enc_ty t x \<noteq> []" if "x \<in> set vs" for x using assms(1) that by (simp add: list_all_iff enc_ty_nonempty)
  note len = enc_vector_len [of vs "enc_ty t", OF this]
  from len(1) assms(2) show "short_list vs" by (simp add: short_list_def)
  from len(2) [of x] assms(2) show "x \<in> set vs \<Longrightarrow> length (enc_ty t x) \<le> INT_MAX" by simp
qed

lemma map_fits:
  assumes "\<And>a. encA a \<noteq> []" and "length (enc_vector (enc_pair encA encB) d) \<le> INT_MAX"
  shows "short_list d" and "(a, b) \<in> set d \<Longrightarrow> length (encB b) \<le> INT_MAX"
proof -
  have "enc_pair encA encB ab \<noteq> []" for ab using assms(1) by (simp add: enc_pair_def)
  note len = enc_vector_len [of d "enc_pair encA encB", OF this]
  from len(1) assms(2) show "short_list d" by (simp add: short_list_def)
  from len(2) [of "(a, b)"] assms(2) show "(a, b) \<in> set d \<Longrightarrow> length (encB b) \<le> INT_MAX" by simp
qed

lemma be_nonempty: "be32 a \<noteq> []" "be64 b \<noteq> []"
  by (simp_all add: be32_def be64_def)

text \<open>Insertion appends the reference encoding, and extraction takes it off again.\<close>

lemma ty_codec:
  "has_type t v \<Longrightarrow> length (enc_ty t v) \<le> INT_MAX \<Longrightarrow>
   put_ok (\<lambda>m. put_ty t m v) (enc_ty t v) \<and> get_ok (get_ty t) v (enc_ty t v)"
proof (induction t arbitrary: v)
  case T_string
  then show ?case
    by (auto intro!: put_ok_string get_ok_tagged get_ok_string dest: string_fits split: wire_val.splits)
next
  case (T_vector t)
  then obtain vs where v: "v = V_vector vs" "list_all (has_type t) vs" by (auto split: wire_val.splits)
  with T_vector.prems(2) have "length (enc_vector (enc_ty t) vs) \<le> INT_MAX" by simp
  note fits = vector_fits [OF v(2) this]
  show ?case using T_vector.IH fits v by (auto simp: list_all_iff intro!: put_ok_vector get_ok_tagged get_ok_vector)
next
  case (T_map_uint t)
  then obtain d where v: "v = V_map_uint d" "typed_map (has_type t) d" by (auto split: wire_val.splits)
  with T_map_uint.prems(2) have "length (enc_vector (enc_pair be32 (enc_ty t)) d) \<le> INT_MAX" by simp
  note fits = map_fits [OF be_nonempty(1) this]
  show ?case using T_map_uint.IH fits v
    by (auto simp: typed_map_def list_all_iff intro!: put_ok_map put_ok_uint get_ok_tagged get_ok_map get_ok_uint)
next
  case (T_map_ulonglong t)
  then obtain d where v: "v = V_map_ulonglong d" "typed_map (has_type t) d" by (auto split: wire_val.splits)
  with T_map_ulonglong.prems(2) have "length (enc_vector (enc_pair be64 (enc_ty t)) d) \<le> INT_MAX" by simp
  note fits = map_fits [OF be_nonempty(2) this]
  show ?case using T_map_ulonglong.IH fits v
    by (auto simp: typed_map_def list_all_iff intro!: put_ok_map put_ok_ulonglong get_ok_tagged get_ok_map get_ok_ulonglong)
qed (auto split: wire_val.splits intro: get_ok_tagged c_uchar.put_enc c_char.put_enc c_ushort.put_enc c_short.put_enc
  c_uint.put_enc c_int.put_enc c_ulonglong.put_enc c_uchar.get_enc c_char.get_enc c_ushort.get_enc c_short.get_enc
  c_uint.get_enc c_int.get_enc c_ulonglong.get_enc simp del: unmarshall_short_ushort unmarshall_int_uint)

interpretation c_ty: codec "put_ty t" "get_ty t" "enc_ty t" "\<lambda>v. has_type t v \<and> length (enc_ty t v) \<le> INT_MAX" for t
  by unfold_locales (auto simp: ty_codec get_frame_ty)

section \<open>Properties\<close>

text \<open>
  C12: Extraction is type sound, whatever bytes arrive. At every type, what \<open>operator>>\<close> returns is a
  value of that type (a map has its keys in order, each once), and the buffer it leaves is the
  same buffer, still well-formed, with the read position not moved back and an earlier error not
  cleared. At a type without strings it always returns. Insertion of a value of the type never
  fails below the size limit and leaves a well-formed object.
\<close>

theorem wire_types_sound:
  assumes "unm_wf u" and "marsh_wf m"
  shows "(\<forall>v u'. get_ty t u = Some (v, u') \<longrightarrow> has_type t v \<and> unm_wf u' \<and> unm_ext u u') \<and>
    (string_free t \<longrightarrow> get_ty t u \<noteq> None) \<and>
    (\<forall>v. has_type t v \<and> m_ind m + length (enc_ty t v) < MARSH_LIMIT \<longrightarrow>
      (\<exists>m'. put_ty t m v = Some m' \<and> marsh_wf m'))"
proof (intro conjI allI impI)
  fix v u' assume g: "get_ty t u = Some (v, u')"
  with gets_only_ty show "has_type t v" by (auto simp: gets_only_def)
  from get_frameD [OF get_frame_ty g] show "unm_ext u u'" .
  with assms(1) show "unm_wf u'" by (rule unm_ext_wf [rotated])
next
  assume "string_free t"
  with assms(1) show "get_ty t u \<noteq> None" using get_total_ty [of t] by (auto simp: get_total_def)
next
  fix v assume v: "has_type t v \<and> m_ind m + length (enc_ty t v) < MARSH_LIMIT"
  then have "put_ok (\<lambda>m. put_ty t m v) (enc_ty t v)" by (intro c_ty.put_enc) simp
  with assms(2) v show "\<exists>m'. put_ty t m v = Some m' \<and> marsh_wf m'" by (auto elim: put_okD)
qed

theorem wire_types_sound_witness:
  "get_ty (T_map_uint (T_vector T_short)) (unmarshall_of [0, 1, 2, 3, 0, 0, 0, 9] 8) \<noteq> None"
  using wire_types_sound [of "unmarshall_of [0, 1, 2, 3, 0, 0, 0, 9] 8" marshall_new "T_map_uint (T_vector T_short)"]
  by (simp add: unm_wf_def unmarshall_of_def marsh_wf_def marshall_new_def)

text \<open>
  C13: A value of any type the operators accept, vectors and maps nested to any depth, inserted
  behind anything, is extracted unchanged from the bytes the other side receives, whatever the
  bytes the program left indeterminate, and the read position ends exactly at the end of the
  buffer. No bound on the lengths of strings, vectors and maps is needed beyond the size limit of
  the message.
\<close>

theorem wire_values_roundtrip:
  assumes "has_type t v" and "marsh_wf m" and "m_ind m + length (enc_ty t v) < MARSH_LIMIT"
  shows "\<exists>m'. put_ty t m v = Some m' \<and> (\<forall>bs. wire_of (m_contents m') bs \<longrightarrow>
    (\<exists>u'. get_ty t ((unmarshall_of bs (length bs))\<lparr>u_ind := m_ind m\<rparr>) = Some (v, u') \<and> okdone u'))"
  by (rule c_ty.roundtrip) (use assms in simp_all)

theorem wire_values_roundtrip_witness:
  "\<exists>m'. put_ty (T_map_ulonglong (T_vector T_string)) marshall_new
      (V_map_ulonglong [(2, V_vector [V_string [97], V_string []]), (5, V_vector [])]) = Some m' \<and>
    (\<forall>bs. wire_of (m_contents m') bs \<longrightarrow>
      (\<exists>u'. get_ty (T_map_ulonglong (T_vector T_string)) ((unmarshall_of bs (length bs))\<lparr>u_ind := 24\<rparr>) =
        Some (V_map_ulonglong [(2, V_vector [V_string [97], V_string []]), (5, V_vector [])], u') \<and> okdone u'))"
  using wire_values_roundtrip [of "T_map_ulonglong (T_vector T_string)"
      "V_map_ulonglong [(2, V_vector [V_string [97], V_string []]), (5, V_vector [])]" marshall_new]
  by (simp add: typed_map_def marsh_wf_def marshall_new_def enc_vector_def enc_pair_def enc_string_def)

end
