(* ===== verification/ReplyBuf.thy ===== *)
theory ReplyBuf
  imports AtMostOnce
begin

text \<open>
  The buffers of the stored replies. \<open>Rpcs\<close> models the reply window with the bytes of the replies in its
  entries; here the entries hold pointers, as in \<open>rpc/rpc.cc\<close>, and the heap of buffers is explicit.

  First, the operations on pointers refine those on values (\<open>abs_window\<close>), and free no buffer twice.
  Second, the dispatch threads interleave between the critical sections of \<open>reply_window_m_\<close>. The
  invariant says who owns each allocated buffer: an entry of the window, a thread, or nobody any more
  (\<open>b_lost\<close>). It shows which uses of buffers are safe in every interleaving, and two defects: the
  buffer of every reply that the window copies is lost, and the pointer that a duplicate is given
  may be freed before it is sent.
\<close>

section \<open>The heap of buffers\<close>

type_synonym addr = nat
type_synonym heap_bufs = "addr \<rightharpoonup> cells"

text \<open>\<open>None\<close> is undefined behaviour: a double free, or the use of a freed buffer. \<open>free(NULL)\<close> does nothing.
  The address that \<open>malloc\<close> answers is an argument of the operations below.\<close>

definition free_buf :: "addr option \<Rightarrow> heap_bufs \<Rightarrow> heap_bufs option" where
  "free_buf p M = (case p of None \<Rightarrow> Some M | Some a \<Rightarrow> if M a = None then None else Some (M(a := None)))"

record reply_p =
  p_xid :: u32
  p_cb_present :: bool
  p_buf :: "addr option"

definition reply_p_new :: "u32 \<Rightarrow> reply_p" where
  "reply_p_new xid = \<lparr>p_xid = xid, p_cb_present = False, p_buf = None\<rparr>"

type_synonym window_p = "u32 \<rightharpoonup> reply_p list"

section \<open>The operations\<close>

fun checkduplicate_loop_p ::
  "u32 \<Rightarrow> u32 \<Rightarrow> reply_p list \<Rightarrow> heap_bufs \<Rightarrow> ((rpcstate_t \<times> addr option) option \<times> reply_p list \<times> heap_bufs) option" where
  "checkduplicate_loop_p xid xid_rep [] M = Some (None, [], M)"
| "checkduplicate_loop_p xid xid_rep (it # l) M =
     (if p_xid it = xid then
        (if p_xid it \<le> xid_rep then do {
           M \<leftarrow> free_buf (p_buf it) M;
           Some (Some (FORGOTTEN, None), l, M)
         }
         else if p_cb_present it then Some (Some (DONE, p_buf it), it # l, M)
         else Some (Some (INPROGRESS, None), it # l, M))
      else if p_xid it \<le> xid_rep then do {
        M \<leftarrow> free_buf (p_buf it) M;
        checkduplicate_loop_p xid xid_rep l M
      }
      else do {
        (v, l, M) \<leftarrow> checkduplicate_loop_p xid xid_rep l M;
        Some (v, it # l, M)
      })"

definition checkduplicate_p ::
  "window_p \<Rightarrow> heap_bufs \<Rightarrow> u32 \<Rightarrow> u32 \<Rightarrow> u32 \<Rightarrow> ((rpcstate_t \<times> addr option) \<times> window_p \<times> heap_bufs) option" where
  "checkduplicate_p W M clt_nonce xid xid_rep = do {
     l \<leftarrow> W clt_nonce;
     (v, l, M) \<leftarrow> checkduplicate_loop_p xid xid_rep l M;
     Some (case v of
             Some sb \<Rightarrow> (sb, W(clt_nonce \<mapsto> l), M)
           | None \<Rightarrow> ((NEW, None), W(clt_nonce \<mapsto> l @ [reply_p_new xid]), M))
   }"

text \<open>The loop of \<open>add_reply\<close>: the list, and the pointer that was overwritten if the entry was found.
  \<open>a\<close> is what \<open>malloc\<close> answers.\<close>

fun add_reply_list_p :: "addr \<Rightarrow> u32 \<Rightarrow> reply_p list \<Rightarrow> reply_p list \<times> addr option option" where
  "add_reply_list_p a xid [] = ([], None)"
| "add_reply_list_p a xid (it # l) =
     (if p_xid it = xid then (it\<lparr>p_buf := Some a, p_cb_present := True\<rparr> # l, Some (p_buf it))
      else let (l, r) = add_reply_list_p a xid l in (it # l, r))"

definition add_reply_p ::
  "addr \<Rightarrow> window_p \<Rightarrow> heap_bufs \<Rightarrow> u32 \<Rightarrow> u32 \<Rightarrow> addr \<Rightarrow> (window_p \<times> heap_bufs \<times> addr option) option" where
  "add_reply_p a W M clt_nonce xid b =
     (let (l, r) = add_reply_list_p a xid (case W clt_nonce of None \<Rightarrow> [] | Some l \<Rightarrow> l);
          W = W(clt_nonce \<mapsto> l)
      in case r of
           None \<Rightarrow> Some (W, M, None)
         | Some old \<Rightarrow> do { cs \<leftarrow> M b; Some (W, M(a \<mapsto> cs), old) })"

section \<open>Refinement\<close>

definition abs_reply :: "heap_bufs \<Rightarrow> reply_p \<Rightarrow> reply_t" where
  "abs_reply M it = \<lparr>r_xid = p_xid it, r_cb_present = p_cb_present it, r_buf = Option.bind (p_buf it) M\<rparr>"

definition abs_window :: "heap_bufs \<Rightarrow> window_p \<Rightarrow> (u32 \<rightharpoonup> reply_t list)" where
  "abs_window M W = (\<lambda>n. map_option (map (abs_reply M)) (W n))"

definition ptrs :: "reply_p list \<Rightarrow> addr list" where
  "ptrs l = List.map_filter p_buf l"

definition wptrs :: "window_p \<Rightarrow> u32 \<Rightarrow> addr list" where
  "wptrs W n = (case W n of None \<Rightarrow> [] | Some l \<Rightarrow> ptrs l)"

definition allp :: "window_p \<Rightarrow> addr set" where
  "allp W = (\<Union>n. set (wptrs W n))"

text \<open>No two entries share a buffer.\<close>

definition own_ok :: "window_p \<Rightarrow> bool" where
  "own_ok W \<longleftrightarrow> (\<forall>n. distinct (wptrs W n)) \<and> (\<forall>n m. n \<noteq> m \<longrightarrow> set (wptrs W n) \<inter> set (wptrs W m) = {})"

lemma ptrs_simps [simp]:
  "ptrs [] = []" "ptrs (it # l) = (case p_buf it of None \<Rightarrow> ptrs l | Some a \<Rightarrow> a # ptrs l)"
  "ptrs (l @ l') = ptrs l @ ptrs l'"
  by (simp_all add: ptrs_def List.map_filter_def split: option.splits)

lemma wptrs_upd [simp]: "wptrs (W(n \<mapsto> l)) m = (if m = n then ptrs l else wptrs W m)"
  by (simp add: wptrs_def)

lemma wptrs_Some: "W n = Some l \<Longrightarrow> wptrs W n = ptrs l"
  by (simp add: wptrs_def)

lemma wptrs_allp: "a \<in> set (wptrs W n) \<Longrightarrow> a \<in> allp W"
  by (auto simp: allp_def)

lemma allp_ptrs: "W n = Some l \<Longrightarrow> set (ptrs l) \<subseteq> allp W"
  using wptrs_allp [of _ W n] by (auto simp: wptrs_Some)

lemma abs_reply_cong:
  "(\<And>a. p_buf it = Some a \<Longrightarrow> M' a = M a) \<Longrightarrow> abs_reply M' it = abs_reply M it"
  by (cases "p_buf it") (simp_all add: abs_reply_def)

lemma abs_replies_cong: "(\<And>a. a \<in> set (ptrs l) \<Longrightarrow> M' a = M a) \<Longrightarrow> map (abs_reply M') l = map (abs_reply M) l"
  by (induction l) (auto intro!: abs_reply_cong split: option.splits)

lemma own_upd:
  assumes "own_ok W" and "distinct (ptrs l)" and "set (ptrs l) \<subseteq> set (wptrs W n) \<union> F" and "F \<inter> allp W = {}"
  shows "own_ok (W(n \<mapsto> l))" and "allp (W(n \<mapsto> l)) = (allp W - set (wptrs W n)) \<union> set (ptrs l)"
proof -
  have other: "set (wptrs W m) \<inter> set (wptrs W n) = {}" if "m \<noteq> n" for m
    using assms(1) that unfolding own_ok_def by blast
  have fresh: "F \<inter> set (wptrs W m) = {}" for m using assms(4) wptrs_allp by fast
  have "set (ptrs l) \<inter> set (wptrs W m) = {}" if "m \<noteq> n" for m
    using assms(3) other [OF that] fresh [of m] by blast
  then show "own_ok (W(n \<mapsto> l))"
    using assms(1,2) unfolding own_ok_def by auto
  show "allp (W(n \<mapsto> l)) = (allp W - set (wptrs W n)) \<union> set (ptrs l)"
    using other unfolding allp_def by (auto split: if_splits) blast
qed

lemma restrict_UNIV [simp]: "M |` UNIV = M"
  by (simp add: restrict_map_def)

lemma free_buf_ok: "set_option p \<subseteq> dom M \<Longrightarrow> free_buf p M = Some (M |` (- set_option p))"
  by (cases p) (auto simp: free_buf_def restrict_map_def)

definition deref :: "heap_bufs \<Rightarrow> (rpcstate_t \<times> addr option) \<Rightarrow> rpcstate_t \<times> cells option" where
  "deref M sb = (fst sb, Option.bind (snd sb) M)"

text \<open>What the loop does to the list and to the heap: only buffers of erased entries are freed.\<close>

definition loop_ok :: "u32 \<Rightarrow> u32 \<Rightarrow> reply_p list \<Rightarrow> heap_bufs \<Rightarrow>
    (rpcstate_t \<times> addr option) option \<Rightarrow> reply_p list \<Rightarrow> heap_bufs \<Rightarrow> bool" where
  "loop_ok xid xr l M v l' M' \<longleftrightarrow> distinct (ptrs l') \<and> set (ptrs l') \<subseteq> set (ptrs l) \<and>
     M' = M |` (- (set (ptrs l) - set (ptrs l'))) \<and> (\<forall>st a. v = Some (st, Some a) \<longrightarrow> a \<in> set (ptrs l')) \<and>
     checkduplicate_loop xid xr (map (abs_reply M) l) = (map_option (deref M) v, map (abs_reply M) l')"

lemma deref_cong: "(\<And>a. snd sb = Some a \<Longrightarrow> M' a = M a) \<Longrightarrow> deref M' sb = deref M sb"
  by (cases "snd sb") (simp_all add: deref_def)

lemma loop_ok_skip:
  assumes "loop_ok xid xr l M v l' M'" and "p_xid it \<noteq> xid" and "\<not> p_xid it \<le> xr"
    and "set_option (p_buf it) \<inter> set (ptrs l) = {}"
  shows "loop_ok xid xr (it # l) M v (it # l') M'"
  using assms by (cases "p_buf it") (auto simp: loop_ok_def abs_reply_def insert_Diff_if)

lemma loop_ok_drop:
  assumes ok: "loop_ok xid xr l (M |` (- set_option (p_buf it))) v l' M'" and "p_xid it \<noteq> xid" and "p_xid it \<le> xr"
    and disj: "set_option (p_buf it) \<inter> set (ptrs l) = {}"
  shows "loop_ok xid xr (it # l) M v l' M'"
proof -
  let ?M = "M |` (- set_option (p_buf it))"
  have same: "?M a = M a" if "a \<in> set (ptrs l)" for a using disj that by (auto simp: restrict_map_def)
  have sub: "set (ptrs l') \<subseteq> set (ptrs l)" and v: "v = Some (st, Some a) \<Longrightarrow> a \<in> set (ptrs l')" for st a
    using ok by (auto simp: loop_ok_def)
  have abs: "map (abs_reply ?M) l = map (abs_reply M) l" "map (abs_reply ?M) l' = map (abs_reply M) l'"
    using same sub by (intro abs_replies_cong; blast)+
  have "map_option (deref ?M) v = map_option (deref M) v"
    using v sub same by (cases v) (fastforce intro!: deref_cong)+
  moreover have "set (ptrs (it # l)) = set_option (p_buf it) \<union> set (ptrs l)" by (cases "p_buf it") auto
  moreover have "?M |` (- (set (ptrs l) - set (ptrs l'))) =
      M |` (- (set_option (p_buf it) \<union> set (ptrs l) - set (ptrs l')))"
    using disj sub by (auto simp: fun_eq_iff restrict_map_def)
  ultimately show ?thesis using ok abs assms(2,3) unfolding loop_ok_def by (auto simp: abs_reply_def)
qed

lemma loop_refines:
  "distinct (ptrs l) \<Longrightarrow> set (ptrs l) \<subseteq> dom M \<Longrightarrow>
   \<exists>v l' M'. checkduplicate_loop_p xid xr l M = Some (v, l', M') \<and> loop_ok xid xr l M v l' M'"
proof (induction l arbitrary: M)
  case Nil
  then show ?case by (simp add: loop_ok_def)
next
  case (Cons it l)
  let ?M = "M |` (- set_option (p_buf it))"
  have dist: "distinct (ptrs l)" and disj: "set_option (p_buf it) \<inter> set (ptrs l) = {}"
    and dom: "set_option (p_buf it) \<subseteq> dom M" "set (ptrs l) \<subseteq> dom M"
    using Cons.prems by (cases "p_buf it"; auto)+
  note free = free_buf_ok [OF dom(1)]
  consider (old) "p_xid it = xid" "p_xid it \<le> xr" | (found) "p_xid it = xid" "\<not> p_xid it \<le> xr"
    | (drop) "p_xid it \<noteq> xid" "p_xid it \<le> xr" | (skip) "p_xid it \<noteq> xid" "\<not> p_xid it \<le> xr" by blast
  then show ?case
  proof cases
    case old
    have "loop_ok xid xr (it # l) M (Some (FORGOTTEN, None)) l ?M"
      using old dist disj by (cases "p_buf it") (auto simp: loop_ok_def deref_def abs_reply_def restrict_map_def)
    then show ?thesis using old free by simp
  next
    case found
    then show ?thesis using Cons.prems by (auto simp: loop_ok_def deref_def abs_reply_def split: option.splits)
  next
    case drop
    have "set (ptrs l) \<subseteq> dom ?M" using dom(2) disj by auto
    from Cons.IH [OF dist this] obtain v l' M' where "checkduplicate_loop_p xid xr l ?M = Some (v, l', M')"
      "loop_ok xid xr l ?M v l' M'" by blast
    with loop_ok_drop [OF _ drop disj] show ?thesis using drop free by auto
  next
    case skip
    from Cons.IH [OF dist dom(2)] obtain v l' M' where "checkduplicate_loop_p xid xr l M = Some (v, l', M')"
      "loop_ok xid xr l M v l' M'" by blast
    with loop_ok_skip [OF _ skip disj] show ?thesis using skip by auto
  qed
qed

lemma check_refines:
  assumes own: "own_ok W" and dom: "allp W \<subseteq> dom M" and n: "W n \<noteq> None"
  shows "\<exists>st p W' M'. checkduplicate_p W M n xid xr = Some ((st, p), W', M') \<and>
    checkduplicate_and_update (abs_window M W) n xid xr = Some (deref M' (st, p), abs_window M' W') \<and>
    own_ok W' \<and> M' = M |` (- (allp W - allp W')) \<and> allp W' \<subseteq> allp W \<and> (\<forall>a. p = Some a \<longrightarrow> a \<in> allp W') \<and>
    W' n \<noteq> None"
proof -
  obtain l where l: "W n = Some l" using n by auto
  have "distinct (ptrs l)" "set (ptrs l) \<subseteq> dom M"
    using own dom wptrs_allp [of _ W n] l by (auto simp: own_ok_def wptrs_Some dest!: spec [of _ n])
  from loop_refines [OF this, of xid xr] obtain v l' M'
    where loop: "checkduplicate_loop_p xid xr l M = Some (v, l', M')" "loop_ok xid xr l M v l' M'" by blast
  let ?l = "if v = None then l' @ [reply_p_new xid] else l'"
  let ?W = "W(n \<mapsto> ?l)"
  have ptrs_l: "ptrs ?l = ptrs l'" by (simp add: reply_p_new_def)
  have lo: "distinct (ptrs l')" "set (ptrs l') \<subseteq> set (ptrs l)" "M' = M |` (- (set (ptrs l) - set (ptrs l')))"
    "\<And>st a. v = Some (st, Some a) \<Longrightarrow> a \<in> set (ptrs l')"
    "checkduplicate_loop xid xr (map (abs_reply M) l) = (map_option (deref M) v, map (abs_reply M) l')"
    using loop(2) by (auto simp: loop_ok_def)
  have upd: "own_ok ?W" "allp ?W = allp W - set (ptrs l) \<union> set (ptrs l')"
    using own_upd [OF own, of ?l n "{}"] lo ptrs_l l by (simp_all add: wptrs_Some)
  have sub: "set (ptrs l) \<subseteq> allp W" using l by (rule allp_ptrs)
  have freed: "allp W - allp ?W = set (ptrs l) - set (ptrs l')" using upd(2) lo(2) sub by auto
  have same: "M' a = M a" if "a \<in> allp ?W" for a
    using that lo(3) freed sub upd(2) by (auto simp: restrict_map_def)
  have abs: "abs_window M' ?W = (abs_window M W)(n \<mapsto> map (abs_reply M) ?l)"
  proof
    fix m
    show "abs_window M' ?W m = ((abs_window M W)(n \<mapsto> map (abs_reply M) ?l)) m"
    proof (cases "?W m")
      case (Some k)
      then have "set (ptrs k) \<subseteq> allp ?W" by (rule allp_ptrs)
      then have "map (abs_reply M') k = map (abs_reply M) k" using same by (intro abs_replies_cong) auto
      then show ?thesis using Some by (auto simp: abs_window_def split: if_splits)
    qed (auto simp: abs_window_def split: if_splits)
  qed
  have v: "deref M' sb = deref M sb" if "v = Some sb" for sb
    using lo(4) that same upd(2) by (intro deref_cong) (cases sb, auto)
  have M': "M' = M |` (- (allp W - allp ?W))" using lo(3) freed by simp
  have less: "allp ?W \<subseteq> allp W" using upd(2) lo(2) sub by auto
  have entry: "reply_t_new xid = abs_reply M (reply_p_new xid)" by (simp add: abs_reply_def reply_p_new_def reply_t_new_def)
  have aw: "abs_window M W n = Some (map (abs_reply M) l)" using l by (simp add: abs_window_def)
  obtain st p where sp: "case_option (NEW, None) (\<lambda>sb. sb) v = (st, p)" by (cases "case_option (NEW, None) (\<lambda>sb. sb) v")
  have run: "checkduplicate_p W M n xid xr = Some ((st, p), ?W, M')"
    using l loop(1) sp by (cases v) (auto simp: checkduplicate_p_def)
  have "checkduplicate_and_update (abs_window M W) n xid xr = Some (deref M' (st, p), abs_window M' ?W)"
    using aw lo(5) sp v unfolding abs
    by (cases v) (auto simp: checkduplicate_and_update_def entry deref_def)
  moreover have "\<forall>a. p = Some a \<longrightarrow> a \<in> allp ?W" using sp lo(4) upd(2) by (cases v) auto
  ultimately show ?thesis using run upd(1) M' less by fastforce
qed

text \<open>\<open>add_reply\<close>: the entry gets a buffer of its own; what it pointed to before is lost.\<close>

lemma add_list_absent: "add_reply_list_p a xid l = (l', None) \<Longrightarrow> l' = l \<and> add_reply_list xid cs (map (abs_reply M) l) = map (abs_reply M) l"
  by (induction l arbitrary: l') (auto simp: abs_reply_def split: prod.splits if_splits)

lemma add_list_present:
  assumes M': "M' = M(a \<mapsto> cs)"
  shows "add_reply_list_p a xid l = (l', Some old) \<Longrightarrow> distinct (ptrs l) \<Longrightarrow> a \<notin> set (ptrs l) \<Longrightarrow>
   distinct (ptrs l') \<and> set_option old \<subseteq> set (ptrs l) \<and> set (ptrs l') = insert a (set (ptrs l) - set_option old) \<and>
   map (abs_reply M') l' = add_reply_list xid cs (map (abs_reply M) l)"
proof (induction l arbitrary: l')
  case (Cons it l)
  have a: "distinct (ptrs l)" "a \<notin> set (ptrs l)" "p_buf it \<noteq> Some a" using Cons.prems by (auto split: option.splits)
  show ?case
  proof (cases "p_xid it = xid")
    case True
    have "map (abs_reply M') l = map (abs_reply M) l" using a(2) M' by (intro abs_replies_cong) auto
    moreover have "abs_reply M' (it\<lparr>p_buf := Some a, p_cb_present := True\<rparr>) =
        (abs_reply M it)\<lparr>r_buf := Some cs, r_cb_present := True\<rparr>" by (simp add: abs_reply_def M')
    moreover have "r_xid (abs_reply M it) = xid" using True by (simp add: abs_reply_def)
    moreover have "old = p_buf it" "l' = it\<lparr>p_buf := Some a, p_cb_present := True\<rparr> # l" using Cons.prems(1) True by auto
    ultimately show ?thesis using Cons.prems(2,3) by (cases "p_buf it") auto
  next
    case False
    then obtain l1 where l1: "add_reply_list_p a xid l = (l1, Some old)" "l' = it # l1"
      using Cons.prems(1) by (auto split: prod.splits)
    have "r_xid (abs_reply M it) \<noteq> xid" using False by (simp add: abs_reply_def)
    moreover have "abs_reply M' it = abs_reply M it" using a(3) M' by (intro abs_reply_cong) auto
    ultimately show ?thesis
      using Cons.IH [OF l1(1) a(1,2)] Cons.prems(2,3) l1(2) by (cases "p_buf it") auto
  qed
qed simp

lemma add_refines:
  assumes own: "own_ok W" and dom: "allp W \<subseteq> dom M" and b: "M b = Some cs" and a: "M a = None"
  shows "\<exists>W' M' old. add_reply_p a W M n xid b = Some (W', M', old) \<and>
    add_reply (abs_window M W) n xid cs = abs_window M' W' \<and> own_ok W' \<and> set_option old \<subseteq> allp W \<and>
    (W' n \<noteq> None) \<and> (M' = M \<and> allp W' = allp W \<and> old = None \<or>
     M' = M(a \<mapsto> cs) \<and> allp W' = insert a (allp W - set_option old))"
proof -
  define l where "l = (case W n of None \<Rightarrow> [] | Some l \<Rightarrow> l)"
  have l: "wptrs W n = ptrs l" by (simp add: wptrs_def l_def split: option.splits)
  have dist: "distinct (ptrs l)" and sub: "set (ptrs l) \<subseteq> allp W" and fresh: "a \<notin> allp W"
    using own dom a wptrs_allp [of _ W n] l by (auto simp: own_ok_def dest!: spec [of _ n])
  have absl: "(case abs_window M W n of None \<Rightarrow> [] | Some l \<Rightarrow> l) = map (abs_reply M) l"
    by (simp add: abs_window_def l_def split: option.splits)
  obtain l' r where l': "add_reply_list_p a xid l = (l', r)" by (cases "add_reply_list_p a xid l")
  show ?thesis
  proof (cases r)
    case None
    with l' have same: "l' = l" "add_reply_list xid cs (map (abs_reply M) l) = map (abs_reply M) l"
      using add_list_absent by fastforce+
    have "abs_window M (W(n \<mapsto> l)) = add_reply (abs_window M W) n xid cs"
      unfolding add_reply_def absl same(2) by (auto simp: abs_window_def)
    moreover have "own_ok (W(n \<mapsto> l))" "allp (W(n \<mapsto> l)) = allp W"
      using own_upd [OF own dist, of n "{}"] sub l by auto
    ultimately show ?thesis using None l' same(1) unfolding add_reply_p_def l_def [symmetric] by simp
  next
    case (Some old)
    with l' have pre: "distinct (ptrs l')" "set_option old \<subseteq> set (ptrs l)"
      "set (ptrs l') = insert a (set (ptrs l) - set_option old)"
      "map (abs_reply (M(a \<mapsto> cs))) l' = add_reply_list xid cs (map (abs_reply M) l)"
      using add_list_present [OF refl, of a xid l l' old M cs] dist fresh sub by auto
    have same: "map (abs_reply (M(a \<mapsto> cs))) k = map (abs_reply M) k" if "W m = Some k" for m k
      using allp_ptrs [of W m k, OF that] fresh by (intro abs_replies_cong) auto
    have upd: "add_reply (abs_window M W) n xid cs = (abs_window M W)(n \<mapsto> map (abs_reply (M(a \<mapsto> cs))) l')"
      by (simp only: add_reply_def absl pre(4))
    have "abs_window (M(a \<mapsto> cs)) (W(n \<mapsto> l')) = add_reply (abs_window M W) n xid cs"
    proof
      fix m show "abs_window (M(a \<mapsto> cs)) (W(n \<mapsto> l')) m = add_reply (abs_window M W) n xid cs m"
        unfolding upd using same [of m] by (cases "W m") (auto simp: abs_window_def)
    qed
    moreover have "own_ok (W(n \<mapsto> l'))" "allp (W(n \<mapsto> l')) = allp W - set (ptrs l) \<union> set (ptrs l')"
      using own_upd [OF own pre(1), of n "{a}"] pre(3) fresh l by auto
    moreover have "allp W - set (ptrs l) \<union> set (ptrs l') = insert a (allp W - set_option old)"
      using pre(2,3) sub by auto
    ultimately show ?thesis using Some l' b pre(2) sub unfolding add_reply_p_def l_def [symmetric] by simp
  qed
qed

section \<open>The dispatch threads\<close>

text \<open>\<open>b_lost\<close> are the buffers to which no pointer is left, \<open>b_sent\<close> counts the replies sent to clients with
  at-most-once logic; both are only observed.\<close>

record reply_bufs =
  b_window :: window_p
  b_heap :: heap_bufs
  b_lost :: "addr list"
  b_sent :: nat

text \<open>A thread of \<open>dispatch\<close>, between two sections: it has looked up the handler; it has made sure that the
  client has a window; it runs the handler; the reply is in its buffer; the reply has been stored; or it
  is about to send a stored reply.\<close>

datatype buf_thread =
    Arrived req_header | Seen req_header | Working req_header
  | Replied req_header addr | Added req_header addr | Replay "addr option"

text \<open>One section. \<open>a\<close> is what \<open>malloc\<close> answers in it, \<open>b\<close> the reply that the handler makes.\<close>

fun buf_turn :: "addr \<Rightarrow> cells \<Rightarrow> buf_thread \<Rightarrow> reply_bufs \<Rightarrow> (buf_thread option \<times> reply_bufs) option" where
  "buf_turn a b (Arrived h) s =
     (if rq_clt_nonce h \<noteq> 0 then
        Some (Some (Seen h), if b_window s (rq_clt_nonce h) = None
          then s\<lparr>b_window := (b_window s)(rq_clt_nonce h \<mapsto> [])\<rparr> else s)
      else Some (Some (Working h), s))"
| "buf_turn a b (Seen h) s = do {
     ((st, p), W, M) \<leftarrow> checkduplicate_p (b_window s) (b_heap s) (rq_clt_nonce h) (rq_xid h) (rq_xid_rep h);
     Some (case st of NEW \<Rightarrow> Some (Working h) | INPROGRESS \<Rightarrow> None | DONE \<Rightarrow> Some (Replay p) | FORGOTTEN \<Rightarrow> None,
           s\<lparr>b_window := W, b_heap := M\<rparr>)
   }"
| "buf_turn a b (Working h) s = Some (Some (Replied h a), s\<lparr>b_heap := (b_heap s)(a \<mapsto> b)\<rparr>)"
| "buf_turn a b (Replied h p) s =
     (if rq_clt_nonce h \<noteq> 0 then do {
        (W, M, old) \<leftarrow> add_reply_p a (b_window s) (b_heap s) (rq_clt_nonce h) (rq_xid h) p;
        Some (Some (Added h p),
              s\<lparr>b_window := W, b_heap := M, b_lost := (case old of None \<Rightarrow> b_lost s | Some q \<Rightarrow> q # b_lost s)\<rparr>)
      }
      else Some (Some (Added h p), s))"
| "buf_turn a b (Added h p) s = do {
     cs \<leftarrow> b_heap s p;
     if rq_clt_nonce h = 0 then do {
       M \<leftarrow> free_buf (Some p) (b_heap s);
       Some (None, s\<lparr>b_heap := M\<rparr>)
     }
     else Some (None, s\<lparr>b_lost := p # b_lost s, b_sent := Suc (b_sent s)\<rparr>)
   }"
| "buf_turn a b (Replay p) s = do {
     q \<leftarrow> p;
     cs \<leftarrow> b_heap s q;
     Some (None, s)
   }"

record buf_config =
  bc_bufs :: reply_bufs
  bc_thr :: "buf_thread list"

definition buf_init :: buf_config where
  "buf_init = \<lparr>bc_bufs = \<lparr>b_window = Map.empty, b_heap = Map.empty, b_lost = [], b_sent = 0\<rparr>, bc_thr = []\<rparr>"

inductive buf_step :: "buf_config \<Rightarrow> buf_config \<Rightarrow> bool" where
  arrive: "buf_step g (g\<lparr>bc_thr := bc_thr g @ [Arrived h]\<rparr>)"
| turn: "bc_thr g = xs @ t # ys \<Longrightarrow> b_heap (bc_bufs g) a = None \<Longrightarrow> buf_turn a b t (bc_bufs g) = Some (r, s) \<Longrightarrow>
    buf_step g (g\<lparr>bc_bufs := s, bc_thr := xs @ opt_list r @ ys\<rparr>)"

inductive buf_reach :: "buf_config \<Rightarrow> bool" where
  start: "buf_reach buf_init"
| step: "buf_reach g \<Longrightarrow> buf_step g g' \<Longrightarrow> buf_reach g'"

section \<open>Who owns a buffer\<close>

fun held_ptr :: "buf_thread \<Rightarrow> addr option" where
  "held_ptr (Replied h p) = Some p"
| "held_ptr (Added h p) = Some p"
| "held_ptr _ = None"

definition held :: "buf_thread list \<Rightarrow> addr list" where
  "held ts = List.map_filter held_ptr ts"

lemma held_simps [simp]:
  "held [] = []" "held (t # ts) = (case held_ptr t of None \<Rightarrow> held ts | Some p \<Rightarrow> p # held ts)"
  "held (ts @ ts') = held ts @ held ts'"
  by (simp_all add: held_def List.map_filter_def split: option.splits)

text \<open>The buffers that the window does not own: those of the threads, and the lost ones.\<close>

definition bufs_ok :: "addr list \<Rightarrow> reply_bufs \<Rightarrow> bool" where
  "bufs_ok hs s \<longleftrightarrow> own_ok (b_window s) \<and> distinct (hs @ b_lost s) \<and> allp (b_window s) \<inter> set (hs @ b_lost s) = {} \<and>
     dom (b_heap s) = allp (b_window s) \<union> set (hs @ b_lost s) \<and> finite (dom (b_heap s)) \<and> b_sent s \<le> length (b_lost s)"

definition seen_ok :: "window_p \<Rightarrow> buf_thread \<Rightarrow> bool" where
  "seen_ok W t \<longleftrightarrow> (\<forall>h. t = Seen h \<longrightarrow> W (rq_clt_nonce h) \<noteq> None)"

definition buf_inv :: "buf_config \<Rightarrow> bool" where
  "buf_inv g \<longleftrightarrow> bufs_ok (held (bc_thr g)) (bc_bufs g) \<and> (\<forall>t\<in>set (bc_thr g). seen_ok (b_window (bc_bufs g)) t)"

lemma bufs_ok_perm: "bufs_ok (xs @ hs @ ys) s \<longleftrightarrow> bufs_ok (hs @ xs @ ys) s"
  by (auto simp: bufs_ok_def)

definition turn_ok :: "addr list \<Rightarrow> reply_bufs \<Rightarrow> (buf_thread option \<times> reply_bufs) option \<Rightarrow> bool" where
  "turn_ok hs s res \<longleftrightarrow> (\<exists>r s'. res = Some (r, s') \<and> bufs_ok (held (opt_list r) @ hs) s' \<and>
     (\<forall>n. b_window s n \<noteq> None \<longrightarrow> b_window s' n \<noteq> None) \<and> (\<forall>t. r = Some t \<longrightarrow> seen_ok (b_window s') t))"

lemma checkduplicate_p_keeps:
  "checkduplicate_p W M n xid xr = Some (v, W', M') \<Longrightarrow> W m \<noteq> None \<Longrightarrow> W' m \<noteq> None"
  by (auto simp: checkduplicate_p_def elim!: bind_SomeE split: option.splits)

lemma add_reply_p_keeps:
  "add_reply_p a W M n xid b = Some (W', M', old) \<Longrightarrow> W m \<noteq> None \<Longrightarrow> W' m \<noteq> None"
  by (auto simp: add_reply_p_def Let_def elim!: bind_SomeE split: option.splits prod.splits if_splits)

lemma turn_arrived:
  assumes "bufs_ok hs s"
  shows "turn_ok hs s (buf_turn a b (Arrived h) s)"
proof -
  let ?W = "(b_window s)(rq_clt_nonce h \<mapsto> [])"
  have "own_ok ?W \<and> allp ?W = allp (b_window s)" if "b_window s (rq_clt_nonce h) = None"
    using own_upd [of "b_window s" "[]" "rq_clt_nonce h" "{}"] assms that by (simp add: bufs_ok_def wptrs_def)
  then show ?thesis using assms
    by (auto simp: turn_ok_def bufs_ok_def opt_list_def seen_ok_def)
qed

lemma turn_seen:
  assumes ok: "bufs_ok hs s" and n: "b_window s (rq_clt_nonce h) \<noteq> None"
  shows "turn_ok hs s (buf_turn a b (Seen h) s)"
proof -
  have own: "own_ok (b_window s)" "allp (b_window s) \<subseteq> dom (b_heap s)" using ok by (auto simp: bufs_ok_def)
  from check_refines [OF own n, of "rq_xid h" "rq_xid_rep h"] obtain st p W M
    where c: "checkduplicate_p (b_window s) (b_heap s) (rq_clt_nonce h) (rq_xid h) (rq_xid_rep h) = Some ((st, p), W, M)"
      "own_ok W" "M = b_heap s |` (- (allp (b_window s) - allp W))" "allp W \<subseteq> allp (b_window s)" by blast
  have "dom M = allp W \<union> set (hs @ b_lost s)" and "finite (dom M)"
    using ok c(3,4) by (auto simp: bufs_ok_def)
  then have "bufs_ok hs (s\<lparr>b_window := W, b_heap := M\<rparr>)"
    using ok c(2,4) unfolding bufs_ok_def by auto
  then show ?thesis using c(1) checkduplicate_p_keeps [OF c(1)]
    by (cases st) (auto simp: turn_ok_def opt_list_def seen_ok_def)
qed

lemma turn_working:
  assumes "bufs_ok hs s" and "b_heap s a = None"
  shows "turn_ok hs s (buf_turn a b (Working h) s)"
  using assms by (auto simp: turn_ok_def bufs_ok_def opt_list_def seen_ok_def)

lemma bufs_ok_held:
  assumes "bufs_ok (p # hs) s"
  obtains cs where "b_heap s p = Some cs"
proof -
  have "p \<in> dom (b_heap s)" using assms by (simp add: bufs_ok_def)
  then show ?thesis using that by auto
qed

lemma turn_replied:
  assumes ok: "bufs_ok (p # hs) s" and a: "b_heap s a = None"
  shows "turn_ok hs s (buf_turn a b (Replied h p) s)"
proof (cases "rq_clt_nonce h = 0")
  case False
  have own: "own_ok (b_window s)" "allp (b_window s) \<subseteq> dom (b_heap s)" using ok by (auto simp: bufs_ok_def)
  obtain cs where cs: "b_heap s p = Some cs" using ok by (rule bufs_ok_held)
  from add_refines [OF own cs a, of "rq_clt_nonce h" "rq_xid h"] obtain W M old
    where c: "add_reply_p a (b_window s) (b_heap s) (rq_clt_nonce h) (rq_xid h) p = Some (W, M, old)" "own_ok W"
      "set_option old \<subseteq> allp (b_window s)"
      "M = b_heap s \<and> allp W = allp (b_window s) \<and> old = None \<or>
       M = (b_heap s)(a \<mapsto> cs) \<and> allp W = insert a (allp (b_window s) - set_option old)" by blast
  let ?s = "s\<lparr>b_window := W, b_heap := M, b_lost := (case old of None \<Rightarrow> b_lost s | Some q \<Rightarrow> q # b_lost s)\<rparr>"
  have dom: "dom (b_heap s) = allp (b_window s) \<union> set ((p # hs) @ b_lost s)" using ok by (simp only: bufs_ok_def)
  have "finite (dom (b_heap s))" using ok unfolding bufs_ok_def by blast
  then have fin: "finite (allp (b_window s))" by (rule finite_subset [OF own(2)])
  have "bufs_ok (p # hs) ?s" using c(4)
  proof
    assume "M = b_heap s \<and> allp W = allp (b_window s) \<and> old = None"
    then show ?thesis using ok c(2) fin by (simp add: bufs_ok_def)
  next
    assume new: "M = (b_heap s)(a \<mapsto> cs) \<and> allp W = insert a (allp (b_window s) - set_option old)"
    have "a \<notin> dom (b_heap s)" using a by auto
    then have fresh: "a \<notin> allp (b_window s)" "a \<notin> set ((p # hs) @ b_lost s)" unfolding dom by blast+
    have "dom M = insert a (dom (b_heap s))" using new by simp
    also have "\<dots> = allp W \<union> set ((p # hs) @ b_lost ?s)" unfolding dom using new c(3) by (cases old) auto
    finally show ?thesis using ok c(2,3) new fresh unfolding bufs_ok_def by (cases old) auto
  qed
  then show ?thesis using c(1) False add_reply_p_keeps [OF c(1)]
    by (auto simp: turn_ok_def opt_list_def seen_ok_def)
qed (use ok in \<open>auto simp: turn_ok_def opt_list_def seen_ok_def\<close>)

lemma turn_added:
  assumes "bufs_ok (p # hs) s"
  shows "turn_ok hs s (buf_turn a b (Added h p) s)"
proof -
  obtain cs where "b_heap s p = Some cs" using assms by (rule bufs_ok_held)
  then show ?thesis using assms
    by (cases "rq_clt_nonce h = 0") (auto simp: turn_ok_def bufs_ok_def opt_list_def free_buf_def)
qed

lemma turn_replay:
  "bufs_ok hs s \<Longrightarrow> buf_turn a b (Replay p) s = Some (r, s') \<Longrightarrow> turn_ok hs s (Some (r, s'))"
  by (auto simp: turn_ok_def opt_list_def elim!: bind_SomeE)

text \<open>Every section except the replay is defined, whatever the other threads have done.\<close>

lemma turn_safe:
  assumes inv: "buf_inv g" and thr: "bc_thr g = xs @ t # ys" and a: "b_heap (bc_bufs g) a = None"
    and t: "\<forall>p. t \<noteq> Replay p"
  shows "turn_ok (held xs @ held ys) (bc_bufs g) (buf_turn a b t (bc_bufs g))"
proof -
  have ok: "bufs_ok (held [t] @ held xs @ held ys) (bc_bufs g)"
    using inv thr bufs_ok_perm [of "held xs" "held [t]" "held ys"] by (auto simp: buf_inv_def split: option.splits)
  have "seen_ok (b_window (bc_bufs g)) t" using inv thr by (simp add: buf_inv_def)
  with ok a t turn_arrived turn_seen turn_working turn_replied turn_added show ?thesis
    by (cases t) (simp_all add: seen_ok_def del: buf_turn.simps)
qed

lemma buf_inv_step: "buf_step g g' \<Longrightarrow> buf_inv g \<Longrightarrow> buf_inv g'"
proof (induction rule: buf_step.induct)
  case (arrive g h)
  then show ?case by (auto simp: buf_inv_def seen_ok_def)
next
  case (turn g xs t ys a b r s)
  have "turn_ok (held xs @ held ys) (bc_bufs g) (buf_turn a b t (bc_bufs g))"
  proof (cases t)
    case (Replay p)
    have "bufs_ok (held xs @ held ys) (bc_bufs g)" using turn.prems turn.hyps(1) Replay by (simp add: buf_inv_def)
    then show ?thesis using turn_replay turn.hyps(3) Replay by metis
  qed (use turn_safe [OF turn.prems turn.hyps(1,2)] in auto)
  then have "bufs_ok (held (opt_list r) @ held xs @ held ys) s" "\<And>n. b_window (bc_bufs g) n \<noteq> None \<Longrightarrow> b_window s n \<noteq> None"
    "\<And>t. r = Some t \<Longrightarrow> seen_ok (b_window s) t" using turn.hyps(3) by (auto simp: turn_ok_def)
  then show ?case
    using turn.prems turn.hyps(1) bufs_ok_perm [of "held xs" "held (opt_list r)" "held ys" s]
    by (auto simp: buf_inv_def seen_ok_def opt_list_def split: option.splits)
qed

lemma buf_inv_init: "buf_inv buf_init"
  by (simp add: buf_inv_def buf_init_def bufs_ok_def own_ok_def wptrs_def allp_def)

lemma buf_reach_inv: "buf_reach g \<Longrightarrow> buf_inv g"
  by (induction rule: buf_reach.induct) (blast intro: buf_inv_init buf_inv_step)+

section \<open>Properties\<close>

text \<open>
  C10: The reply window with pointers implements the one with values. As long as no two entries share
  a buffer and every buffer of an entry is allocated, the duplicate check and the storing of a reply free
  no buffer twice, give the verdict and the bytes of the operations on values, and keep that condition;
  only buffers of erased entries are freed.
\<close>

theorem reply_window_refines:
  assumes "own_ok W" and "allp W \<subseteq> dom M"
  shows "(W n \<noteq> None \<longrightarrow> (\<exists>st p W' M'. checkduplicate_p W M n xid xr = Some ((st, p), W', M') \<and>
      checkduplicate_and_update (abs_window M W) n xid xr = Some (deref M' (st, p), abs_window M' W') \<and>
      own_ok W' \<and> allp W' \<subseteq> dom M' \<and> M' = M |` (- (allp W - allp W')))) \<and>
    (M b = Some cs \<and> M a = None \<longrightarrow> (\<exists>W' M' old. add_reply_p a W M n xid b = Some (W', M', old) \<and>
      abs_window M' W' = add_reply (abs_window M W) n xid cs \<and> own_ok W' \<and> allp W' \<subseteq> dom M'))"
proof (intro conjI impI)
  assume "W n \<noteq> None"
  from check_refines [OF assms this, of xid xr] obtain st p W' M' where c:
    "checkduplicate_p W M n xid xr = Some ((st, p), W', M')"
    "checkduplicate_and_update (abs_window M W) n xid xr = Some (deref M' (st, p), abs_window M' W')"
    "own_ok W'" "M' = M |` (- (allp W - allp W'))" "allp W' \<subseteq> allp W" by blast
  moreover have "allp W' \<subseteq> dom M'" using c(4,5) assms(2) by auto
  ultimately show "\<exists>st p W' M'. checkduplicate_p W M n xid xr = Some ((st, p), W', M') \<and>
    checkduplicate_and_update (abs_window M W) n xid xr = Some (deref M' (st, p), abs_window M' W') \<and>
    own_ok W' \<and> allp W' \<subseteq> dom M' \<and> M' = M |` (- (allp W - allp W'))" by blast
next
  assume "M b = Some cs \<and> M a = None"
  then show "\<exists>W' M' old. add_reply_p a W M n xid b = Some (W', M', old) \<and>
      abs_window M' W' = add_reply (abs_window M W) n xid cs \<and> own_ok W' \<and> allp W' \<subseteq> dom M'"
    using add_refines [OF assms, of b cs a n xid] assms(2) by fastforce
qed

theorem reply_window_refines_witness:
  "\<exists>W' M'. checkduplicate_p [5 \<mapsto> [\<lparr>p_xid = 1, p_cb_present = True, p_buf = Some 1\<rparr>]] [1 \<mapsto> []] 5 2 1 = Some ((NEW, None), W', M') \<and>
     M' 1 = None \<and> own_ok W'"
proof -
  let ?W = "[5 \<mapsto> [\<lparr>p_xid = 1, p_cb_present = True, p_buf = Some 1\<rparr>]] :: window_p"
  have own: "own_ok ?W" "allp ?W \<subseteq> dom [1 \<mapsto> [] :: cells]"
    by (auto simp: own_ok_def wptrs_def allp_def split: if_splits)
  from reply_window_refines [OF own, of 5 2 1, THEN conjunct1] show ?thesis
    by (auto simp: checkduplicate_p_def free_buf_def)
qed


lemma buf_reach_turn:
  assumes "buf_reach \<lparr>bc_bufs = s, bc_thr = xs @ t # ys\<rparr>" and "b_heap s a = None"
  shows "buf_turn a b t s = Some (Some t', s') \<Longrightarrow> buf_reach \<lparr>bc_bufs = s', bc_thr = xs @ t' # ys\<rparr>"
    and "buf_turn a b t s = Some (None, s') \<Longrightarrow> buf_reach \<lparr>bc_bufs = s', bc_thr = xs @ ys\<rparr>"
  using buf_reach.step [OF assms(1) buf_step.turn [of _ xs t ys a b _ s']] assms(2)
  by (fastforce simp: opt_list_def)+

lemma buf_reach_arrive:
  assumes "buf_reach \<lparr>bc_bufs = s, bc_thr = ts\<rparr>"
  shows "buf_reach \<lparr>bc_bufs = s, bc_thr = ts @ [Arrived h]\<rparr>"
  using buf_reach.step [OF assms buf_step.arrive [of _ h]] by simp

definition hdr :: "u32 \<Rightarrow> u32 \<Rightarrow> req_header" where
  "hdr xid xid_rep = \<lparr>rq_xid = xid, rq_proc = 7, rq_clt_nonce = 5, rq_srv_nonce = 9, rq_xid_rep = xid_rep\<rparr>"

text \<open>A request is answered: its reply is stored at address 1, the buffer 0 of the thread is lost.\<close>

definition answered :: reply_bufs where
  "answered = \<lparr>b_window = [5 \<mapsto> [\<lparr>p_xid = 1, p_cb_present = True, p_buf = Some 1\<rparr>]], b_heap = [0 \<mapsto> [], 1 \<mapsto> []],
     b_lost = [0], b_sent = 1\<rparr>"

lemmas buf_run_simps = opt_list_def hdr_def buf_init_def checkduplicate_p_def add_reply_p_def reply_p_new_def free_buf_def

lemma answered_reachable: "buf_reach \<lparr>bc_bufs = answered, bc_thr = []\<rparr>"
proof -
  let ?W = "\<lambda>it. [5 \<mapsto> it] :: window_p" and ?M = "Map.empty(0 \<mapsto> []) :: heap_bufs"
  let ?s = "\<lambda>W M. \<lparr>b_window = W, b_heap = M, b_lost = [], b_sent = 0\<rparr>"
  have "buf_reach \<lparr>bc_bufs = ?s Map.empty Map.empty, bc_thr = [] @ [Arrived (hdr 1 0)]\<rparr>"
    by (rule buf_reach_arrive) (use buf_reach.start in \<open>simp add: buf_init_def\<close>)
  then have "buf_reach \<lparr>bc_bufs = ?s (?W []) Map.empty, bc_thr = [] @ [Seen (hdr 1 0)]\<rparr>"
    by (rule buf_reach_turn(1)) (simp_all add: buf_run_simps)
  then have "buf_reach \<lparr>bc_bufs = ?s (?W [reply_p_new 1]) Map.empty, bc_thr = [] @ [Working (hdr 1 0)]\<rparr>"
    by (rule buf_reach_turn(1)) (simp_all add: buf_run_simps)
  then have "buf_reach \<lparr>bc_bufs = ?s (?W [reply_p_new 1]) ?M, bc_thr = [] @ [Replied (hdr 1 0) 0]\<rparr>"
    by (rule buf_reach_turn(1) [where a = 0 and b = "[]"]) (simp_all add: buf_run_simps)
  then have "buf_reach \<lparr>bc_bufs = answered\<lparr>b_lost := [], b_sent := 0\<rparr>, bc_thr = [] @ [Added (hdr 1 0) 0]\<rparr>"
    by (rule buf_reach_turn(1) [where a = 1]) (simp_all add: buf_run_simps answered_def)
  then have "buf_reach \<lparr>bc_bufs = answered, bc_thr = [] @ []\<rparr>"
    by (rule buf_reach_turn(2) [where a = 2]) (simp_all add: buf_run_simps answered_def)
  then show ?thesis by simp
qed


text \<open>
  C25: A stored reply can be freed while it is being replayed. A thread that has found a duplicate
  holds the pointer of the stored reply without holding the mutex of the window; a request with a newer
  acknowledgement frees the buffer before the reply is sent.
\<close>

theorem replay_uses_freed_buffer:
  "\<exists>g p. buf_reach g \<and> Replay (Some p) \<in> set (bc_thr g) \<and> b_heap (bc_bufs g) p = None \<and>
     (\<forall>a b. buf_turn a b (Replay (Some p)) (bc_bufs g) = None)"
proof -
  let ?s = "answered\<lparr>b_window := [5 \<mapsto> [reply_p_new 2]], b_heap := [0 \<mapsto> []]\<rparr>"
  have "buf_reach \<lparr>bc_bufs = answered, bc_thr = [] @ [Arrived (hdr 1 0)]\<rparr>"
    using answered_reachable by (rule buf_reach_arrive)
  then have "buf_reach \<lparr>bc_bufs = answered, bc_thr = [] @ [Seen (hdr 1 0)]\<rparr>"
    by (rule buf_reach_turn(1) [where a = 2]) (simp_all add: buf_run_simps answered_def)
  then have "buf_reach \<lparr>bc_bufs = answered, bc_thr = [] @ [Replay (Some 1)]\<rparr>"
    by (rule buf_reach_turn(1) [where a = 2]) (simp_all add: buf_run_simps answered_def)
  then have "buf_reach \<lparr>bc_bufs = answered, bc_thr = ([] @ [Replay (Some 1)]) @ [Arrived (hdr 2 1)]\<rparr>"
    by (rule buf_reach_arrive)
  then have "buf_reach \<lparr>bc_bufs = answered, bc_thr = ([] @ [Replay (Some 1)]) @ [Seen (hdr 2 1)]\<rparr>"
    by (rule buf_reach_turn(1) [where a = 2]) (simp_all add: buf_run_simps answered_def)
  then have "buf_reach \<lparr>bc_bufs = ?s, bc_thr = ([] @ [Replay (Some 1)]) @ [Working (hdr 2 1)]\<rparr>"
    by (rule buf_reach_turn(1) [where a = 2]) (simp_all add: buf_run_simps answered_def fun_eq_iff)
  then show ?thesis by (intro exI [of _ "\<lparr>bc_bufs = ?s, bc_thr = [Replay (Some 1), Working (hdr 2 1)]\<rparr>"] exI [of _ 1]) simp
qed

end
