(* ===== verification/Verdicts.thy ===== *)
theory Verdicts
  imports RpcCall Wire
begin

text \<open>
  What \<open>rpcs::dispatch\<close> does with requests it does not run: duplicates, requests for an earlier
  instance of the server, PDUs that are too short, unknown procedures. In each case the
  application state is untouched; the lemmas give the reply and the reference count.
\<close>

lemma c_decref_alive:
  assumes "rs_heap s k = Some kn" and "\<not> c_dead kn" and "1 \<le> c_refno kn"
  shows "c_decref s k = Some (s\<lparr>rs_heap := (rs_heap s)(k \<mapsto> kn\<lparr>c_refno := c_refno kn - 1\<rparr>)\<rparr>)"
  using assms by (simp add: c_decref_def decref_def)

lemma error_reply_cells: "error_reply xid ret = Some (reply_cells xid ret [])"
proof -
  obtain m' where "pack_reply_header marshall_new \<lparr>rp_xid = xid, rp_ret = ret\<rparr> = Some m'"
    "m_contents m' = take 4 (m_contents marshall_new) @ map Some (enc_reply \<lparr>rp_xid = xid, rp_ret = ret\<rparr>)
      @ drop 12 (m_contents marshall_new)"
    by (rule pack_reply_header_contents [OF marsh_wf_new]) (simp add: marshall_new_def)
  then show ?thesis by (simp add: error_reply_def reply_cells_def m_contents_new)
qed

text \<open>
  A duplicate of a request that is in progress is dropped, a duplicate of one that is done
  is answered with the stored reply; the handler does not run, and the reference the PDU took
  is released in both cases.
\<close>

lemma duplicate_dispatch:
  assumes hdr: "unpack_req_header (unmarshall_of b sz) = Some (h, u)" "u_ok u"
    and srv: "rq_srv_nonce h = 0 \<or> rq_srv_nonce h = rs_nonce s" and f: "rs_procs s (rq_proc h) = Some f"
    and clt: "rq_clt_nonce h \<noteq> 0" "rs_conns s (rq_clt_nonce h) = Some (Some k)"
    and kn: "rs_heap s k = Some kn" "\<not> c_dead kn" "1 \<le> c_refno kn"
    and l: "rs_reply_window s (rq_clt_nonce h) = Some l" "rq_xid h \<in> xids l" "rq_xid_rep h < rq_xid h"
    and stored: "list_all (\<lambda>it. r_cb_present it \<longrightarrow> r_buf it \<noteq> None) l"
  shows "\<exists>s' it. it \<in> set l \<and> r_xid it = rq_xid h \<and> dispatch s k b sz = Some s' \<and> rs_app s' = rs_app s \<and>
    rs_outbox s' = rs_outbox s @ (if r_cb_present it then [(k, the (r_buf it))] else []) \<and>
    rs_heap s' = (rs_heap s)(k \<mapsto> kn\<lparr>c_refno := c_refno kn - 1\<rparr>)"
proof -
  obtain it l' where it: "it \<in> set l" "r_xid it = rq_xid h"
    "checkduplicate_loop (rq_xid h) (rq_xid_rep h) l =
      (Some (if r_cb_present it then (DONE, r_buf it) else (INPROGRESS, None)), l')"
    using checkduplicate_loop_present [OF l(2,3)] by blast
  let ?s = "s\<lparr>rs_reply_window := (rs_reply_window s)(rq_clt_nonce h \<mapsto> l')\<rparr>"
  let ?j = "\<lparr>dj_hdr = h, dj_req = u, dj_fn = f, dj_stat = (if r_cb_present it then DONE else INPROGRESS),
    dj_buf = (if r_cb_present it then r_buf it else None)\<rparr>"
  have "dispatch_enter s k b sz = Some (Some ?j, ?s)"
    using hdr srv f clt l(1) it(3)
    by (auto simp: dispatch_enter_def save_conn_def checkduplicate_and_update_def)
  moreover have "r_cb_present it \<Longrightarrow> \<exists>cs. r_buf it = Some cs"
    using stored it(1) by (auto simp: list_all_iff)
  moreover have "c_decref ?s k = Some (?s\<lparr>rs_heap := (rs_heap s)(k \<mapsto> kn\<lparr>c_refno := c_refno kn - 1\<rparr>)\<rparr>)"
    and "c_decref (c_send ?s k cs) k =
      Some (?s\<lparr>rs_outbox := rs_outbox s @ [(k, cs)], rs_heap := (rs_heap s)(k \<mapsto> kn\<lparr>c_refno := c_refno kn - 1\<rparr>)\<rparr>)" for cs
    using kn by (simp_all add: c_decref_alive c_send_def)
  ultimately have "\<exists>s'. dispatch s k b sz = Some s' \<and> rs_app s' = rs_app s \<and>
      rs_outbox s' = rs_outbox s @ (if r_cb_present it then [(k, the (r_buf it))] else []) \<and>
      rs_heap s' = (rs_heap s)(k \<mapsto> kn\<lparr>c_refno := c_refno kn - 1\<rparr>)"
    by (cases "r_cb_present it") (auto simp: dispatch_def dispatch_switch_def)
  with it(1,2) show ?thesis by blast
qed

text \<open>
  A request for an earlier instance of the server is answered with \<open>oldsrv_failure\<close> and
  runs no handler; unlike on every other path, the reference the PDU took on the connection
  is not released.
\<close>

lemma oldsrv_keeps_reference:
  assumes "unpack_req_header (unmarshall_of b sz) = Some (h, u)" and "u_ok u"
    and "rq_srv_nonce h \<noteq> 0" and "rq_srv_nonce h \<noteq> rs_nonce s"
  shows "dispatch s k b sz =
    Some (s\<lparr>rs_outbox := rs_outbox s @ [(k, reply_cells (rq_xid h) oldsrv_failure [])]\<rparr>)"
  using assms by (simp add: dispatch_def dispatch_enter_def error_reply_cells c_send_def)

text \<open>
  A PDU shorter than a request header, and a request for a procedure nobody registered, run
  no handler and get no reply; the reference is released.
\<close>

lemma malformed_request_dropped:
  assumes kn: "rs_heap s k = Some kn" "\<not> c_dead kn" "1 \<le> c_refno kn" and b: "length b \<le> INT_MAX"
    and bad: "length b < 24 \<or>
      (\<exists>h u. unpack_req_header (unmarshall_of b (length b)) = Some (h, u) \<and> rs_procs s (rq_proc h) = None \<and>
         (rq_srv_nonce h = 0 \<or> rq_srv_nonce h = rs_nonce s))"
  shows "dispatch s k b (length b) = Some (s\<lparr>rs_heap := (rs_heap s)(k \<mapsto> kn\<lparr>c_refno := c_refno kn - 1\<rparr>)\<rparr>)"
proof -
  have "unm_wf (unmarshall_of b (length b))" "u_ok (unmarshall_of b (length b))"
    using b by (simp_all add: unm_wf_def unmarshall_of_def)
  from unpack_req_header_total [OF this] obtain h u
    where h: "unpack_req_header (unmarshall_of b (length b)) = Some (h, u)" "u_ok u \<longleftrightarrow> 24 \<le> length b"
    by (auto simp: unmarshall_of_def)
  show ?thesis using bad h c_decref_alive [OF kn] by (auto simp: dispatch_def dispatch_enter_def)
qed

text \<open>The sample request of \<open>AtMostOnce\<close>, unpacked.\<close>

lemma sample_pdu_header:
  "unpack_req_header (unmarshall_of sample_pdu 24)
     = Some (sample_header, (unmarshall_of sample_pdu 24)\<lparr>u_ind := RPC_HEADER_SZ\<rparr>)"
  by (rule unpack_req_header_wire [of "[0, 0, 0, 24]" "[]"]) (simp_all add: sample_pdu_def)

end
