(* ===== verification/Fifo.thy ===== *)
theory Fifo
  imports Prelude
begin

text \<open>
  The bounded queue \<open>fifo\<close> of \<open>rpc/fifo.h\<close>. An operation that waits on a condition variable
  answers so; the step relation \<open>fstep\<close> interleaves the threads that call the queue, with the
  two condition variables as sets of waiting and of woken threads, a signal that wakes any one
  waiter, and wake-ups without a signal. What a client of the queue relies on is the locale
  \<open>queue\<close>.
\<close>

section \<open>The operations\<close>

record 'a fifo =
  f_q :: "'a list"
  f_max :: u32

definition fifo_new :: "int \<Rightarrow> 'a fifo" where
  "fifo_new limit = \<lparr>f_q = [], f_max = of_int limit\<rparr>"

text \<open>\<open>size\<close> returns a \<open>bool\<close>.\<close>

definition fifo_size :: "'a fifo \<Rightarrow> bool" where
  "fifo_size f = (length (f_q f) \<noteq> 0)"

datatype 'q enq_result = Enq_ok 'q | Enq_full | Enq_waits

text \<open>One turn of the loop of \<open>enq\<close>: the element is in, or \<open>enq\<close> returns false, or it waits.\<close>

definition fifo_enq :: "'a fifo \<Rightarrow> 'a \<Rightarrow> bool \<Rightarrow> 'a fifo enq_result" where
  "fifo_enq f e blocking =
     (if f_max f = 0 \<or> length (f_q f) < unat (f_max f) then Enq_ok (f\<lparr>f_q := f_q f @ [e]\<rparr>)
      else if blocking then Enq_waits else Enq_full)"

text \<open>One turn of the loop of \<open>deq\<close>: the element and whether \<open>has_space_c_\<close> is signalled, or
  \<open>None\<close> when it waits.\<close>

definition fifo_deq :: "'a fifo \<Rightarrow> ('a \<times> bool \<times> 'a fifo) option" where
  "fifo_deq f =
     (case f_q f of
        [] \<Rightarrow> None
      | e # es \<Rightarrow> Some (e, f_max f \<noteq> 0 \<and> length es < unat (f_max f), f\<lparr>f_q := es\<rparr>))"

section \<open>The contract\<close>

locale queue =
  fixes enq :: "'q \<Rightarrow> 'a \<Rightarrow> bool \<Rightarrow> 'q enq_result"
    and deq :: "'q \<Rightarrow> ('a \<times> bool \<times> 'q) option"
    and contents :: "'q \<Rightarrow> 'a list"
    and cap :: "'q \<Rightarrow> nat"
  assumes enq_ok: "enq q e b = Enq_ok q' \<Longrightarrow> contents q' = contents q @ [e] \<and> cap q' = cap q"
    and enq_full: "enq q e b = Enq_full \<longleftrightarrow> \<not> b \<and> cap q \<noteq> 0 \<and> cap q \<le> length (contents q)"
    and enq_waits: "enq q e b = Enq_waits \<longleftrightarrow> b \<and> cap q \<noteq> 0 \<and> cap q \<le> length (contents q)"
    and deq_none: "deq q = None \<longleftrightarrow> contents q = []"
    and deq_some: "deq q = Some (e, sg, q') \<Longrightarrow>
      contents q = e # contents q' \<and> cap q' = cap q \<and> (sg \<longleftrightarrow> cap q \<noteq> 0 \<and> length (contents q') < cap q)"
begin

lemma enq_total:
  "(\<exists>q'. enq q e b = Enq_ok q') \<longleftrightarrow> cap q = 0 \<or> length (contents q) < cap q"
proof -
  have "enq q e b \<noteq> Enq_full \<and> enq q e b \<noteq> Enq_waits \<longleftrightarrow> cap q = 0 \<or> length (contents q) < cap q"
    unfolding enq_full enq_waits by auto
  then show ?thesis by (cases "enq q e b") auto
qed

lemma enq_bounded:
  assumes "enq q e b = Enq_ok q'" and "cap q \<noteq> 0"
  shows "length (contents q') \<le> cap q'"
  using enq_ok [OF assms(1)] enq_total [of q e b] assms by auto

lemma deq_nonempty:
  assumes "contents q = e # es"
  shows "\<exists>sg q'. deq q = Some (e, sg, q') \<and> contents q' = es \<and> cap q' = cap q"
proof (cases "deq q")
  case None
  with assms show ?thesis by (simp add: deq_none)
next
  case (Some r)
  obtain x sg q' where r: "r = (x, sg, q')" by (cases r) auto
  from deq_some [of q x sg q'] Some r assms show ?thesis by auto
qed

end

interpretation fq: queue fifo_enq fifo_deq f_q "\<lambda>f. unat (f_max f)"
  by unfold_locales
    (auto simp: fifo_enq_def fifo_deq_def unat_eq_0 unat_gt_0 not_less split: if_splits list.splits)

section \<open>The threads that use a queue\<close>

record 'a fifo_sys =
  fs_f :: "'a fifo"
  fs_deq_wait :: nat
  fs_deq_woken :: nat
  fs_enq_wait :: "'a list"
  fs_enq_woken :: "'a list"
  fs_in :: "'a list"
  fs_out :: "'a list"

definition fifo_start :: "int \<Rightarrow> 'a fifo_sys" where
  "fifo_start limit = \<lparr>fs_f = fifo_new limit, fs_deq_wait = 0, fs_deq_woken = 0, fs_enq_wait = [],
     fs_enq_woken = [], fs_in = [], fs_out = []\<rparr>"

definition signal_non_empty :: "'a fifo_sys \<Rightarrow> 'a fifo_sys" where
  "signal_non_empty s =
     (if fs_deq_wait s = 0 then s
      else s\<lparr>fs_deq_wait := fs_deq_wait s - 1, fs_deq_woken := fs_deq_woken s + 1\<rparr>)"

text \<open>A signal on \<open>has_space_c_\<close> wakes any one of the waiting \<open>enq\<close>; without a signal, or
  without a waiter, nothing happens.\<close>

inductive signal_space :: "bool \<Rightarrow> 'a fifo_sys \<Rightarrow> 'a fifo_sys \<Rightarrow> bool" where
  no_signal: "signal_space False s s"
| no_waiter: "fs_enq_wait s = [] \<Longrightarrow> signal_space True s s"
| wake: "fs_enq_wait s = xs @ e # ys \<Longrightarrow>
    signal_space True s (s\<lparr>fs_enq_wait := xs @ ys, fs_enq_woken := e # fs_enq_woken s\<rparr>)"

inductive fstep :: "'a fifo_sys \<Rightarrow> 'a fifo_sys \<Rightarrow> bool" where
  enq_call: "fifo_enq (fs_f s) e b = Enq_ok f \<Longrightarrow>
    fstep s (signal_non_empty (s\<lparr>fs_f := f, fs_in := fs_in s @ [e]\<rparr>))"
| enq_block: "fifo_enq (fs_f s) e b = Enq_waits \<Longrightarrow> fstep s (s\<lparr>fs_enq_wait := e # fs_enq_wait s\<rparr>)"
| enq_resume: "fs_enq_woken s = xs @ e # ys \<Longrightarrow> fifo_enq (fs_f s) e True = Enq_ok f \<Longrightarrow>
    fstep s (signal_non_empty (s\<lparr>fs_f := f, fs_enq_woken := xs @ ys, fs_in := fs_in s @ [e]\<rparr>))"
| enq_again: "fs_enq_woken s = xs @ e # ys \<Longrightarrow> fifo_enq (fs_f s) e True = Enq_waits \<Longrightarrow>
    fstep s (s\<lparr>fs_enq_wait := e # fs_enq_wait s, fs_enq_woken := xs @ ys\<rparr>)"
| deq_call: "fifo_deq (fs_f s) = Some (e, sg, f) \<Longrightarrow>
    signal_space sg (s\<lparr>fs_f := f, fs_out := fs_out s @ [e]\<rparr>) s' \<Longrightarrow> fstep s s'"
| deq_block: "fifo_deq (fs_f s) = None \<Longrightarrow> fstep s (s\<lparr>fs_deq_wait := fs_deq_wait s + 1\<rparr>)"
| deq_resume: "fs_deq_woken s = Suc n \<Longrightarrow> fifo_deq (fs_f s) = Some (e, sg, f) \<Longrightarrow>
    signal_space sg (s\<lparr>fs_f := f, fs_deq_woken := n, fs_out := fs_out s @ [e]\<rparr>) s' \<Longrightarrow> fstep s s'"
| deq_again: "fs_deq_woken s = Suc n \<Longrightarrow> fifo_deq (fs_f s) = None \<Longrightarrow>
    fstep s (s\<lparr>fs_deq_wait := fs_deq_wait s + 1, fs_deq_woken := n\<rparr>)"
| spurious_deq: "fs_deq_wait s = Suc n \<Longrightarrow> fstep s (s\<lparr>fs_deq_wait := n, fs_deq_woken := fs_deq_woken s + 1\<rparr>)"
| spurious_enq: "fs_enq_wait s = xs @ e # ys \<Longrightarrow>
    fstep s (s\<lparr>fs_enq_wait := xs @ ys, fs_enq_woken := e # fs_enq_woken s\<rparr>)"

inductive freach :: "int \<Rightarrow> 'a fifo_sys \<Rightarrow> bool" for limit where
  start: "freach limit (fifo_start limit)"
| step: "freach limit s \<Longrightarrow> fstep s s' \<Longrightarrow> freach limit s'"

text \<open>The invariant. The last two clauses are those of the condition variables: while a thread
  waits, what it waits for is there only if a thread that was woken is about to take it.\<close>

definition fifo_inv :: "u32 \<Rightarrow> 'a fifo_sys \<Rightarrow> bool" where
  "fifo_inv m s \<longleftrightarrow>
     f_max (fs_f s) = m \<and>
     fs_in s = fs_out s @ f_q (fs_f s) \<and>
     (m \<noteq> 0 \<longrightarrow> length (f_q (fs_f s)) \<le> unat m) \<and>
     (0 < fs_deq_wait s \<longrightarrow> length (f_q (fs_f s)) \<le> fs_deq_woken s) \<and>
     (fs_enq_wait s \<noteq> [] \<longrightarrow> m \<noteq> 0 \<and> unat m \<le> length (f_q (fs_f s)) + length (fs_enq_woken s))"

lemma fifo_enq_ok:
  "fifo_enq f e b = Enq_ok f' \<Longrightarrow>
     f' = f\<lparr>f_q := f_q f @ [e]\<rparr> \<and> (f_max f \<noteq> 0 \<longrightarrow> Suc (length (f_q f)) \<le> unat (f_max f))"
  by (auto simp: fifo_enq_def split: if_splits)

lemma fifo_deq_ok:
  "fifo_deq f = Some (e, sg, f') \<Longrightarrow>
     f_q f = e # f_q f' \<and> f_max f' = f_max f \<and> (sg \<longleftrightarrow> f_max f \<noteq> 0 \<and> length (f_q f') < unat (f_max f))"
  by (auto simp: fifo_deq_def split: list.splits)

lemma fifo_inv_deq:
  assumes inv: "fifo_inv m s" and deq: "fifo_deq (fs_f s) = Some (e, sg, f)"
    and t: "t = s\<lparr>fs_f := f, fs_deq_woken := n, fs_out := fs_out s @ [e]\<rparr>"
    and n: "n = fs_deq_woken s \<or> fs_deq_woken s = Suc n" and sg: "signal_space sg t s'"
  shows "fifo_inv m s'"
  using sg
proof (cases rule: signal_space.cases)
  case no_signal
  then show ?thesis using inv fifo_deq_ok [OF deq] t n by (auto simp: fifo_inv_def)
next
  case no_waiter
  then show ?thesis using inv fifo_deq_ok [OF deq] t n by (auto simp: fifo_inv_def)
next
  case (wake xs x ys)
  then show ?thesis using inv fifo_deq_ok [OF deq] t n by (auto simp: fifo_inv_def)
qed

lemma fifo_inv_step:
  assumes "fstep s s'" and "fifo_inv m s"
  shows "fifo_inv m s'"
  using assms
proof (induction rule: fstep.induct)
  case (enq_call s e b f)
  with fifo_enq_ok [OF enq_call.hyps] show ?case by (auto simp: fifo_inv_def signal_non_empty_def)
next
  case (enq_block s e b)
  then show ?case by (auto simp: fifo_inv_def fq.enq_waits unat_eq_0)
next
  case (enq_resume s xs e ys f)
  with fifo_enq_ok [OF enq_resume.hyps(2)] show ?case by (auto simp: fifo_inv_def signal_non_empty_def)
next
  case (enq_again s xs e ys)
  then show ?case by (auto simp: fifo_inv_def fq.enq_waits unat_eq_0)
next
  case (deq_call s e sg f s')
  show ?case
    by (rule fifo_inv_deq [OF deq_call.prems deq_call.hyps(1) _ _ deq_call.hyps(2), of "fs_deq_woken s"]) simp_all
next
  case (deq_block s)
  then show ?case by (auto simp: fifo_inv_def fq.deq_none)
next
  case (deq_resume s n e sg f s')
  show ?case
    by (rule fifo_inv_deq [OF deq_resume.prems deq_resume.hyps(2) refl _ deq_resume.hyps(3)]) (simp add: deq_resume.hyps(1))
next
  case (deq_again s n)
  then show ?case by (auto simp: fifo_inv_def fq.deq_none)
qed (auto simp: fifo_inv_def)

lemma freach_inv: "freach limit s \<Longrightarrow> fifo_inv (of_int limit) s"
proof (induction rule: freach.induct)
  case start
  show ?case by (simp add: fifo_inv_def fifo_start_def fifo_new_def)
next
  case (step s s')
  then show ?case by (blast intro: fifo_inv_step)
qed

section \<open>Properties\<close>

text \<open>
  C22: The queue is first-in first-out, bounded and loses no wake-up, in every interleaving of
  the threads that call \<open>enq\<close> and \<open>deq\<close>, with signals that wake any waiter and with spurious
  wake-ups: what went in is what came out followed by what is in the queue; the limit, when
  there is one, is never exceeded; when no woken thread is under way, a waiting \<open>deq\<close> means
  that the queue is empty, and a waiting \<open>enq\<close> that it is full.
\<close>

theorem fifo_order_and_wakeups:
  assumes "freach limit s"
  shows "fs_in s = fs_out s @ f_q (fs_f s) \<and>
    (of_int limit \<noteq> (0 :: u32) \<longrightarrow> length (f_q (fs_f s)) \<le> unat (of_int limit :: u32)) \<and>
    (0 < fs_deq_wait s \<and> fs_deq_woken s = 0 \<longrightarrow> f_q (fs_f s) = []) \<and>
    (fs_enq_wait s \<noteq> [] \<and> fs_enq_woken s = [] \<longrightarrow> length (f_q (fs_f s)) = unat (of_int limit :: u32))"
  using freach_inv [OF assms] by (auto simp: fifo_inv_def)

text \<open>A queue of limit one: a second element waits until the first is taken.\<close>

theorem fifo_order_and_wakeups_witness:
  "\<exists>s. freach 1 s \<and> fs_enq_wait s = [8] \<and> fs_enq_woken s = [] \<and> length (f_q (fs_f s)) = 1 \<and>
     fs_in s = [7 :: nat]"
proof -
  let ?s0 = "fifo_start 1 :: nat fifo_sys"
  let ?f1 = "(fs_f ?s0)\<lparr>f_q := f_q (fs_f ?s0) @ [7]\<rparr>"
  let ?s1 = "signal_non_empty (?s0\<lparr>fs_f := ?f1, fs_in := fs_in ?s0 @ [7]\<rparr>)"
  have "fstep ?s0 ?s1"
    by (rule fstep.enq_call [where b = True]) (simp add: fifo_enq_def fifo_start_def fifo_new_def)
  with freach.start have 1: "freach 1 ?s1" by (rule freach.step)
  let ?s2 = "?s1\<lparr>fs_enq_wait := 8 # fs_enq_wait ?s1\<rparr>"
  have "fstep ?s1 ?s2"
    by (rule fstep.enq_block [where b = True])
      (simp add: fifo_enq_def fifo_start_def fifo_new_def signal_non_empty_def)
  with 1 have 2: "freach 1 ?s2" by (rule freach.step)
  have "fs_enq_wait ?s2 = [8]" "fs_enq_woken ?s2 = []" "fs_in ?s2 = [7]"
    by (simp_all add: fifo_start_def signal_non_empty_def)
  with fifo_order_and_wakeups [OF 2] 2 show ?thesis by (intro exI [of _ ?s2]) simp
qed

end
