(* ===== verification/ThrPool.thy ===== *)
theory ThrPool
  imports Fifo "HOL-Library.Multiset"
begin

text \<open>
  The thread pool \<open>ThrPool\<close> of \<open>rpc/thr_pool.h\<close> and \<open>rpc/thr_pool.cc\<close>: its operations over the
  queue \<open>fifo\<close>, the worker loop \<open>do_worker\<close> and the destructor, which feeds every worker a poison
  pill and joins the workers. \<open>tstep\<close> interleaves the threads that add jobs, the workers and the
  destructor; an operation on the queue that waits is a step that is not enabled. The proofs use
  the queue through its contract, the interpretation \<open>fq\<close> of the locale \<open>queue\<close>.
\<close>

section \<open>The operations\<close>

record ('f, 'a) job_t =
  j_f :: "'f option"
  j_a :: 'a

record ('f, 'a) thrpool =
  tp_nthreads :: nat
  tp_blockadd :: bool
  tp_jobq :: "('f, 'a) job_t fifo"

definition thrpool_new :: "nat \<Rightarrow> bool \<Rightarrow> ('f, 'a) thrpool" where
  "thrpool_new sz blocking = \<lparr>tp_nthreads = sz, tp_blockadd = blocking, tp_jobq = fifo_new (100 * int sz)\<rparr>"

definition pool_enq :: "('f, 'a) thrpool \<Rightarrow> ('f, 'a) job_t \<Rightarrow> bool \<Rightarrow> ('f, 'a) thrpool enq_result" where
  "pool_enq p j blocking =
     (case fifo_enq (tp_jobq p) j blocking of
        Enq_ok f \<Rightarrow> Enq_ok (p\<lparr>tp_jobq := f\<rparr>) | Enq_full \<Rightarrow> Enq_full | Enq_waits \<Rightarrow> Enq_waits)"

definition addJob :: "('f, 'a) thrpool \<Rightarrow> 'f \<Rightarrow> 'a \<Rightarrow> ('f, 'a) thrpool enq_result" where
  "addJob p f a = pool_enq p \<lparr>j_f = Some f, j_a = a\<rparr> (tp_blockadd p)"

text \<open>\<open>takeJob\<close>: whether the job is one, the job, and the pool; \<open>None\<close> while it waits.\<close>

definition takeJob :: "('f, 'a) thrpool \<Rightarrow> (bool \<times> ('f, 'a) job_t \<times> ('f, 'a) thrpool) option" where
  "takeJob p = (case fifo_deq (tp_jobq p) of
     None \<Rightarrow> None | Some (j, _, f) \<Rightarrow> Some (j_f j \<noteq> None, j, p\<lparr>tp_jobq := f\<rparr>))"

text \<open>One poison pill of the destructor; the argument of the pill is not initialised.\<close>

definition poison :: "('f, 'a) thrpool \<Rightarrow> 'a \<Rightarrow> ('f, 'a) thrpool enq_result" where
  "poison p junk = pool_enq p \<lparr>j_f = None, j_a = junk\<rparr> True"

section \<open>The threads\<close>

text \<open>A worker is in \<open>takeJob\<close>, runs a job, or has left its loop. The destructor has not been
  called, has enqueued \<open>k\<close> pills, or has joined \<open>k\<close> workers.\<close>

datatype ('f, 'a) worker = Taking | Running "('f, 'a) job_t" | Exited

datatype destructor = Alive | Poisoning nat | Joining nat

record ('f, 'a) pool_sys =
  ps_pool :: "('f, 'a) thrpool"
  ps_workers :: "('f, 'a) worker list"
  ps_dtor :: destructor
  ps_accepted :: "('f, 'a) job_t list"
  ps_started :: "('f, 'a) job_t list"
  ps_finished :: "('f, 'a) job_t list"

definition pool_start :: "nat \<Rightarrow> bool \<Rightarrow> ('f, 'a) pool_sys" where
  "pool_start sz blocking = \<lparr>ps_pool = thrpool_new sz blocking, ps_workers = replicate sz Taking,
     ps_dtor = Alive, ps_accepted = [], ps_started = [], ps_finished = []\<rparr>"

inductive tstep :: "('f, 'a) pool_sys \<Rightarrow> ('f, 'a) pool_sys \<Rightarrow> bool" where
  add: "ps_dtor s = Alive \<Longrightarrow> addJob (ps_pool s) f a = Enq_ok p \<Longrightarrow>
    tstep s (s\<lparr>ps_pool := p, ps_accepted := ps_accepted s @ [\<lparr>j_f = Some f, j_a = a\<rparr>]\<rparr>)"
| take_job: "ps_workers s = xs @ Taking # ys \<Longrightarrow> takeJob (ps_pool s) = Some (True, j, p) \<Longrightarrow>
    tstep s (s\<lparr>ps_pool := p, ps_workers := xs @ Running j # ys, ps_started := ps_started s @ [j]\<rparr>)"
| take_pill: "ps_workers s = xs @ Taking # ys \<Longrightarrow> takeJob (ps_pool s) = Some (False, j, p) \<Longrightarrow>
    tstep s (s\<lparr>ps_pool := p, ps_workers := xs @ Exited # ys\<rparr>)"
| job_done: "ps_workers s = xs @ Running j # ys \<Longrightarrow>
    tstep s (s\<lparr>ps_workers := xs @ Taking # ys, ps_finished := ps_finished s @ [j]\<rparr>)"
| destroy: "ps_dtor s = Alive \<Longrightarrow> tstep s (s\<lparr>ps_dtor := Poisoning 0\<rparr>)"
| pill: "ps_dtor s = Poisoning k \<Longrightarrow> k < tp_nthreads (ps_pool s) \<Longrightarrow> poison (ps_pool s) junk = Enq_ok p \<Longrightarrow>
    tstep s (s\<lparr>ps_pool := p, ps_dtor := Poisoning (k + 1)\<rparr>)"
| poisoned: "ps_dtor s = Poisoning k \<Longrightarrow> k = tp_nthreads (ps_pool s) \<Longrightarrow> tstep s (s\<lparr>ps_dtor := Joining 0\<rparr>)"
| joins: "ps_dtor s = Joining k \<Longrightarrow> k < tp_nthreads (ps_pool s) \<Longrightarrow> ps_workers s ! k = Exited \<Longrightarrow>
    tstep s (s\<lparr>ps_dtor := Joining (k + 1)\<rparr>)"

inductive treach :: "nat \<Rightarrow> bool \<Rightarrow> ('f, 'a) pool_sys \<Rightarrow> bool" for sz blocking where
  start: "treach sz blocking (pool_start sz blocking)"
| step: "treach sz blocking s \<Longrightarrow> tstep s s' \<Longrightarrow> treach sz blocking s'"

definition destroyed :: "('f, 'a) pool_sys \<Rightarrow> bool" where
  "destroyed s \<longleftrightarrow> ps_dtor s = Joining (tp_nthreads (ps_pool s))"

section \<open>The invariant\<close>

abbreviation pool_q :: "('f, 'a) pool_sys \<Rightarrow> ('f, 'a) job_t list" where
  "pool_q s \<equiv> f_q (tp_jobq (ps_pool s))"

definition real_jobs :: "('f, 'a) job_t list \<Rightarrow> ('f, 'a) job_t list" where
  "real_jobs js = filter (\<lambda>j. j_f j \<noteq> None) js"

definition pills :: "('f, 'a) job_t list \<Rightarrow> nat" where
  "pills js = length (filter (\<lambda>j. j_f j = None) js)"

fun worker_job :: "('f, 'a) worker \<Rightarrow> ('f, 'a) job_t list" where
  "worker_job (Running j) = [j]"
| "worker_job _ = []"

definition running :: "('f, 'a) worker list \<Rightarrow> ('f, 'a) job_t list" where
  "running ws = concat (map worker_job ws)"

definition exited :: "('f, 'a) worker list \<Rightarrow> nat" where
  "exited ws = length (filter (\<lambda>w. w = Exited) ws)"

fun pills_sent :: "nat \<Rightarrow> destructor \<Rightarrow> nat" where
  "pills_sent n Alive = 0"
| "pills_sent n (Poisoning k) = k"
| "pills_sent n (Joining k) = n"

fun joined :: "destructor \<Rightarrow> nat" where
  "joined (Joining k) = k"
| "joined _ = 0"

text \<open>Pills come last: behind a pill there is no job.\<close>

fun pills_last :: "('f, 'a) job_t list \<Rightarrow> bool" where
  "pills_last [] = True"
| "pills_last (j # js) = ((j_f j = None \<longrightarrow> real_jobs js = []) \<and> pills_last js)"

definition pool_inv :: "nat \<Rightarrow> ('f, 'a) pool_sys \<Rightarrow> bool" where
  "pool_inv n s \<longleftrightarrow>
     tp_nthreads (ps_pool s) = n \<and> length (ps_workers s) = n \<and>
     ps_accepted s = ps_started s @ real_jobs (pool_q s) \<and>
     mset (ps_started s) = mset (ps_finished s) + mset (running (ps_workers s)) \<and>
     pills_last (pool_q s) \<and>
     (0 < exited (ps_workers s) \<longrightarrow> real_jobs (pool_q s) = []) \<and>
     exited (ps_workers s) + pills (pool_q s) = pills_sent n (ps_dtor s) \<and> pills_sent n (ps_dtor s) \<le> n \<and>
     joined (ps_dtor s) \<le> n \<and> (\<forall>i < joined (ps_dtor s). ps_workers s ! i = Exited)"

lemma running_simps [simp]:
  "running [] = []" "running (w # ws) = worker_job w @ running ws" "running (ws @ ws') = running ws @ running ws'"
  by (simp_all add: running_def)

lemma exited_simps [simp]:
  "exited [] = 0" "exited (w # ws) = (if w = Exited then 1 else 0) + exited ws"
  "exited (ws @ ws') = exited ws + exited ws'"
  by (simp_all add: exited_def)

lemma real_jobs_simps [simp]:
  "real_jobs [] = []" "real_jobs (j # js) = (if j_f j \<noteq> None then [j] else []) @ real_jobs js"
  "real_jobs (js @ js') = real_jobs js @ real_jobs js'"
  by (simp_all add: real_jobs_def)

lemma pills_simps [simp]:
  "pills [] = 0" "pills (j # js) = (if j_f j = None then 1 else 0) + pills js"
  "pills (js @ js') = pills js + pills js'"
  by (simp_all add: pills_def)

lemma pills_last_append:
  "pills_last (js @ [j]) \<longleftrightarrow> pills_last js \<and> (j_f j = None \<or> pills js = 0)"
  by (induction js) auto

lemma pool_enq_ok:
  assumes "pool_enq p j b = Enq_ok p'"
  shows "tp_nthreads p' = tp_nthreads p" and "f_q (tp_jobq p') = f_q (tp_jobq p) @ [j]"
    and "f_max (tp_jobq p') = f_max (tp_jobq p)"
proof -
  obtain f where f: "fifo_enq (tp_jobq p) j b = Enq_ok f" "p' = p\<lparr>tp_jobq := f\<rparr>"
    using assms by (auto simp: pool_enq_def split: enq_result.splits)
  from fq.enq_ok [OF f(1)] f(2) show "tp_nthreads p' = tp_nthreads p"
    "f_q (tp_jobq p') = f_q (tp_jobq p) @ [j]" "f_max (tp_jobq p') = f_max (tp_jobq p)"
    by (auto dest: word_unat_eq_iff [THEN iffD2])
qed

lemma takeJob_some:
  assumes "takeJob p = Some (ok, j, p')"
  shows "tp_nthreads p' = tp_nthreads p" and "f_q (tp_jobq p) = j # f_q (tp_jobq p')"
    and "ok \<longleftrightarrow> j_f j \<noteq> None" and "f_max (tp_jobq p') = f_max (tp_jobq p)"
proof -
  obtain sg f where f: "fifo_deq (tp_jobq p) = Some (j, sg, f)" "p' = p\<lparr>tp_jobq := f\<rparr>" "ok \<longleftrightarrow> j_f j \<noteq> None"
    using assms by (auto simp: takeJob_def split: option.splits)
  from fq.deq_some [OF f(1)] f(2,3) show "tp_nthreads p' = tp_nthreads p"
    "f_q (tp_jobq p) = j # f_q (tp_jobq p')" "ok \<longleftrightarrow> j_f j \<noteq> None" "f_max (tp_jobq p') = f_max (tp_jobq p)"
    by (auto dest: word_unat_eq_iff [THEN iffD2])
qed

lemma takeJob_nonempty:
  assumes "f_q (tp_jobq p) = j # js"
  shows "\<exists>p'. takeJob p = Some (j_f j \<noteq> None, j, p')"
  using fq.deq_nonempty [OF assms] by (auto simp: takeJob_def)

lemma nth_Exited_mid:
  assumes "\<forall>i < k. (xs @ w # ys) ! i = Exited" and "w \<noteq> Exited"
  shows "\<forall>i < k. (xs @ w' # ys) ! i = Exited"
proof (intro allI impI)
  fix i assume "i < k"
  with assms have "(xs @ w # ys) ! i = Exited" by blast
  with assms(2) show "(xs @ w' # ys) ! i = Exited" by (cases "i = length xs") (auto simp: nth_append nth_Cons split: nat.splits)
qed

lemma pool_inv_step:
  assumes "tstep s s'" and "pool_inv n s"
  shows "pool_inv n s'"
  using assms
proof (induction rule: tstep.induct)
  case (add s f a p)
  note q = pool_enq_ok [OF add.hyps(2) [unfolded addJob_def]]
  from add.hyps(1) add.prems q show ?case by (simp add: pool_inv_def pills_last_append)
next
  case (take_job s xs ys j p)
  note q = takeJob_some [OF take_job.hyps(2)]
  have "\<forall>i < joined (ps_dtor s). (xs @ Running j # ys) ! i = Exited"
    by (rule nth_Exited_mid [where w = Taking]) (use take_job.prems take_job.hyps(1) in \<open>auto simp: pool_inv_def\<close>)
  with take_job.hyps(1) take_job.prems q show ?case by (clarsimp simp: pool_inv_def)
next
  case (take_pill s xs ys j p)
  note q = takeJob_some [OF take_pill.hyps(2)]
  have "\<forall>i < joined (ps_dtor s). (xs @ Exited # ys) ! i = Exited"
    by (rule nth_Exited_mid [where w = Taking]) (use take_pill.prems take_pill.hyps(1) in \<open>auto simp: pool_inv_def\<close>)
  with take_pill.hyps(1) take_pill.prems q show ?case by (auto simp: pool_inv_def)
next
  case (job_done s xs j ys)
  have "\<forall>i < joined (ps_dtor s). (xs @ Taking # ys) ! i = Exited"
    by (rule nth_Exited_mid [where w = "Running j"]) (use job_done.prems job_done.hyps(1) in \<open>auto simp: pool_inv_def\<close>)
  with job_done.hyps(1) job_done.prems show ?case by (auto simp: pool_inv_def)
next
  case (pill s k junk p)
  note q = pool_enq_ok [OF pill.hyps(3) [unfolded poison_def]]
  from pill.hyps(1,2) pill.prems q show ?case by (auto simp: pool_inv_def pills_last_append)
next
  case (joins s k)
  then show ?case by (auto simp: pool_inv_def less_Suc_eq)
qed (auto simp: pool_inv_def)

lemma fresh_workers: "running (replicate n Taking) = []" "exited (replicate n Taking) = 0"
  by (induction n) simp_all

lemma treach_inv: "treach sz blocking s \<Longrightarrow> pool_inv sz s"
proof (induction rule: treach.induct)
  case start
  show ?case by (simp add: pool_inv_def pool_start_def thrpool_new_def fifo_new_def fresh_workers)
next
  case (step s s')
  then show ?case by (blast intro: pool_inv_step)
qed

section \<open>Progress of the destructor\<close>

text \<open>What is left to do once the destructor runs.\<close>

fun dtor_left :: "nat \<Rightarrow> destructor \<Rightarrow> nat" where
  "dtor_left n Alive = 5 * n + 2"
| "dtor_left n (Poisoning k) = 4 * (n - k) + n + 1"
| "dtor_left n (Joining k) = n - k"

definition work_left :: "('f, 'a) pool_sys \<Rightarrow> nat" where
  "work_left s = dtor_left (tp_nthreads (ps_pool s)) (ps_dtor s) + 2 * length (pool_q s) +
     length (running (ps_workers s))"

lemma work_left_decreases:
  assumes "tstep s s'" and "ps_dtor s \<noteq> Alive"
  shows "work_left s' < work_left s"
  using assms
proof (induction rule: tstep.induct)
  case (take_job s xs ys j p)
  then show ?case using takeJob_some [OF take_job.hyps(2)] by (simp add: work_left_def)
next
  case (take_pill s xs ys j p)
  then show ?case using takeJob_some [OF take_pill.hyps(2)] by (simp add: work_left_def)
next
  case (pill s k junk p)
  then show ?case using pool_enq_ok [OF pill.hyps(3) [unfolded poison_def]] by (simp add: work_left_def)
qed (simp_all add: work_left_def)

lemma running_split: "running ws \<noteq> [] \<Longrightarrow> \<exists>xs j ys. ws = xs @ Running j # ys"
proof (induction ws)
  case (Cons w ws)
  show ?case
  proof (cases w)
    case (Running j)
    then show ?thesis by (metis append_Nil)
  qed (use Cons in \<open>auto, (metis append_Cons)+\<close>)
qed simp

lemma exited_le: "exited ws \<le> length ws"
  by (simp add: exited_def)

lemma all_exited: "exited ws = length ws \<longleftrightarrow> (\<forall>w \<in> set ws. w = Exited)"
proof (induction ws)
  case (Cons w ws)
  with exited_le [of ws] show ?case by auto
qed simp

lemma taking_or_exited:
  assumes "running ws = []" and "exited ws < length ws"
  shows "\<exists>xs ys. ws = xs @ Taking # ys"
proof -
  obtain w where w: "w \<in> set ws" "w \<noteq> Exited" using assms(2) all_exited [of ws] by auto
  then obtain xs ys where "ws = xs @ w # ys" by (meson split_list)
  moreover have "w = Taking" using w(2) assms(1) \<open>ws = xs @ w # ys\<close> by (cases w) auto
  ultimately show ?thesis by blast
qed

lemma poison_empty:
  assumes "f_q (tp_jobq p) = []"
  shows "\<exists>p'. poison p junk = Enq_ok p'"
proof -
  have "\<exists>f. fifo_enq (tp_jobq p) \<lparr>j_f = None, j_a = junk\<rparr> True = Enq_ok f"
    unfolding fq.enq_total using assms by auto
  then show ?thesis by (auto simp: poison_def pool_enq_def)
qed

lemma pool_progress:
  assumes inv: "pool_inv n s" and dtor: "ps_dtor s \<noteq> Alive" "\<not> destroyed s"
  shows "\<exists>s'. tstep s s'"
proof (cases "running (ps_workers s) = []")
  case False
  then show ?thesis using running_split tstep.job_done by blast
next
  case idle: True
  have n: "length (ps_workers s) = n" "tp_nthreads (ps_pool s) = n"
    and sent: "exited (ps_workers s) + pills (pool_q s) = pills_sent n (ps_dtor s)" "pills_sent n (ps_dtor s) \<le> n"
    and j: "joined (ps_dtor s) \<le> n" using inv by (auto simp: pool_inv_def)
  show ?thesis
  proof (cases "exited (ps_workers s) = n")
    case True
    then have "pills_sent n (ps_dtor s) = n" "\<forall>i < n. ps_workers s ! i = Exited"
      using sent n all_exited [of "ps_workers s"] by auto
    with dtor j n show ?thesis
      by (cases "ps_dtor s") (auto simp: destroyed_def intro!: exI tstep.poisoned tstep.joins)
  next
    case False
    then have "exited (ps_workers s) < n" using exited_le [of "ps_workers s"] n by simp
    then obtain xs ys where w: "ps_workers s = xs @ Taking # ys" using taking_or_exited [OF idle] n by auto
    show ?thesis
    proof (cases "pool_q s")
      case Nil
      then obtain k where k: "ps_dtor s = Poisoning k" "k < n"
        using sent dtor \<open>exited (ps_workers s) < n\<close> by (cases "ps_dtor s") auto
      from poison_empty [OF Nil] obtain p' where "poison (ps_pool s) undefined = Enq_ok p'" by blast
      with k n show ?thesis using tstep.pill [of s k undefined p'] by auto
    next
      case (Cons j js)
      from takeJob_nonempty [OF Cons] obtain p' where "takeJob (ps_pool s) = Some (j_f j \<noteq> None, j, p')" ..
      then show ?thesis using w by (cases "j_f j = None") (auto intro: tstep.take_job tstep.take_pill)
    qed
  qed
qed

lemma running_le: "length (running ws) \<le> length ws"
proof (induction ws)
  case (Cons w ws)
  then show ?case by (cases w) auto
qed simp

lemma no_jobs_no_pills: "real_jobs js = [] \<Longrightarrow> pills js = 0 \<Longrightarrow> js = []"
  by (cases js) (auto split: if_splits)

lemma running_exited: "\<forall>w \<in> set ws. w = Exited \<Longrightarrow> running ws = []"
  by (induction ws) auto

lemma destroyed_clean:
  assumes inv: "pool_inv n s" and "0 < n" and "destroyed s"
  shows "pool_q s = [] \<and> (\<forall>w \<in> set (ps_workers s). w = Exited) \<and> mset (ps_finished s) = mset (ps_accepted s)"
proof -
  have dtor: "ps_dtor s = Joining n" and n: "length (ps_workers s) = n"
    using assms by (auto simp: destroyed_def pool_inv_def)
  then have ex: "\<forall>w \<in> set (ps_workers s). w = Exited" using inv by (auto simp: pool_inv_def in_set_conv_nth)
  then have "exited (ps_workers s) = n" using n all_exited by blast
  then have "real_jobs (pool_q s) = []" "pills (pool_q s) = 0" using inv dtor assms(2) by (auto simp: pool_inv_def)
  with no_jobs_no_pills running_exited [OF ex] ex inv show ?thesis by (auto simp: pool_inv_def)
qed

text \<open>A pool of two threads with two jobs, one of them started.\<close>

lemma sample_pool:
  "\<exists>s :: (nat, nat) pool_sys. treach 2 False s \<and> ps_dtor s = Alive \<and>
     ps_accepted s = [\<lparr>j_f = Some 1, j_a = 7\<rparr>, \<lparr>j_f = Some 1, j_a = 8\<rparr>] \<and> ps_started s = [\<lparr>j_f = Some 1, j_a = 7\<rparr>]"
proof -
  let ?s0 = "pool_start 2 False :: (nat, nat) pool_sys"
  let ?add = "\<lambda>s a p. s\<lparr>ps_pool := p, ps_accepted := ps_accepted s @ [\<lparr>j_f = Some 1, j_a = a\<rparr>]\<rparr>"
  obtain p1 where p1: "addJob (ps_pool ?s0) 1 7 = Enq_ok p1" "tp_blockadd p1 = False"
    "tp_jobq p1 = \<lparr>f_q = [\<lparr>j_f = Some 1, j_a = 7\<rparr>], f_max = 200\<rparr>"
    by (auto simp: addJob_def pool_enq_def fifo_enq_def pool_start_def thrpool_new_def fifo_new_def)
  have 1: "treach 2 False (?add ?s0 7 p1)"
    by (rule treach.step [OF treach.start tstep.add [OF _ p1(1)]]) (simp add: pool_start_def)
  obtain p2 where p2: "addJob p1 1 8 = Enq_ok p2"
    "f_q (tp_jobq p2) = [\<lparr>j_f = Some 1, j_a = 7\<rparr>, \<lparr>j_f = Some 1, j_a = 8\<rparr>]"
    by (auto simp: addJob_def pool_enq_def fifo_enq_def p1)
  let ?s2 = "?add (?add ?s0 7 p1) 8 p2"
  have 2: "treach 2 False ?s2"
    by (rule treach.step [OF 1 tstep.add [OF _ _]]) (simp_all add: pool_start_def p2(1) [simplified])
  obtain p3 where p3: "takeJob p2 = Some (True, \<lparr>j_f = Some 1, j_a = 7\<rparr>, p3)"
    using takeJob_nonempty [OF p2(2)] by auto
  have "treach 2 False (?s2\<lparr>ps_pool := p3, ps_workers := [] @ Running \<lparr>j_f = Some 1, j_a = 7\<rparr> # [Taking],
    ps_started := ps_started ?s2 @ [\<lparr>j_f = Some 1, j_a = 7\<rparr>]\<rparr>)" (is "treach 2 False ?s3")
    by (rule treach.step [OF 2 tstep.take_job]) (simp_all add: pool_start_def p3 numeral_2_eq_2)
  moreover have "ps_dtor ?s3 = Alive" "ps_started ?s3 = [\<lparr>j_f = Some 1, j_a = 7\<rparr>]"
    "ps_accepted ?s3 = [\<lparr>j_f = Some 1, j_a = 7\<rparr>, \<lparr>j_f = Some 1, j_a = 8\<rparr>]" by (simp_all add: pool_start_def)
  ultimately show ?thesis by blast
qed

section \<open>Properties\<close>

text \<open>
  C34: Jobs start in the order in which \<open>addJob\<close> accepted them, each exactly once: in every
  interleaving of the threads that add jobs, the workers and the destructor, the accepted jobs
  are the started ones followed by those in the queue, and the started jobs are the finished
  ones and those that the workers run.
\<close>

theorem jobs_run_once_in_order:
  assumes "treach sz blocking s"
  shows "ps_accepted s = ps_started s @ real_jobs (pool_q s) \<and>
    mset (ps_started s) = mset (ps_finished s) + mset (running (ps_workers s)) \<and>
    length (running (ps_workers s)) \<le> sz"
  using treach_inv [OF assms] running_le [of "ps_workers s"] by (auto simp: pool_inv_def)

theorem jobs_run_once_in_order_witness:
  "\<exists>s :: (nat, nat) pool_sys. treach 2 False s \<and> ps_started s = [\<lparr>j_f = Some 1, j_a = 7\<rparr>] \<and>
     ps_accepted s = ps_started s @ real_jobs (pool_q s) \<and> real_jobs (pool_q s) = [\<lparr>j_f = Some 1, j_a = 8\<rparr>]"
proof -
  obtain s :: "(nat, nat) pool_sys" where s: "treach 2 False s"
    "ps_accepted s = [\<lparr>j_f = Some 1, j_a = 7\<rparr>, \<lparr>j_f = Some 1, j_a = 8\<rparr>]"
    "ps_started s = [\<lparr>j_f = Some 1, j_a = 7\<rparr>]" using sample_pool by blast
  from jobs_run_once_in_order [OF s(1)] s show ?thesis by auto
qed

text \<open>
  C9: The destructor of a pool with at least one thread always comes to an end, provided that
  the jobs do: while it runs some step is possible and every step makes the remaining work
  smaller; and when it has joined the workers the queue is empty, every worker has left its
  loop and every job that was ever accepted has been run to its end.
\<close>

theorem shutdown_completes:
  assumes "treach sz blocking s" and "0 < sz" and "ps_dtor s \<noteq> Alive"
  shows "(\<not> destroyed s \<longrightarrow> (\<exists>s'. tstep s s')) \<and> (\<forall>s'. tstep s s' \<longrightarrow> work_left s' < work_left s) \<and>
    (destroyed s \<longrightarrow> pool_q s = [] \<and> (\<forall>w \<in> set (ps_workers s). w = Exited) \<and>
       mset (ps_finished s) = mset (ps_accepted s))"
proof -
  note inv = treach_inv [OF assms(1)]
  have "pool_q s = [] \<and> (\<forall>w \<in> set (ps_workers s). w = Exited) \<and> mset (ps_finished s) = mset (ps_accepted s)"
    if "destroyed s"
    using destroyed_clean [OF inv assms(2) that] .
  then show ?thesis using pool_progress [OF inv assms(3)] work_left_decreases [OF _ assms(3)] by blast
qed

theorem shutdown_completes_witness:
  "\<exists>s :: (nat, nat) pool_sys. treach 2 False s \<and> ps_dtor s = Poisoning 0 \<and> (\<exists>s'. tstep s s' \<and> work_left s' < work_left s)"
proof -
  obtain s :: "(nat, nat) pool_sys" where s: "treach 2 False s" "ps_dtor s = Alive" using sample_pool by blast
  let ?t = "s\<lparr>ps_dtor := Poisoning 0\<rparr>"
  have t: "treach 2 False ?t" by (rule treach.step [OF s(1)]) (rule tstep.destroy [OF s(2)])
  have n: "tp_nthreads (ps_pool ?t) = 2" using treach_inv [OF t] by (simp add: pool_inv_def)
  have "\<not> destroyed ?t" by (simp add: destroyed_def)
  with shutdown_completes [OF t] obtain s' where "tstep ?t s'" "work_left s' < work_left ?t" by auto
  with t show ?thesis by (intro exI [of _ ?t]) auto
qed

end
