(* ===== verification/Dispatch.thy ===== *)
theory Dispatch
  imports Verdicts Refs ThrPool
begin

text \<open>
  The server side of a request from the poll thread to the reply: \<open>rpcs::got_pdu\<close>, which takes a
  reference to the connection and puts the job into the thread pool, and the references and
  stored replies that \<open>rpcs::dispatch\<close> works with. The holders of references are the job itself,
  the entries of \<open>conns_\<close>, and whoever else; the proofs use the laws of the locale \<open>refcount\<close>.
\<close>

section \<open>From the poll thread to the pool\<close>

record djob_t =
  dt_conn :: cid
  dt_buf :: cells
  dt_sz :: int

datatype rpcs_method = Rpcs_dispatch

text \<open>\<open>addObjJob\<close> wraps the object, the method and its argument; the job is the static function
  \<open>func\<close> of the wrapper, which makes the call.\<close>

record ('o, 'm, 'a) objfunc_wrapper =
  ow_o :: 'o
  ow_m :: 'm
  ow_a :: 'a

datatype job_fn = Objfunc_func

definition objfunc_func :: "('o \<Rightarrow> 'm \<Rightarrow> 'a \<Rightarrow> 'r) \<Rightarrow> ('o, 'm, 'a) objfunc_wrapper \<Rightarrow> 'r" where
  "objfunc_func call x = call (ow_o x) (ow_m x) (ow_a x)"

type_synonym ('o, 'm, 'a) obj_pool = "(job_fn, ('o, 'm, 'a) objfunc_wrapper) thrpool"

definition addObjJob :: "('o, 'm, 'a) obj_pool \<Rightarrow> 'o \<Rightarrow> 'm \<Rightarrow> 'a \<Rightarrow> ('o, 'm, 'a) obj_pool enq_result" where
  "addObjJob p ob m a = addJob p Objfunc_func \<lparr>ow_o = ob, ow_m = m, ow_a = a\<rparr>"

text \<open>The pool of \<open>rpcs\<close> does not block, so that \<open>addObjJob\<close> returns: a blocking pool would make
  the poll thread wait.\<close>

definition rpcs_got_pdu ::
  "'o \<Rightarrow> conn_heap \<Rightarrow> ('o, rpcs_method, djob_t) obj_pool \<Rightarrow> cid \<Rightarrow> cells \<Rightarrow> int \<Rightarrow>
   (bool \<times> conn_heap \<times> ('o, rpcs_method, djob_t) obj_pool) option" where
  "rpcs_got_pdu this H p c b sz = do {
     let j = \<lparr>dt_conn = c, dt_buf = b, dt_sz = sz\<rparr>;
     H \<leftarrow> incref H c;
     (case addObjJob p this Rpcs_dispatch j of
        Enq_ok p \<Rightarrow> Some (True, H, p)
      | Enq_full \<Rightarrow> do { H \<leftarrow> decref H c; Some (False, H, p) }
      | Enq_waits \<Rightarrow> None)
   }"

definition rpcs_pool :: "('o, rpcs_method, djob_t) obj_pool" where
  "rpcs_pool = thrpool_new 10 False"

section \<open>The references of the server\<close>

definition conn_entry :: "(u32 \<rightharpoonup> cid option) \<Rightarrow> u32 \<Rightarrow> cid option" where
  "conn_entry M n = (case M n of None \<Rightarrow> None | Some p \<Rightarrow> p)"

definition conns_refs :: "(u32 \<rightharpoonup> cid option) \<Rightarrow> holder multiset" where
  "conns_refs M = (\<Sum>n \<in> dom M. opt_refs (conn_entry M n))"

lemma conns_refs_upd:
  assumes "finite (dom M)"
  shows "\<exists>R0. conns_refs M = R0 + opt_refs (conn_entry M n) \<and> (\<forall>p. conns_refs (M(n \<mapsto> p)) = R0 + opt_refs p)"
proof -
  let ?R0 = "\<Sum>m \<in> dom M - {n}. opt_refs (conn_entry M m)"
  have "conns_refs M = ?R0 + opt_refs (conn_entry M n)"
  proof (cases "n \<in> dom M")
    case True
    then show ?thesis using assms by (simp add: conns_refs_def sum.remove [of _ n] add.commute)
  next
    case False
    then show ?thesis by (simp add: conns_refs_def conn_entry_def domIff)
  qed
  moreover have "conns_refs (M(n \<mapsto> p)) = ?R0 + opt_refs p" for p
  proof -
    have "(\<Sum>m \<in> dom M - {n}. opt_refs (conn_entry (M(n \<mapsto> p)) m)) = ?R0"
      by (rule sum.cong) (auto simp: conn_entry_def)
    then show ?thesis using assms by (simp add: conns_refs_def sum.insert_remove conn_entry_def)
  qed
  ultimately show ?thesis by blast
qed

text \<open>\<open>own\<close> are the references of the thread that dispatches.\<close>

definition server_refs :: "holder multiset \<Rightarrow> 's rpcs \<Rightarrow> bool" where
  "server_refs own s \<longleftrightarrow> finite (dom (rs_conns s)) \<and> (\<forall>n. rs_conns s n \<noteq> Some None) \<and>
     (\<exists>R. conn_refs (rs_heap s) (R + conns_refs (rs_conns s) + own))"

lemma server_refs_cong:
  "rs_conns s' = rs_conns s \<Longrightarrow> rs_heap s' = rs_heap s \<Longrightarrow> server_refs own s' = server_refs own s"
  by (simp add: server_refs_def)

lemma c_decref_refs:
  assumes "server_refs (add_mset (c, False) own) s"
  shows "\<exists>H. c_decref s c = Some (s\<lparr>rs_heap := H\<rparr>) \<and> server_refs own (s\<lparr>rs_heap := H\<rparr>)"
proof -
  from assms obtain R where "conn_refs (rs_heap s) (add_mset (c, False) (R + conns_refs (rs_conns s) + own))"
    by (auto simp: server_refs_def)
  from rc.dec_ok [OF this] assms show ?thesis by (auto simp: c_decref_def server_refs_def)
qed

lemma save_conn_refs:
  assumes refs: "server_refs (add_mset (c, False) own) s"
  shows "\<exists>H. save_conn s n c = Some (s\<lparr>rs_heap := H, rs_conns := (rs_conns s)(n \<mapsto> Some c)\<rparr>) \<and>
    server_refs (add_mset (c, False) own) (s\<lparr>rs_heap := H, rs_conns := (rs_conns s)(n \<mapsto> Some c)\<rparr>)"
proof -
  from refs obtain R where fin: "finite (dom (rs_conns s))" and nn: "\<forall>n. rs_conns s n \<noteq> Some None"
    and R: "conn_refs (rs_heap s) (R + conns_refs (rs_conns s) + add_mset (c, False) own)"
    by (auto simp: server_refs_def)
  from conns_refs_upd [OF fin, of n] obtain R0
    where R0: "conns_refs (rs_conns s) = R0 + opt_refs (conn_entry (rs_conns s) n)"
      "\<And>p. conns_refs ((rs_conns s)(n \<mapsto> p)) = R0 + opt_refs p" by blast
  let ?R = "R + R0 + add_mset (c, False) own"
  have goal: "server_refs (add_mset (c, False) own) (s\<lparr>rs_heap := H, rs_conns := (rs_conns s)(n \<mapsto> Some c)\<rparr>)"
    if "conn_refs H (add_mset (c, False) ?R)" for H
  proof -
    have "R + conns_refs ((rs_conns s)(n \<mapsto> Some c)) + add_mset (c, False) own = add_mset (c, False) ?R"
      by (simp add: R0(2))
    then show ?thesis using that fin nn unfolding server_refs_def by (auto intro!: exI [of _ R])
  qed
  show ?thesis
  proof (cases "rs_conns s n")
    case None
    then have "conn_refs (rs_heap s) ?R" using R R0(1) by (simp add: conn_entry_def add.assoc)
    from rc.inc_ok [OF this, of c False] None goal show ?thesis by (auto simp: save_conn_def c_incref_def)
  next
    case (Some p)
    then obtain d where d: "rs_conns s n = Some (Some d)" using nn by (cases p) auto
    then have R1: "conn_refs (rs_heap s) (add_mset (d, False) ?R)"
      using R R0(1) by (simp add: conn_entry_def add.assoc add_mset_commute)
    show ?thesis
    proof (cases "d = c")
      case True
      then have "save_conn s n c = Some s" and "s = s\<lparr>rs_heap := rs_heap s, rs_conns := (rs_conns s)(n \<mapsto> Some c)\<rparr>"
        using d by (auto simp: save_conn_def fun_upd_idem)
      with goal [of "rs_heap s"] R1 True show ?thesis by metis
    next
      case False
      from rc.swap_ok [OF R1, of c False] False d goal show ?thesis
        by (auto simp: save_conn_def c_incref_def c_decref_def)
    qed
  qed
qed

lemma latest_conn_refs:
  assumes refs: "server_refs (add_mset (c, False) own) s"
    and entry: "isdead (rs_heap s) c = Some True \<Longrightarrow> rs_conns s n \<noteq> None"
  shows "\<exists>c' H. latest_conn s n c = Some (c', s\<lparr>rs_heap := H\<rparr>) \<and>
    server_refs (add_mset (c', False) own) (s\<lparr>rs_heap := H\<rparr>)"
proof -
  from refs obtain R where fin: "finite (dom (rs_conns s))" and nn: "\<forall>n. rs_conns s n \<noteq> Some None"
    and R: "conn_refs (rs_heap s) (add_mset (c, False) (R + conns_refs (rs_conns s) + own))"
    by (auto simp: server_refs_def)
  obtain k where k: "rs_heap s c = Some k" using conn_refs_live [OF R, of c False] by auto
  show ?thesis
  proof (cases "c_dead k")
    case False
    then have "latest_conn s n c = Some (c, s\<lparr>rs_heap := rs_heap s\<rparr>)" using k by (simp add: latest_conn_def isdead_def)
    then show ?thesis using refs by fastforce
  next
    case True
    then obtain d where d: "rs_conns s n = Some (Some d)" using entry nn k
      by (cases "rs_conns s n") (auto simp: isdead_def, metis option.exhaust)
    then have same: "(rs_conns s)(n \<mapsto> Some d) = rs_conns s" by (rule fun_upd_idem)
    from conns_refs_upd [OF fin, of n] d have mem: "(d, False) \<in># R + conns_refs (rs_conns s) + own"
      by (auto simp: conn_entry_def)
    from rc.swap_ok [OF R mem] obtain H1 H2 where H: "decref (rs_heap s) c = Some H1" "incref H1 d = Some H2"
      "conn_refs H2 (add_mset (d, False) (R + conns_refs (rs_conns s) + own))" by blast
    show ?thesis
    proof (cases "d = c")
      case True
      then have "latest_conn s n c = Some (c, s\<lparr>rs_heap := rs_heap s\<rparr>)" using k d same \<open>c_dead k\<close>
        by (simp add: latest_conn_def isdead_def Let_def)
      then show ?thesis using refs by fastforce
    next
      case False
      then have "latest_conn s n c = Some (d, s\<lparr>rs_heap := H2\<rparr>)"
        using k d same H(1,2) \<open>c_dead k\<close> by (simp add: latest_conn_def isdead_def c_decref_def c_incref_def Let_def)
      moreover have "server_refs (add_mset (d, False) own) (s\<lparr>rs_heap := H2\<rparr>)"
        using H(3) fin nn by (auto simp: server_refs_def intro!: exI [of _ R])
      ultimately show ?thesis by blast
    qed
  qed
qed

section \<open>The stored replies\<close>

definition stored :: "(u32 \<rightharpoonup> reply_t list) \<Rightarrow> bool" where
  "stored W \<longleftrightarrow> (\<forall>n l it. W n = Some l \<longrightarrow> it \<in> set l \<longrightarrow> r_cb_present it \<longrightarrow> r_buf it \<noteq> None)"

lemma storedD: "stored W \<Longrightarrow> W n = Some l \<Longrightarrow> it \<in> set l \<Longrightarrow> r_cb_present it \<Longrightarrow> r_buf it \<noteq> None"
  unfolding stored_def by blast

lemma stored_upd:
  assumes "stored W" and "\<And>it. it \<in> set l \<Longrightarrow> r_cb_present it \<Longrightarrow> r_buf it \<noteq> None"
  shows "stored (W(n \<mapsto> l))"
  unfolding stored_def
proof (intro allI impI)
  fix m l' it
  assume "(W(n \<mapsto> l)) m = Some l'" and "it \<in> set l'" and "r_cb_present it"
  then show "r_buf it \<noteq> None" using assms(2) storedD [OF assms(1), of m l'] by (cases "m = n") auto
qed

lemma checkduplicate_loop_set: "checkduplicate_loop xid xr l = (v, l') \<Longrightarrow> set l' \<subseteq> set l"
  by (induction l arbitrary: l') (fastforce split: prod.splits if_splits)+

lemma checkduplicate_loop_DONE:
  "checkduplicate_loop xid xr l = (Some (DONE, b), l') \<Longrightarrow> \<exists>it \<in> set l. r_cb_present it \<and> b = r_buf it"
  by (induction l arbitrary: l') (fastforce split: prod.splits if_splits)+

lemma checkduplicate_stored:
  assumes "stored W" and "W n \<noteq> None"
  shows "\<exists>stat b W'. checkduplicate_and_update W n xid xr = Some ((stat, b), W') \<and> stored W' \<and> W' n \<noteq> None \<and>
    (stat = DONE \<longrightarrow> b \<noteq> None)"
proof -
  obtain l where l: "W n = Some l" using assms(2) by auto
  obtain v l' where v: "checkduplicate_loop xid xr l = (v, l')" by (cases "checkduplicate_loop xid xr l")
  note sub = checkduplicate_loop_set [OF v]
  have s1: "stored (W(n \<mapsto> l'))" using sub storedD [OF assms(1) l] by (intro stored_upd [OF assms(1)]) auto
  have s2: "stored (W(n \<mapsto> l' @ [reply_t_new xid]))"
    using sub storedD [OF assms(1) l] by (intro stored_upd [OF assms(1)]) (auto simp: reply_t_new_def)
  show ?thesis
  proof (cases v)
    case None
    then show ?thesis using l v s2 by (simp add: checkduplicate_and_update_def)
  next
    case (Some sb)
    then obtain st b where sb: "v = Some (st, b)" by (cases sb) auto
    have "st = DONE \<Longrightarrow> b \<noteq> None"
      using checkduplicate_loop_DONE [of xid xr l b l'] v sb storedD [OF assms(1) l] by auto
    then show ?thesis using l v s1 sb by (simp add: checkduplicate_and_update_def)
  qed
qed

lemma add_reply_stored:
  assumes "stored W"
  shows "stored (add_reply W n xid b)"
proof -
  have "r_cb_present it \<Longrightarrow> r_buf it \<noteq> None"
    if "it \<in> set (add_reply_list xid b l)" and "\<And>it. it \<in> set l \<Longrightarrow> r_cb_present it \<Longrightarrow> r_buf it \<noteq> None" for it l
    using that by (induction l) (auto split: if_splits)
  then show ?thesis
    unfolding add_reply_def using storedD [OF assms, of n] by (intro stored_upd [OF assms]) (auto split: option.splits)
qed

section \<open>Every request\<close>

definition server_ok :: "holder multiset \<Rightarrow> 's rpcs \<Rightarrow> bool" where
  "server_ok own s \<longleftrightarrow> server_refs own s \<and> stored (rs_reply_window s)"

text \<open>The handler returns on these arguments, with an answer that \<open>dispatch\<close> accepts.\<close>

definition handler_returns :: "'s handler \<Rightarrow> unmarshall \<Rightarrow> 's \<Rightarrow> bool" where
  "handler_returns f u a \<longleftrightarrow> (\<exists>ret rep a'. f u marshall_new a = Some (ret, rep, a') \<and>
     (0 \<le> sint ret \<or> ret = unmarshal_args_failure) \<and> marsh_wf rep \<and> RPC_HEADER_SZ \<le> m_ind rep)"

lemma updatestat_fields:
  "rs_heap (updatestat s p) = rs_heap s" "rs_conns (updatestat s p) = rs_conns s" "rs_app (updatestat s p) = rs_app s"
  by (simp_all add: updatestat_def Let_def)

lemma run_handler_returns:
  assumes "handler_returns (dj_fn j) (dj_req j) (rs_app s)"
  shows "\<exists>b s'. run_handler s j = Some (b, s') \<and> rs_heap s' = rs_heap s \<and> rs_conns s' = rs_conns s \<and>
    rs_reply_window s' = rs_reply_window s"
proof -
  let ?s = "if rs_counting s \<noteq> 0 then updatestat s (rq_proc (dj_hdr j)) else s"
  have s: "rs_app ?s = rs_app s" "rs_heap ?s = rs_heap s" "rs_conns ?s = rs_conns s" "rs_reply_window ?s = rs_reply_window s"
    by (simp_all add: updatestat_fields)
  from assms obtain ret rep a' where f: "dj_fn j (dj_req j) marshall_new (rs_app s) = Some (ret, rep, a')"
    "0 \<le> sint ret \<or> ret = unmarshal_args_failure" "marsh_wf rep" "RPC_HEADER_SZ \<le> m_ind rep"
    by (auto simp: handler_returns_def)
  obtain m where "pack_reply_header rep \<lparr>rp_xid = rq_xid (dj_hdr j), rp_ret = ret\<rparr> = Some m"
    by (rule pack_reply_header_contents [OF f(3,4)])
  with f(1,2) s have "run_handler s j = Some (fst (marshall_take_buf m), ?s\<lparr>rs_app := a'\<rparr>)"
    unfolding run_handler_def Let_def s(1) by simp
  then show ?thesis using s by simp
qed

lemma finish_new_ok:
  assumes ok: "server_ok (add_mset (c, False) own) s"
    and entry: "isdead (rs_heap s) c = Some True \<Longrightarrow> rs_conns s (rq_clt_nonce h) \<noteq> None"
  shows "\<exists>s'. finish_new s c h b = Some s' \<and> server_ok own s'"
proof -
  define t where "t = (if rq_clt_nonce h \<noteq> 0
    then s\<lparr>rs_reply_window := add_reply (rs_reply_window s) (rq_clt_nonce h) (rq_xid h) b\<rparr> else s)"
  have t: "rs_heap t = rs_heap s" "rs_conns t = rs_conns s" by (simp_all add: t_def)
  have refs: "server_refs (add_mset (c, False) own) t" and st: "stored (rs_reply_window t)"
    using ok add_reply_stored by (auto simp: server_ok_def server_refs_def t_def)
  from latest_conn_refs [OF refs, of "rq_clt_nonce h"] entry t obtain c' H
    where l: "latest_conn t (rq_clt_nonce h) c = Some (c', t\<lparr>rs_heap := H\<rparr>)"
      "server_refs (add_mset (c', False) own) (t\<lparr>rs_heap := H\<rparr>)" by auto
  let ?t = "c_send (t\<lparr>rs_heap := H\<rparr>) c' b"
  have "server_refs (add_mset (c', False) own) ?t" using l(2) by (simp add: c_send_def server_refs_def)
  from c_decref_refs [OF this] obtain H' where d: "c_decref ?t c' = Some (?t\<lparr>rs_heap := H'\<rparr>)"
    "server_refs own (?t\<lparr>rs_heap := H'\<rparr>)" by blast
  moreover have "finish_new s c h b = c_decref ?t c'" using l(1) by (simp add: finish_new_def Let_def t_def)
  ultimately show ?thesis using st by (auto simp: server_ok_def)
qed

text \<open>Answering without running the handler, and dropping.\<close>

lemma answer_ok:
  assumes "server_ok (add_mset (c, False) own) s"
  shows "\<exists>s'. c_decref (c_send s c b) c = Some s' \<and> server_ok own s'" and "\<exists>s'. c_decref s c = Some s' \<and> server_ok own s'"
proof -
  have "server_refs (add_mset (c, False) own) (c_send s c b)"
    using assms by (simp add: server_ok_def server_refs_def c_send_def)
  from c_decref_refs [OF this] assms show "\<exists>s'. c_decref (c_send s c b) c = Some s' \<and> server_ok own s'"
    by (auto simp: server_ok_def)
  show "\<exists>s'. c_decref s c = Some s' \<and> server_ok own s'"
    using c_decref_refs [of c own s] assms by (auto simp: server_ok_def)
qed

lemma dispatch_switch_ok:
  assumes ok: "server_ok (add_mset (c, False) own) s"
    and entry: "isdead (rs_heap s) c = Some True \<Longrightarrow> rs_conns s (rq_clt_nonce (dj_hdr j)) \<noteq> None"
    and run: "dj_stat j = NEW \<Longrightarrow> handler_returns (dj_fn j) (dj_req j) (rs_app s)"
    and buf: "dj_stat j = DONE \<Longrightarrow> dj_buf j \<noteq> None"
  shows "\<exists>s'. dispatch_switch s c j = Some s' \<and> server_ok own s'"
proof (cases "dj_stat j")
  case NEW
  from run_handler_returns [OF run [OF NEW]] obtain b s1 where s1: "run_handler s j = Some (b, s1)"
    "rs_heap s1 = rs_heap s" "rs_conns s1 = rs_conns s" "rs_reply_window s1 = rs_reply_window s" by blast
  then have "server_ok (add_mset (c, False) own) s1" using ok by (simp add: server_ok_def server_refs_def)
  from finish_new_ok [OF this, of "dj_hdr j" b] entry s1 NEW show ?thesis by (simp add: dispatch_switch_def)
next
  case DONE
  then obtain b where "dj_buf j = Some b" using buf by auto
  then show ?thesis using answer_ok(1) [OF ok, of b] DONE by (simp add: dispatch_switch_def)
next
  case INPROGRESS
  then show ?thesis using answer_ok(2) [OF ok] by (simp add: dispatch_switch_def)
next
  case FORGOTTEN
  then show ?thesis using answer_ok(1) [OF ok] by (simp add: dispatch_switch_def error_reply_cells)
qed

text \<open>The first half of \<open>dispatch\<close> for a request that reaches the window.\<close>

lemma dispatch_enter_amo:
  assumes hdr: "unpack_req_header (unmarshall_of b sz) = Some (h, u)" "u_ok u"
    and srv: "rq_srv_nonce h = 0 \<or> rq_srv_nonce h = rs_nonce s" and f: "rs_procs s (rq_proc h) = Some f"
    and clt: "rq_clt_nonce h \<noteq> 0" and ok: "server_ok (add_mset (c, False) own) s"
  shows "\<exists>j s'. dispatch_enter s c b sz = Some (Some j, s') \<and> server_ok (add_mset (c, False) own) s' \<and>
    rs_conns s' (rq_clt_nonce h) = Some (Some c) \<and> rs_app s' = rs_app s \<and>
    dj_hdr j = h \<and> dj_req j = u \<and> dj_fn j = f \<and> (dj_stat j = DONE \<longrightarrow> dj_buf j \<noteq> None)"
proof -
  let ?n = "rq_clt_nonce h"
  define t where "t = (if rs_reply_window s ?n = None
    then s\<lparr>rs_reply_window := (rs_reply_window s)(?n \<mapsto> [])\<rparr> else s)"
  have t: "server_refs (add_mset (c, False) own) t" "stored (rs_reply_window t)" "rs_reply_window t ?n \<noteq> None" "rs_app t = rs_app s"
    using ok stored_upd [of "rs_reply_window s" "[]" ?n] by (auto simp: server_ok_def server_refs_def t_def)
  from save_conn_refs [OF t(1), of ?n] obtain H
    where H: "save_conn t ?n c = Some (t\<lparr>rs_heap := H, rs_conns := (rs_conns t)(?n \<mapsto> Some c)\<rparr>)"
      "server_refs (add_mset (c, False) own) (t\<lparr>rs_heap := H, rs_conns := (rs_conns t)(?n \<mapsto> Some c)\<rparr>)" by blast
  from checkduplicate_stored [OF t(2,3), of "rq_xid h" "rq_xid_rep h"] obtain stat b1 W
    where W: "checkduplicate_and_update (rs_reply_window t) ?n (rq_xid h) (rq_xid_rep h) = Some ((stat, b1), W)"
      "stored W" "stat = DONE \<longrightarrow> b1 \<noteq> None" by blast
  let ?s' = "t\<lparr>rs_heap := H, rs_conns := (rs_conns t)(?n \<mapsto> Some c), rs_reply_window := W\<rparr>"
  have "dispatch_enter s c b sz =
      Some (Some \<lparr>dj_hdr = h, dj_req = u, dj_fn = f, dj_stat = stat, dj_buf = b1\<rparr>, ?s')"
    using hdr srv f clt H(1) W(1) by (auto simp: dispatch_enter_def t_def [symmetric])
  moreover have "server_ok (add_mset (c, False) own) ?s'" using H(2) W(2) by (simp add: server_ok_def server_refs_def)
  ultimately show ?thesis using W(3) t(4) by auto
qed

section \<open>Properties\<close>

text \<open>
  \<open>dispatch\<close> survives every PDU. Whatever bytes a client sends, if the handlers return, then
  \<open>dispatch\<close> returns: no assertion fails, no deleted connection and no null pointer is used, every
  reply it replays is there. It gives back exactly the reference that \<open>got_pdu\<close> took for the
  job, the entries of \<open>conns_\<close> keep one reference each, and the stored replies stay complete; the
  only exception is a request for an earlier server instance, whose reference is kept. The one
  case left out is a dead connection of a client without at-most-once logic (nonce 0).
\<close>

lemma dispatch_any_request:
  assumes ok: "server_ok (add_mset (c, False) own) s" and b: "length b \<le> INT_MAX"
    and run: "\<forall>h u f. unpack_req_header (unmarshall_of b (length b)) = Some (h, u) \<and> rs_procs s (rq_proc h) = Some f \<longrightarrow>
      handler_returns f u (rs_app s)"
    and alive: "\<forall>h u. unpack_req_header (unmarshall_of b (length b)) = Some (h, u) \<and>
      isdead (rs_heap s) c = Some True \<longrightarrow> rq_clt_nonce h \<noteq> 0"
  shows "\<exists>h u s'. unpack_req_header (unmarshall_of b (length b)) = Some (h, u) \<and>
    dispatch s c b (length b) = Some s' \<and>
    server_ok (if u_ok u \<and> rq_srv_nonce h \<noteq> 0 \<and> rq_srv_nonce h \<noteq> rs_nonce s then add_mset (c, False) own else own) s'"
proof -
  have "unm_wf (unmarshall_of b (length b))" "u_ok (unmarshall_of b (length b))"
    using b by (simp_all add: unm_wf_def unmarshall_of_def)
  from unpack_req_header_total [OF this] obtain h u
    where h: "unpack_req_header (unmarshall_of b (length b)) = Some (h, u)" by blast
  consider (short) "\<not> u_ok u"
    | (old) "u_ok u" "rq_srv_nonce h \<noteq> 0" "rq_srv_nonce h \<noteq> rs_nonce s"
    | (unknown) "u_ok u" "rq_srv_nonce h = 0 \<or> rq_srv_nonce h = rs_nonce s" "rs_procs s (rq_proc h) = None"
    | (plain) f where "u_ok u" "rq_srv_nonce h = 0 \<or> rq_srv_nonce h = rs_nonce s" "rs_procs s (rq_proc h) = Some f"
        "rq_clt_nonce h = 0"
    | (amo) f where "u_ok u" "rq_srv_nonce h = 0 \<or> rq_srv_nonce h = rs_nonce s" "rs_procs s (rq_proc h) = Some f"
        "rq_clt_nonce h \<noteq> 0"
    by (cases "rs_procs s (rq_proc h)") blast+
  then have "\<exists>s'. dispatch s c b (length b) = Some s' \<and>
    server_ok (if u_ok u \<and> rq_srv_nonce h \<noteq> 0 \<and> rq_srv_nonce h \<noteq> rs_nonce s then add_mset (c, False) own else own) s'"
  proof cases
    case short
    then show ?thesis using answer_ok(2) [OF ok] h by (auto simp: dispatch_def dispatch_enter_def)
  next
    case old
    have "server_ok (add_mset (c, False) own) (c_send s c r)" for r
      using ok by (simp add: server_ok_def server_refs_def c_send_def)
    then show ?thesis using old h by (simp add: dispatch_def dispatch_enter_def error_reply_cells)
  next
    case unknown
    then show ?thesis using answer_ok(2) [OF ok] h by (auto simp: dispatch_def dispatch_enter_def)
  next
    case (plain f)
    let ?j = "\<lparr>dj_hdr = h, dj_req = u, dj_fn = f, dj_stat = NEW, dj_buf = None\<rparr>"
    have "dispatch s c b (length b) = dispatch_switch s c ?j"
      using plain h by (auto simp: dispatch_def dispatch_enter_def)
    moreover have "\<exists>s'. dispatch_switch s c ?j = Some s' \<and> server_ok own s'"
      using run alive h plain by (intro dispatch_switch_ok [OF ok]) auto
    ultimately show ?thesis using plain by auto
  next
    case (amo f)
    from dispatch_enter_amo [OF h amo ok] obtain j s1
      where j: "dispatch_enter s c b (length b) = Some (Some j, s1)" "server_ok (add_mset (c, False) own) s1"
        "rs_conns s1 (rq_clt_nonce h) = Some (Some c)" "rs_app s1 = rs_app s"
        "dj_hdr j = h" "dj_req j = u" "dj_fn j = f" "dj_stat j = DONE \<longrightarrow> dj_buf j \<noteq> None" by blast
    have "\<exists>s'. dispatch_switch s1 c j = Some s' \<and> server_ok own s'"
      using j run h amo by (intro dispatch_switch_ok [OF j(2)]) auto
    then show ?thesis using j(1) amo by (auto simp: dispatch_def)
  qed
  with h show ?thesis by blast
qed

text \<open>
  \<open>rpcs::got_pdu\<close>, which the poll thread calls, never waits. Either the job goes to the end of
  the pool's queue and holds a reference to the connection of its own, or the queue has its
  hundred jobs per thread and nothing changes, so that the connection offers the PDU again.
\<close>

lemma got_pdu_takes_reference:
  assumes "conn_refs H R" and "(c, f) \<in># R" and "\<not> tp_blockadd p"
  shows "\<exists>succ H' p'. rpcs_got_pdu srv H p c b sz = Some (succ, H', p') \<and>
    (if succ then conn_refs H' (add_mset (c, False) R) \<and>
        f_q (tp_jobq p') = f_q (tp_jobq p) @ [\<lparr>j_f = Some Objfunc_func,
          j_a = \<lparr>ow_o = srv, ow_m = Rpcs_dispatch, ow_a = \<lparr>dt_conn = c, dt_buf = b, dt_sz = sz\<rparr>\<rparr>\<rparr>]
     else conn_refs H' R \<and> p' = p \<and> unat (f_max (tp_jobq p)) \<le> length (f_q (tp_jobq p)))"
proof -
  let ?j = "\<lparr>dt_conn = c, dt_buf = b, dt_sz = sz\<rparr>"
  let ?job = "\<lparr>j_f = Some Objfunc_func, j_a = \<lparr>ow_o = srv, ow_m = Rpcs_dispatch, ow_a = ?j\<rparr>\<rparr>"
  from rc.inc_ok [OF assms(1,2)] obtain H1 where H1: "incref H c = Some H1" "conn_refs H1 (add_mset (c, False) R)" by blast
  from rc.dec_ok [OF H1(2)] obtain H2 where H2: "decref H1 c = Some H2" "conn_refs H2 R" by blast
  show ?thesis
  proof (cases "fifo_enq (tp_jobq p) ?job False")
    case (Enq_ok q)
    then show ?thesis using H1 fq.enq_ok [OF Enq_ok] assms(3)
      by (intro exI [of _ True]) (simp add: rpcs_got_pdu_def addObjJob_def addJob_def pool_enq_def)
  next
    case Enq_full
    then show ?thesis using H1 H2 fq.enq_full [of "tp_jobq p" ?job False] assms(3)
      by (intro exI [of _ False]) (simp add: rpcs_got_pdu_def addObjJob_def addJob_def pool_enq_def)
  next
    case Enq_waits
    then show ?thesis using fq.enq_waits [of "tp_jobq p" ?job False] by simp
  qed
qed

end
