(* ===== verification/Sections.thy ===== *)
theory Sections
  imports Dispatch
begin

text \<open>
  The dispatch threads at the grain of the source: \<open>rpcs::dispatch\<close> as the sequence of its critical
  sections (\<open>procs_m_\<close>, \<open>reply_window_m_\<close>, \<open>conss_m_\<close>, \<open>count_m_\<close> with the handler, and again), between which the
  other threads of the pool run, connections are accepted and die, and the listener lets go of them.

  Run without interruption the sections are \<open>dispatch\<close>. Under every interleaving the invariant
  \<open>server_ok\<close> of \<open>Dispatch\<close> holds with the references of all threads, so that each section finds what it
  needs; and the handler of an unacknowledged request runs at most once.
\<close>

section \<open>The sections of dispatch\<close>

text \<open>Where a thread is: at the start; with the handler looked up; with a reply window for the client; with
  the connection saved; with the verdict; with the reply in its buffer; with the reply stored; with the
  connection chosen; and before the last \<open>decref\<close>.\<close>

datatype 's sect =
    S_start cid bytes nat | S_known cid "'s djob" | S_window cid "'s djob" | S_saved cid "'s djob"
  | S_verdict cid "'s djob" | S_ran cid req_header cells | S_stored cid req_header cells
  | S_latest cid cells | S_leave cid

fun sect_step :: "'s sect \<Rightarrow> 's rpcs \<Rightarrow> ('s sect option \<times> 's rpcs) option" where
  "sect_step (S_start c b sz) s = do {
     (h, req) \<leftarrow> unpack_req_header (unmarshall_of b sz);
     if \<not> u_ok req then Some (Some (S_leave c), s)
     else if rq_srv_nonce h \<noteq> 0 \<and> rq_srv_nonce h \<noteq> rs_nonce s then do {
       r \<leftarrow> error_reply (rq_xid h) oldsrv_failure;
       Some (None, c_send s c r)
     }
     else (case rs_procs s (rq_proc h) of
         None \<Rightarrow> Some (Some (S_leave c), s)
       | Some f \<Rightarrow> Some (Some (S_known c \<lparr>dj_hdr = h, dj_req = req, dj_fn = f, dj_stat = NEW, dj_buf = None\<rparr>), s))
   }"
| "sect_step (S_known c j) s =
     (let n = rq_clt_nonce (dj_hdr j) in
      if n \<noteq> 0 then
        Some (Some (S_window c j),
          if rs_reply_window s n = None then s\<lparr>rs_reply_window := (rs_reply_window s)(n \<mapsto> [])\<rparr> else s)
      else Some (Some (S_verdict c j), s))"
| "sect_step (S_window c j) s = do {
     s \<leftarrow> save_conn s (rq_clt_nonce (dj_hdr j)) c;
     Some (Some (S_saved c j), s)
   }"
| "sect_step (S_saved c j) s = do {
     ((stat, b1), W) \<leftarrow> checkduplicate_and_update (rs_reply_window s) (rq_clt_nonce (dj_hdr j)) (rq_xid (dj_hdr j))
       (rq_xid_rep (dj_hdr j));
     Some (Some (S_verdict c (j\<lparr>dj_stat := stat, dj_buf := b1\<rparr>)), s\<lparr>rs_reply_window := W\<rparr>)
   }"
| "sect_step (S_verdict c j) s =
     (case dj_stat j of
        NEW \<Rightarrow> do { (b1, s) \<leftarrow> run_handler s j; Some (Some (S_ran c (dj_hdr j) b1), s) }
      | INPROGRESS \<Rightarrow> Some (Some (S_leave c), s)
      | DONE \<Rightarrow> do { b1 \<leftarrow> dj_buf j; Some (Some (S_leave c), c_send s c b1) }
      | FORGOTTEN \<Rightarrow> do {
          r \<leftarrow> error_reply (rq_xid (dj_hdr j)) atmostonce_failure;
          Some (Some (S_leave c), c_send s c r)
        })"
| "sect_step (S_ran c h b) s =
     Some (Some (S_stored c h b), if rq_clt_nonce h \<noteq> 0
       then s\<lparr>rs_reply_window := add_reply (rs_reply_window s) (rq_clt_nonce h) (rq_xid h) b\<rparr> else s)"
| "sect_step (S_stored c h b) s = do {
     (c', s) \<leftarrow> latest_conn s (rq_clt_nonce h) c;
     Some (Some (S_latest c' b), s)
   }"
| "sect_step (S_latest c b) s = Some (Some (S_leave c), c_send s c b)"
| "sect_step (S_leave c) s = do { s \<leftarrow> c_decref s c; Some (None, s) }"

text \<open>A thread alone, for at most \<open>n\<close> sections.\<close>

fun run_sects :: "nat \<Rightarrow> 's sect \<Rightarrow> 's rpcs \<Rightarrow> 's rpcs option" where
  "run_sects 0 t s = None"
| "run_sects (Suc n) t s = do {
     (r, s) \<leftarrow> sect_step t s;
     (case r of None \<Rightarrow> Some s | Some t \<Rightarrow> run_sects n t s)
   }"

lemma run_latest: "run_sects (Suc (Suc n)) (S_latest c b) s = c_decref (c_send s c b) c"
  by (cases "c_decref (c_send s c b) c") simp_all

lemma run_stored:
  "run_sects (Suc (Suc (Suc n))) (S_stored c h b) s =
   do { (c, s) \<leftarrow> latest_conn s (rq_clt_nonce h) c; c_decref (c_send s c b) c }"
  by (subst run_sects.simps(2), cases "latest_conn s (rq_clt_nonce h) c") (auto simp: run_latest simp del: run_sects.simps)

lemma run_ran: "run_sects (Suc (Suc (Suc (Suc n)))) (S_ran c h b) s = finish_new s c h b"
  by (subst run_sects.simps(2)) (simp add: run_stored finish_new_def Let_def del: run_sects.simps)

lemma run_leave: "run_sects (Suc n) (S_leave c) s = c_decref s c"
  by (cases "c_decref s c") simp_all

lemma run_verdict: "run_sects (Suc (Suc (Suc (Suc (Suc n))))) (S_verdict c j) s = dispatch_switch s c j"
proof (cases "dj_stat j")
  case NEW
  then show ?thesis
    by (subst run_sects.simps(2), cases "run_handler s j")
      (auto simp: run_ran dispatch_switch_def simp del: run_sects.simps)
qed (subst run_sects.simps(2), simp add: run_leave dispatch_switch_def del: run_sects.simps split: bind_split)+

lemma run_saved:
  "run_sects (Suc (Suc (Suc (Suc (Suc (Suc n)))))) (S_saved c j) s = do {
     ((stat, b1), W) \<leftarrow> checkduplicate_and_update (rs_reply_window s) (rq_clt_nonce (dj_hdr j)) (rq_xid (dj_hdr j))
       (rq_xid_rep (dj_hdr j));
     dispatch_switch (s\<lparr>rs_reply_window := W\<rparr>) c (j\<lparr>dj_stat := stat, dj_buf := b1\<rparr>)
   }"
  by (subst run_sects.simps(2)) (auto simp: run_verdict simp del: run_sects.simps split: bind_split prod.splits)

lemma run_window:
  "run_sects (Suc (Suc (Suc (Suc (Suc (Suc (Suc n))))))) (S_window c j) s = do {
     s \<leftarrow> save_conn s (rq_clt_nonce (dj_hdr j)) c;
     run_sects (Suc (Suc (Suc (Suc (Suc (Suc n)))))) (S_saved c j) s
   }"
  by (subst run_sects.simps(2)) (auto simp del: run_sects.simps split: bind_split)

lemma run_known:
  "run_sects (Suc (Suc (Suc (Suc (Suc (Suc (Suc (Suc n)))))))) (S_known c j) s =
   (let n = rq_clt_nonce (dj_hdr j) in
    if n \<noteq> 0 then do {
      s \<leftarrow> save_conn (if rs_reply_window s n = None then s\<lparr>rs_reply_window := (rs_reply_window s)(n \<mapsto> [])\<rparr> else s) n c;
      ((stat, b1), W) \<leftarrow> checkduplicate_and_update (rs_reply_window s) n (rq_xid (dj_hdr j)) (rq_xid_rep (dj_hdr j));
      dispatch_switch (s\<lparr>rs_reply_window := W\<rparr>) c (j\<lparr>dj_stat := stat, dj_buf := b1\<rparr>)
    }
    else dispatch_switch s c j)"
  by (subst run_sects.simps(2)) (simp add: run_window run_saved run_verdict Let_def del: run_sects.simps)


section \<open>Interleaving\<close>

fun sect_conn :: "'s sect \<Rightarrow> cid" where
  "sect_conn (S_start c b sz) = c"
| "sect_conn (S_known c j) = c"
| "sect_conn (S_window c j) = c"
| "sect_conn (S_saved c j) = c"
| "sect_conn (S_verdict c j) = c"
| "sect_conn (S_ran c h b) = c"
| "sect_conn (S_stored c h b) = c"
| "sect_conn (S_latest c b) = c"
| "sect_conn (S_leave c) = c"

text \<open>The handler call and the acknowledgement that a section makes or reads.\<close>

fun sect_call :: "'s sect \<Rightarrow> (u32 \<times> u32) list" where
  "sect_call (S_verdict c j) = (if dj_stat j = NEW then [job_id j] else [])"
| "sect_call _ = []"

fun sect_ack :: "'s sect \<Rightarrow> (u32 \<times> u32) list" where
  "sect_ack (S_saved c j) = [job_ack j]"
| "sect_ack _ = []"

text \<open>The server, its dispatch threads, the references of the listener and of others that hold
  connections; what handlers were called and which acknowledgements were read.\<close>

record 's sconfig =
  sg_srv :: "'s rpcs"
  sg_thr :: "'s sect list"
  sg_held :: "holder multiset"
  sg_log :: "(u32 \<times> u32) list"
  sg_acks :: "(u32 \<times> u32) list"

definition sconfig_init :: "'s rpcs \<Rightarrow> 's sconfig" where
  "sconfig_init s = \<lparr>sg_srv = s, sg_thr = [], sg_held = {#}, sg_log = [], sg_acks = []\<rparr>"

text \<open>The listener makes a connection object; a connection dies; a holder lets go of it; a PDU of any
  content arrives on a connection that is held, and \<open>got_pdu\<close> takes a reference for the new job; a thread passes
  one section.\<close>

inductive sect_move :: "'s sconfig \<Rightarrow> 's sconfig \<Rightarrow> bool" where
  accept: "rs_heap (sg_srv g) c = None \<Longrightarrow>
    sect_move g (g\<lparr>sg_srv := (sg_srv g)\<lparr>rs_heap := (rs_heap (sg_srv g))(c \<mapsto> fst (connection_new fd lossy))\<rparr>,
      sg_held := add_mset (c, False) (sg_held g)\<rparr>)"
| die: "rs_heap (sg_srv g) c = Some k \<Longrightarrow>
    sect_move g (g\<lparr>sg_srv := (sg_srv g)\<lparr>rs_heap := (rs_heap (sg_srv g))(c \<mapsto> k\<lparr>c_dead := True\<rparr>)\<rparr>\<rparr>)"
| let_go: "sg_held g = add_mset (c, False) R \<Longrightarrow> c_decref (sg_srv g) c = Some s \<Longrightarrow>
    sect_move g (g\<lparr>sg_srv := s, sg_held := R\<rparr>)"
| pdu: "(c, False) \<in># sg_held g \<Longrightarrow> c_incref (sg_srv g) c = Some s \<Longrightarrow> length b \<le> INT_MAX \<Longrightarrow>
    sect_move g (g\<lparr>sg_srv := s, sg_thr := S_start c b (length b) # sg_thr g\<rparr>)"
| sect: "sg_thr g = xs @ t # ys \<Longrightarrow> sect_step t (sg_srv g) = Some (r, s) \<Longrightarrow>
    sect_move g (g\<lparr>sg_srv := s, sg_thr := xs @ opt_list r @ ys,
      sg_log := sect_call t @ sg_log g, sg_acks := sect_ack t @ sg_acks g\<rparr>)"

inductive sect_reach :: "'s rpcs \<Rightarrow> 's sconfig \<Rightarrow> bool" for s0 where
  start: "sect_reach s0 (sconfig_init s0)"
| move: "sect_reach s0 g \<Longrightarrow> sect_move g g' \<Longrightarrow> sect_reach s0 g'"

section \<open>What each section finds\<close>

fun sect_ok :: "'s rpcs \<Rightarrow> 's sect \<Rightarrow> bool" where
  "sect_ok s (S_start c b sz) \<longleftrightarrow> sz = length b \<and> length b \<le> INT_MAX"
| "sect_ok s (S_known c j) \<longleftrightarrow> dj_stat j = NEW"
| "sect_ok s (S_window c j) \<longleftrightarrow> rq_clt_nonce (dj_hdr j) \<in> dom (rs_reply_window s) - {0}"
| "sect_ok s (S_saved c j) \<longleftrightarrow> rq_clt_nonce (dj_hdr j) \<in> dom (rs_reply_window s) \<inter> dom (rs_conns s)"
| "sect_ok s (S_verdict c j) \<longleftrightarrow> (rq_clt_nonce (dj_hdr j) \<noteq> 0 \<longrightarrow> rq_clt_nonce (dj_hdr j) \<in> dom (rs_conns s)) \<and>
     (dj_stat j = DONE \<longrightarrow> dj_buf j \<noteq> None)"
| "sect_ok s (S_ran c h b) \<longleftrightarrow> (rq_clt_nonce h \<noteq> 0 \<longrightarrow> rq_clt_nonce h \<in> dom (rs_conns s))"
| "sect_ok s (S_stored c h b) \<longleftrightarrow> (rq_clt_nonce h \<noteq> 0 \<longrightarrow> rq_clt_nonce h \<in> dom (rs_conns s))"
| "sect_ok s _ \<longleftrightarrow> True"

text \<open>The two places where a thread fails: its handler does not return an answer that \<open>dispatch\<close> accepts, or the
  connection of a client without at-most-once logic has died.\<close>

fun sect_fails :: "'s rpcs \<Rightarrow> 's sect \<Rightarrow> bool" where
  "sect_fails s (S_verdict c j) \<longleftrightarrow> dj_stat j = NEW \<and> run_handler s j = None"
| "sect_fails s (S_stored c h b) \<longleftrightarrow> rq_clt_nonce h = 0 \<and> isdead (rs_heap s) c = Some True"
| "sect_fails s _ \<longleftrightarrow> False"

definition sect_refs :: "'s sect list \<Rightarrow> holder multiset" where
  "sect_refs ts = mset (map (\<lambda>t. (sect_conn t, False)) ts)"

lemma sect_refs_simps [simp]:
  "sect_refs [] = {#}" "sect_refs (t # ts) = add_mset (sect_conn t, False) (sect_refs ts)"
  "sect_refs (ts @ us) = sect_refs ts + sect_refs us"
  by (simp_all add: sect_refs_def)

lemma sect_ok_mono:
  assumes "sect_ok s t" and "dom (rs_reply_window s) \<subseteq> dom (rs_reply_window s')" and "dom (rs_conns s) \<subseteq> dom (rs_conns s')"
  shows "sect_ok s' t"
  using assms by (cases t) auto

lemma server_ok_same:
  "server_ok own s \<Longrightarrow> rs_conns s' = rs_conns s \<Longrightarrow> rs_heap s' = rs_heap s \<Longrightarrow> rs_reply_window s' = rs_reply_window s \<Longrightarrow>
   server_ok own s'"
  by (simp add: server_ok_def server_refs_def)

text \<open>What a section gives: the thread's next section or its end, the server still fine, no client forgotten.\<close>

definition sect_result :: "holder multiset \<Rightarrow> 's rpcs \<Rightarrow> 's sect option \<Rightarrow> 's rpcs \<Rightarrow> bool" where
  "sect_result own s r s' \<longleftrightarrow> server_ok (sect_refs (opt_list r) + own) s' \<and> list_all (sect_ok s') (opt_list r) \<and>
     dom (rs_reply_window s) \<subseteq> dom (rs_reply_window s') \<and> dom (rs_conns s) \<subseteq> dom (rs_conns s') \<and>
     (rs_conns s 0 = None \<longrightarrow> rs_conns s' 0 = None)"

lemma start_result:
  assumes ok: "server_ok (add_mset (c, False) own) s" and t: "sect_ok s (S_start c b sz)"
  shows "\<exists>r s'. sect_step (S_start c b sz) s = Some (r, s') \<and> sect_result own s r s'"
proof -
  have "unm_wf (unmarshall_of b sz)" "u_ok (unmarshall_of b sz)" using t by (simp_all add: unm_wf_def unmarshall_of_def)
  from unpack_req_header_total [OF this] obtain h u where h: "unpack_req_header (unmarshall_of b sz) = Some (h, u)" by blast
  have send: "server_ok own (c_send s c r)" for r
    using ok by (auto simp: server_ok_def server_refs_def c_send_def) (metis union_mset_add_mset_left union_mset_add_mset_right)
  show ?thesis
    using h ok send
    by (auto simp: error_reply_cells sect_result_def c_send_def split: option.split)
qed

lemma known_result:
  assumes "server_ok (add_mset (c, False) own) s" and "sect_ok s (S_known c j)"
  shows "\<exists>r s'. sect_step (S_known c j) s = Some (r, s') \<and> sect_result own s r s'"
  using assms stored_upd [of "rs_reply_window s" "[]" "rq_clt_nonce (dj_hdr j)"]
  by (auto simp: Let_def sect_result_def server_ok_def server_refs_def)

lemma window_result:
  assumes ok: "server_ok (add_mset (c, False) own) s" and t: "sect_ok s (S_window c j)"
  shows "\<exists>r s'. sect_step (S_window c j) s = Some (r, s') \<and> sect_result own s r s'"
proof -
  let ?n = "rq_clt_nonce (dj_hdr j)"
  from ok have "server_refs (add_mset (c, False) own) s" by (simp add: server_ok_def)
  from save_conn_refs [OF this, of ?n] obtain H
    where "save_conn s ?n c = Some (s\<lparr>rs_heap := H, rs_conns := (rs_conns s)(?n \<mapsto> Some c)\<rparr>)"
      "server_refs (add_mset (c, False) own) (s\<lparr>rs_heap := H, rs_conns := (rs_conns s)(?n \<mapsto> Some c)\<rparr>)" by blast
  with ok t show ?thesis by (auto simp: sect_result_def server_ok_def)
qed

lemma saved_result:
  assumes ok: "server_ok (add_mset (c, False) own) s" and t: "sect_ok s (S_saved c j)"
  shows "\<exists>r s'. sect_step (S_saved c j) s = Some (r, s') \<and> sect_result own s r s'"
proof -
  let ?n = "rq_clt_nonce (dj_hdr j)"
  have st: "stored (rs_reply_window s)" "rs_reply_window s ?n \<noteq> None" using ok t by (auto simp: server_ok_def)
  from checkduplicate_stored [OF this, of "rq_xid (dj_hdr j)" "rq_xid_rep (dj_hdr j)"] obtain stat b W
    where W: "checkduplicate_and_update (rs_reply_window s) ?n (rq_xid (dj_hdr j)) (rq_xid_rep (dj_hdr j)) = Some ((stat, b), W)"
      "stored W" "stat = DONE \<longrightarrow> b \<noteq> None" by blast
  have "dom (rs_reply_window s) \<subseteq> dom W" using W(1)
    by (auto simp: checkduplicate_and_update_def elim!: bind_SomeE split: prod.splits option.splits)
  then show ?thesis using ok t W by (auto simp: sect_result_def server_ok_def server_refs_def)
qed

lemma verdict_result:
  assumes ok: "server_ok (add_mset (c, False) own) s" and t: "sect_ok s (S_verdict c j)"
    and run: "\<not> sect_fails s (S_verdict c j)"
  shows "\<exists>r s'. sect_step (S_verdict c j) s = Some (r, s') \<and> sect_result own s r s'"
proof (cases "dj_stat j = NEW")
  case True
  then obtain b s1 where s1: "run_handler s j = Some (b, s1)" using run by auto
  then have same: "rs_heap s1 = rs_heap s" "rs_conns s1 = rs_conns s" "rs_reply_window s1 = rs_reply_window s"
    by (auto simp: run_handler_def Let_def updatestat_fields elim!: bind_SomeE split: if_splits)
  have "server_ok (add_mset (c, False) own) s1" by (rule server_ok_same [OF ok]) (simp_all add: same)
  then show ?thesis using True s1 t by (auto simp: sect_result_def same)
next
  case False
  have "server_ok (add_mset (c, False) own) (c_send s c b)" for b
    by (rule server_ok_same [OF ok]) (simp_all add: c_send_def)
  then show ?thesis using False ok t
    by (cases "dj_stat j") (auto simp: sect_result_def c_send_def error_reply_cells)
qed

lemma stored_result:
  assumes ok: "server_ok (add_mset (c, False) own) s" and t: "sect_ok s (S_stored c h b)"
    and run: "\<not> sect_fails s (S_stored c h b)"
  shows "\<exists>r s'. sect_step (S_stored c h b) s = Some (r, s') \<and> sect_result own s r s'"
proof -
  from ok have refs: "server_refs (add_mset (c, False) own) s" by (simp add: server_ok_def)
  have "isdead (rs_heap s) c = Some True \<Longrightarrow> rs_conns s (rq_clt_nonce h) \<noteq> None" using t run by auto
  from latest_conn_refs [OF refs this] obtain c' H where "latest_conn s (rq_clt_nonce h) c = Some (c', s\<lparr>rs_heap := H\<rparr>)"
    "server_refs (add_mset (c', False) own) (s\<lparr>rs_heap := H\<rparr>)" by blast
  then show ?thesis using ok by (auto simp: sect_result_def server_ok_def)
qed

lemma leave_result:
  assumes "server_ok (add_mset (c, False) own) s"
  shows "\<exists>r s'. sect_step (S_leave c) s = Some (r, s') \<and> sect_result own s r s'"
  using c_decref_refs [of c own s] assms by (auto simp: sect_result_def server_ok_def)

lemma sect_step_result:
  assumes ok: "server_ok (add_mset (sect_conn t, False) own) s" and t: "sect_ok s t" and run: "\<not> sect_fails s t"
  shows "\<exists>r s'. sect_step t s = Some (r, s') \<and> sect_result own s r s'"
proof (cases t)
  case (S_ran c h b)
  then show ?thesis using ok t add_reply_stored [of "rs_reply_window s" "rq_clt_nonce h" "rq_xid h" b]
    by (auto simp: sect_result_def server_ok_def server_refs_def add_reply_def)
next
  case (S_latest c b)
  have "server_ok (add_mset (c, False) own) (c_send s c b)"
    by (rule server_ok_same [OF ok [unfolded S_latest sect_conn.simps]]) (simp_all add: c_send_def)
  then show ?thesis using S_latest by (simp add: sect_result_def c_send_def)
qed (use ok t run start_result known_result window_result saved_result verdict_result stored_result leave_result
  in \<open>simp_all del: sect_step.simps sect_fails.simps sect_ok.simps\<close>)

text \<open>A thread that fails does not pass its section.\<close>

lemma sect_fails_stuck: "sect_fails s t \<Longrightarrow> rs_conns s 0 = None \<Longrightarrow> sect_step t s = None"
  by (cases t) (auto simp: latest_conn_def Let_def split: bind_split)

section \<open>The invariant of the configuration\<close>

definition sconfig_ok :: "'s sconfig \<Rightarrow> bool" where
  "sconfig_ok g \<longleftrightarrow> server_ok (sect_refs (sg_thr g) + sg_held g) (sg_srv g) \<and> rs_conns (sg_srv g) 0 = None \<and>
     list_all (sect_ok (sg_srv g)) (sg_thr g)"

text \<open>The references are those of the holders; a new one comes from \<open>new\<close> or \<open>incref\<close>.\<close>

lemma server_ok_heap:
  assumes "server_ok own s" and "\<And>R. conn_refs (rs_heap s) (R + own) \<Longrightarrow> conn_refs H (R + own')"
  shows "server_ok own' (s\<lparr>rs_heap := H\<rparr>)"
proof -
  from assms(1) obtain R where R: "conn_refs (rs_heap s) (R + conns_refs (rs_conns s) + own)"
    by (auto simp: server_ok_def server_refs_def)
  from assms(2) [OF this] assms(1) show ?thesis by (auto simp: server_ok_def server_refs_def)
qed

lemma accept_ok:
  assumes "server_ok own s" and "rs_heap s c = None"
  shows "server_ok (add_mset (c, False) own) (s\<lparr>rs_heap := (rs_heap s)(c \<mapsto> fst (connection_new fd lossy))\<rparr>)"
  using assms(1) by (rule server_ok_heap) (use conn_refs_new [of "rs_heap s" _ c] assms(2) in auto)

lemma die_ok:
  assumes "server_ok own s" and "rs_heap s c = Some k"
  shows "server_ok own (s\<lparr>rs_heap := (rs_heap s)(c \<mapsto> k\<lparr>c_dead := True\<rparr>)\<rparr>)"
  using assms(1) by (rule server_ok_heap) (use assms(2) in \<open>auto simp: conn_refs_def\<close>)

lemma pdu_ok:
  assumes ok: "server_ok own s" and own: "(c, False) \<in># own" and "c_incref s c = Some s'"
  shows "server_ok (add_mset (c, False) own) s' \<and> rs_conns s' = rs_conns s \<and> rs_reply_window s' = rs_reply_window s"
proof -
  obtain H where H: "incref (rs_heap s) c = Some H" "s' = s\<lparr>rs_heap := H\<rparr>"
    using assms(3) by (auto simp: c_incref_def elim!: bind_SomeE)
  have "server_ok (add_mset (c, False) own) (s\<lparr>rs_heap := H\<rparr>)"
    using ok by (rule server_ok_heap) (use rc.inc_ok [of "rs_heap s" _ c False] own H(1) in fastforce)
  then show ?thesis using H(2) by simp
qed

lemma let_go_ok:
  assumes "server_ok (add_mset (c, False) own) s" and "c_decref s c = Some s'"
  shows "server_ok own s' \<and> rs_conns s' = rs_conns s \<and> rs_reply_window s' = rs_reply_window s"
  using c_decref_refs [of c own s] assms by (auto simp: server_ok_def)

lemma sect_move_ok: "sect_move g g' \<Longrightarrow> sconfig_ok g \<Longrightarrow> sconfig_ok g'"
proof (induction rule: sect_move.induct)
  case (accept g c fd lossy)
  then show ?case using accept_ok [of "sect_refs (sg_thr g) + sg_held g" "sg_srv g" c fd lossy]
      sect_ok_mono [of "sg_srv g"] by (auto simp: sconfig_ok_def list_all_iff)
next
  case (die g c k)
  then show ?case using die_ok [of "sect_refs (sg_thr g) + sg_held g" "sg_srv g" c k]
      sect_ok_mono [of "sg_srv g"] by (auto simp: sconfig_ok_def list_all_iff)
next
  case (let_go g c R s)
  then show ?case using let_go_ok [of c "sect_refs (sg_thr g) + R" "sg_srv g" s]
      sect_ok_mono [of "sg_srv g" _ s] by (auto simp: sconfig_ok_def list_all_iff)
next
  case (pdu c g s b)
  then show ?case using pdu_ok [of "sect_refs (sg_thr g) + sg_held g" "sg_srv g" c s]
      sect_ok_mono [of "sg_srv g" _ s] by (auto simp: sconfig_ok_def list_all_iff)
next
  case (sect g xs t ys r s)
  let ?own = "sect_refs (xs @ ys) + sg_held g"
  have ok: "server_ok (add_mset (sect_conn t, False) ?own) (sg_srv g)" "sect_ok (sg_srv g) t" "rs_conns (sg_srv g) 0 = None"
    using sect by (simp_all add: sconfig_ok_def)
  have "\<not> sect_fails (sg_srv g) t" using sect_fails_stuck [OF _ ok(3)] sect.hyps(2) by auto
  from sect_step_result [OF ok(1,2) this] sect.hyps(2) have "sect_result ?own (sg_srv g) r s" by auto
  then show ?case using sect sect_ok_mono [of "sg_srv g" _ s]
    by (auto simp: sconfig_ok_def sect_result_def list_all_iff ac_simps)
qed

lemma sect_reach_ok:
  assumes "sect_reach s0 g" and "rs_heap s0 = Map.empty" and "rs_conns s0 = Map.empty" and "rs_reply_window s0 = Map.empty"
  shows "sconfig_ok g"
  using assms(1)
proof (induction rule: sect_reach.induct)
  case start
  have "conn_refs (rs_heap s0) ({#} + conns_refs (rs_conns s0) + {#})" using assms by (simp add: conns_refs_def conn_refs_empty)
  then show ?case using assms
    by (auto simp: sconfig_ok_def sconfig_init_def server_ok_def server_refs_def stored_def intro: exI [of _ "{#}"])
next
  case (move g g')
  then show ?case by (blast intro: sect_move_ok)
qed


section \<open>At most once\<close>

definition sect_started :: "u32 \<times> u32 \<Rightarrow> 's sconfig \<Rightarrow> nat" where
  "sect_started x g = count_list (sg_log g) x + length (filter (\<lambda>t. x \<in> set (sect_call t)) (sg_thr g))"

definition sect_unacked :: "u32 \<times> u32 \<Rightarrow> 's sconfig \<Rightarrow> bool" where
  "sect_unacked x g \<longleftrightarrow> list_all (\<lambda>(c, r). c = fst x \<longrightarrow> r < snd x) (sg_acks g)"

definition sect_inv :: "u32 \<times> u32 \<Rightarrow> 's sconfig \<Rightarrow> bool" where
  "sect_inv x g \<longleftrightarrow> (sect_unacked x g \<longrightarrow> sect_started x g \<le> 1 \<and>
     (0 < sect_started x g \<longrightarrow> snd x \<in> win_xids (rs_reply_window (sg_srv g)) (fst x)))"

lemma win_xids_new [simp]: "W n = None \<Longrightarrow> win_xids (W(n \<mapsto> [])) = win_xids W"
  by (auto simp: win_xids_def fun_eq_iff)

lemma other_sections:
  assumes "sect_step t s = Some (r, s')" and "sect_ack t = []" and "fst x \<noteq> 0"
  shows "win_xids (rs_reply_window s') = win_xids (rs_reply_window s)" and "\<forall>t' \<in> set (opt_list r). x \<notin> set (sect_call t')"
  using assms
  by (cases t; auto simp: Let_def elim!: bind_SomeE split: if_splits option.splits rpcstate_t.splits
      dest!: c_decref_window save_conn_window latest_conn_window run_handler_window)+

lemma call_count: "count_list (sect_call t) x = (if x \<in> set (sect_call t) then 1 else 0)"
  by (cases t) auto

lemma sect_inv_saved:
  assumes inv: "sect_inv x g" and x: "fst x \<noteq> 0" and g: "sg_thr g = xs @ S_saved c j # ys"
    and step: "sect_step (S_saved c j) (sg_srv g) = Some (r, s)"
  shows "sect_inv x (g\<lparr>sg_srv := s, sg_thr := xs @ opt_list r @ ys, sg_log := sg_log g, sg_acks := job_ack j # sg_acks g\<rparr>)"
    (is "sect_inv x ?g")
  unfolding sect_inv_def
proof
  assume "sect_unacked x ?g"
  then have un: "sect_unacked x g" and ack: "rq_clt_nonce (dj_hdr j) = fst x \<Longrightarrow> rq_xid_rep (dj_hdr j) < snd x"
    by (simp_all add: sect_unacked_def)
  let ?W = "rs_reply_window (sg_srv g)"
  have old: "sect_started x g \<le> 1" "0 < sect_started x g \<Longrightarrow> snd x \<in> win_xids ?W (fst x)"
    using inv un by (simp_all add: sect_inv_def)
  from step obtain stat b W where chk: "checkduplicate_and_update ?W (rq_clt_nonce (dj_hdr j)) (rq_xid (dj_hdr j))
      (rq_xid_rep (dj_hdr j)) = Some ((stat, b), W)"
    and r: "r = Some (S_verdict c (j\<lparr>dj_stat := stat, dj_buf := b\<rparr>))" and s: "rs_reply_window s = W"
    by (auto elim!: bind_SomeE)
  have keep: "snd x \<in> win_xids ?W (fst x) \<Longrightarrow> snd x \<in> win_xids W (fst x)"
    using checkduplicate_keeps [OF chk] ack by auto
  have st: "sect_started x ?g = sect_started x g + (if stat = NEW \<and> job_id j = x then 1 else 0)"
    using g r by (auto simp: sect_started_def)
  show "sect_started x ?g \<le> 1 \<and> (0 < sect_started x ?g \<longrightarrow> snd x \<in> win_xids (rs_reply_window (sg_srv ?g)) (fst x))"
  proof (cases "stat = NEW \<and> job_id j = x")
    case True
    then have "snd x \<notin> win_xids ?W (fst x)" and "snd x \<in> win_xids W (fst x)"
      using checkduplicate_NEW_absent checkduplicate_NEW_inserts chk by fastforce+
    then show ?thesis using True old st s by auto
  next
    case False
    then show ?thesis using old st s keep by (auto split: if_splits)
  qed
qed

lemma sect_inv_move:
  assumes "sect_move g g'" and "sect_inv x g" and "fst x \<noteq> 0"
  shows "sect_inv x g'"
  using assms
proof (induction rule: sect_move.induct)
  case (let_go g c R s)
  then show ?case using c_decref_window [OF let_go.hyps(2)] by (simp add: sect_inv_def sect_unacked_def sect_started_def)
next
  case (pdu c g s b)
  then show ?case using c_incref_window [OF pdu.hyps(2)] by (simp add: sect_inv_def sect_unacked_def sect_started_def)
next
  case (sect g xs t ys r s)
  show ?case
  proof (cases "sect_ack t = []")
    case True
    from other_sections [OF sect.hyps(2) True sect.prems(2)] have
      w: "win_xids (rs_reply_window s) = win_xids (rs_reply_window (sg_srv g))"
      and "filter (\<lambda>t. x \<in> set (sect_call t)) (opt_list r) = []" by (auto simp: filter_empty_conv)
    then have "sect_started x (g\<lparr>sg_srv := s, sg_thr := xs @ opt_list r @ ys, sg_log := sect_call t @ sg_log g,
        sg_acks := sect_ack t @ sg_acks g\<rparr>) = sect_started x g"
      using sect.hyps(1) by (simp add: sect_started_def call_count)
    then show ?thesis using sect.prems(1) w True by (simp add: sect_inv_def sect_unacked_def)
  next
    case False
    then obtain c j where "t = S_saved c j" by (cases t) auto
    then show ?thesis using sect_inv_saved [OF sect.prems] sect.hyps by auto
  qed
qed (simp_all add: sect_inv_def sect_unacked_def sect_started_def)

lemma sect_reach_inv: "sect_reach s0 g \<Longrightarrow> fst x \<noteq> 0 \<Longrightarrow> sect_inv x g"
proof (induction rule: sect_reach.induct)
  case start
  show ?case by (simp add: sect_inv_def sconfig_init_def sect_started_def)
next
  case (move g g')
  then show ?case by (blast intro: sect_inv_move)
qed

text \<open>
  C6: In every interleaving of the sections, with duplicates, lost and reordered requests and connections
  coming and going at any moment, the handler of a request of a client that uses at-most-once logic has run at
  most once, and it is not about to run a second time, as long as no request of that client that the duplicate
  check has seen acknowledges it.
\<close>

theorem sections_at_most_once:
  assumes "sect_reach s0 g" and "clt \<noteq> 0" and "sect_unacked (clt, xid) g"
  shows "count_list (sg_log g) (clt, xid) + length (filter (\<lambda>t. (clt, xid) \<in> set (sect_call t)) (sg_thr g)) \<le> 1"
  using sect_reach_inv [of s0 g "(clt, xid)"] assms by (simp add: sect_inv_def sect_started_def)

text \<open>A run: a connection is accepted, a request comes in, and its thread gets to the point where its handler
  has run.\<close>

definition sample_empty :: "nat rpcs" where
  "sample_empty = sample_server\<lparr>rs_heap := Map.empty\<rparr>"

lemma sect_alone:
  assumes "sect_reach s0 \<lparr>sg_srv = s, sg_thr = [t], sg_held = R, sg_log = l, sg_acks = a\<rparr>"
    and "sect_step t s = Some (Some t', s')"
  shows "sect_reach s0 \<lparr>sg_srv = s', sg_thr = [t'], sg_held = R, sg_log = sect_call t @ l, sg_acks = sect_ack t @ a\<rparr>"
  using sect_reach.move [OF assms(1) sect_move.sect [of _ "[]" t "[]"]] assms(2) by fastforce

lemma sample_sections:
  "\<exists>g c h b. sect_reach sample_empty g \<and> sg_log g = [(5, 1)] \<and> sg_acks g = [(5, 0)] \<and> sg_thr g = [S_ran c h b]"
proof -
  let ?k = "fst (connection_new 3 0)"
  let ?s = "sample_empty\<lparr>rs_heap := [0 \<mapsto> ?k]\<rparr>"
  let ?g = "\<lparr>sg_srv = ?s, sg_thr = [], sg_held = {#(0, False)#}, sg_log = [], sg_acks = []\<rparr>"
  have "sect_reach sample_empty ?g"
    using sect_reach.move [OF sect_reach.start sect_move.accept [of "sconfig_init sample_empty" 0 3 0]]
    by (simp add: sconfig_init_def sample_empty_def)
  moreover have "c_incref ?s 0 = Some (?s\<lparr>rs_heap := [0 \<mapsto> ?k\<lparr>c_refno := 2\<rparr>]\<rparr>)"
    by (simp add: c_incref_def incref_def connection_new_def)
  ultimately have a: "sect_reach sample_empty \<lparr>sg_srv = ?s\<lparr>rs_heap := [0 \<mapsto> ?k\<lparr>c_refno := 2\<rparr>]\<rparr>,
      sg_thr = [S_start 0 sample_pdu 24], sg_held = {#(0, False)#}, sg_log = [], sg_acks = []\<rparr>"
    using sect_reach.move [OF _ sect_move.pdu [of 0 ?g _ sample_pdu]] by (simp add: sample_pdu_def sample_header_def)
  let ?h = sample_header and ?f = "\<lambda>u m a. Some (0, m, Suc a)"
  let ?j = "\<lparr>dj_hdr = ?h, dj_req = (unmarshall_of sample_pdu 24)\<lparr>u_ind := RPC_HEADER_SZ\<rparr>, dj_fn = ?f, dj_stat = NEW, dj_buf = None\<rparr>"
  note simps = sample_empty_def sample_server_def sample_header_def
  let ?s1 = "?s\<lparr>rs_heap := [0 \<mapsto> ?k\<lparr>c_refno := 2\<rparr>]\<rparr>"
  let ?s2 = "?s1\<lparr>rs_reply_window := [5 \<mapsto> []]\<rparr>"
  let ?s3 = "?s2\<lparr>rs_heap := [0 \<mapsto> ?k\<lparr>c_refno := 3\<rparr>], rs_conns := [5 \<mapsto> Some 0]\<rparr>"
  let ?s4 = "?s3\<lparr>rs_reply_window := [5 \<mapsto> [reply_t_new 1]]\<rparr>"
  have st: "sect_step (S_start 0 sample_pdu 24) ?s1 = Some (Some (S_known 0 ?j), ?s1)"
    using sample_pdu_header by (simp add: simps unmarshall_of_def)
  have kn: "sect_step (S_known 0 ?j) ?s1 = Some (Some (S_window 0 ?j), ?s2)" by (simp add: simps)
  have wi: "sect_step (S_window 0 ?j) ?s2 = Some (Some (S_saved 0 ?j), ?s3)"
    by (simp add: simps save_conn_def c_incref_def incref_def)
  have sa: "sect_step (S_saved 0 ?j) ?s3 = Some (Some (S_verdict 0 ?j), ?s4)"
    by (simp add: simps checkduplicate_and_update_def)
  obtain b where "run_handler ?s4 ?j = Some (b, ?s4\<lparr>rs_app := 1\<rparr>)"
    using pack_reply_header_room [of marshall_new Map.empty] by (simp add: run_handler_def simps marshall_new_def)
  then have ve: "sect_step (S_verdict 0 ?j) ?s4 = Some (Some (S_ran 0 ?h b), ?s4\<lparr>rs_app := 1\<rparr>)" by simp
  from sect_alone [OF sect_alone [OF sect_alone [OF sect_alone [OF sect_alone [OF a st] kn] wi] sa] ve]
  show ?thesis by (intro exI conjI, assumption) (simp_all add: sample_header_def)
qed

lemma sample_empty_fields: "rs_heap sample_empty = Map.empty" "rs_conns sample_empty = Map.empty" "rs_reply_window sample_empty = Map.empty"
  by (simp_all add: sample_empty_def sample_server_def)


theorem sections_at_most_once_witness:
  "\<exists>g. sect_reach sample_empty g \<and> sect_unacked (5, 1) g \<and> sg_log g = [(5, 1)] \<and> count_list (sg_log g) (5, 1) \<le> 1"
proof -
  obtain g where g: "sect_reach sample_empty g" "sg_log g = [(5, 1)]" "sg_acks g = [(5, 0)]"
    using sample_sections by blast
  then have u: "sect_unacked (5, 1) g" by (simp add: sect_unacked_def)
  from sections_at_most_once [OF g(1) _ u] g u show ?thesis by auto
qed

end
