(* ===== verification/Threads.thy ===== *)
theory Threads
  imports Prelude "HOL-Library.Multiset"
begin

text \<open>
  The two headers that the threads of the RPC library are built with.

  \<open>rpc/slock.h\<close>: \<open>ScopedLock\<close> takes a mutex in its constructor and gives it back in its destructor. The theories
  of the other components take what a thread does under a \<open>ScopedLock\<close> as one step; \<open>scoped_sections_atomic\<close> is
  the reason why they may.

  \<open>rpc/method_thread.h\<close>: \<open>method_thread\<close> starts a thread that runs a method of an object. Object, method and
  arguments travel in a closure that the parent allocates and the new thread deletes.
\<close>

section \<open>ScopedLock\<close>

type_synonym tid = nat

record mutex =
  mx_owner :: "tid option"

datatype 'a waiting = Waits | Goes 'a

text \<open>A default mutex: the second \<open>lock\<close> waits, also that of the owner; \<open>unlock\<close> by a thread that does not hold
  it is undefined.\<close>

definition pthread_mutex_lock :: "mutex \<Rightarrow> tid \<Rightarrow> (int \<times> mutex) waiting" where
  "pthread_mutex_lock m t = (if mx_owner m = None then Goes (0, m\<lparr>mx_owner := Some t\<rparr>) else Waits)"

definition pthread_mutex_unlock :: "mutex \<Rightarrow> tid \<Rightarrow> (int \<times> mutex) option" where
  "pthread_mutex_unlock m t = (if mx_owner m = Some t then Some (0, m\<lparr>mx_owner := None\<rparr>) else None)"

text \<open>Constructor and destructor, with their assertions: a constructor that neither waits nor goes on has failed.\<close>

definition scoped_lock_new :: "mutex \<Rightarrow> tid \<Rightarrow> mutex option waiting" where
  "scoped_lock_new m t =
     (case pthread_mutex_lock m t of
        Waits \<Rightarrow> Waits
      | Goes (e, m) \<Rightarrow> Goes (if e = 0 then Some m else None))"

definition scoped_lock_delete :: "mutex \<Rightarrow> tid \<Rightarrow> mutex option" where
  "scoped_lock_delete m t = do {
     (e, m) \<leftarrow> pthread_mutex_unlock m t;
     if e = 0 then Some m else None
   }"

subsection \<open>Threads with scoped sections\<close>

text \<open>A section is the list of the steps that a thread makes on the shared state while its \<open>ScopedLock\<close> lives.
  A thread is between two sections, with those it still has to run, or inside one, with the steps left.\<close>

type_synonym 's steps = "('s \<Rightarrow> 's) list"

datatype 's place = Outside "'s steps list" | Inside "'s steps" "'s steps list"

record 's locked =
  lk_m :: mutex
  lk_state :: 's
  lk_thr :: "tid \<Rightarrow> 's place"
  lk_order :: "'s steps list"

inductive lk_step :: "'s locked \<Rightarrow> 's locked \<Rightarrow> bool" where
  enter: "lk_thr g t = Outside (b # bs) \<Longrightarrow> scoped_lock_new (lk_m g) t = Goes (Some m) \<Longrightarrow>
    lk_step g (g\<lparr>lk_m := m, lk_thr := (lk_thr g)(t := Inside b bs), lk_order := lk_order g @ [b]\<rparr>)"
| work: "lk_thr g t = Inside (f # fs) bs \<Longrightarrow>
    lk_step g (g\<lparr>lk_state := f (lk_state g), lk_thr := (lk_thr g)(t := Inside fs bs)\<rparr>)"
| leave: "lk_thr g t = Inside [] bs \<Longrightarrow> scoped_lock_delete (lk_m g) t = Some m \<Longrightarrow>
    lk_step g (g\<lparr>lk_m := m, lk_thr := (lk_thr g)(t := Outside bs)\<rparr>)"

definition lk_init :: "'s \<Rightarrow> (tid \<Rightarrow> 's steps list) \<Rightarrow> 's locked" where
  "lk_init s prog = \<lparr>lk_m = \<lparr>mx_owner = None\<rparr>, lk_state = s, lk_thr = (\<lambda>t. Outside (prog t)), lk_order = []\<rparr>"

inductive lk_reach :: "'s \<Rightarrow> (tid \<Rightarrow> 's steps list) \<Rightarrow> 's locked \<Rightarrow> bool" for s prog where
  start: "lk_reach s prog (lk_init s prog)"
| step: "lk_reach s prog g \<Longrightarrow> lk_step g g' \<Longrightarrow> lk_reach s prog g'"

text \<open>A section as one step, and one after the other.\<close>

definition run_steps :: "'s steps \<Rightarrow> 's \<Rightarrow> 's" where
  "run_steps fs s = fold (\<lambda>f s. f s) fs s"

definition run_sections :: "'s steps list \<Rightarrow> 's \<Rightarrow> 's" where
  "run_sections bs s = fold run_steps bs s"

lemma run_steps_simps [simp]: "run_steps [] s = s" "run_steps (f # fs) s = run_steps fs (f s)"
  by (simp_all add: run_steps_def)

lemma run_sections_simps [simp]: "run_sections [] s = s" "run_sections (bs @ [b]) s = run_steps b (run_sections bs s)"
  by (simp_all add: run_sections_def)

definition lk_inv :: "'s \<Rightarrow> 's locked \<Rightarrow> bool" where
  "lk_inv s g \<longleftrightarrow>
     (case mx_owner (lk_m g) of
        None \<Rightarrow> (\<forall>t fs bs. lk_thr g t \<noteq> Inside fs bs) \<and> lk_state g = run_sections (lk_order g) s
      | Some t \<Rightarrow> (\<forall>u fs bs. lk_thr g u = Inside fs bs \<longrightarrow> u = t) \<and>
          (\<exists>fs bs. lk_thr g t = Inside fs bs \<and> run_steps fs (lk_state g) = run_sections (lk_order g) s))"

lemmas lock_defs = scoped_lock_new_def scoped_lock_delete_def pthread_mutex_lock_def pthread_mutex_unlock_def

lemma lk_step_inv: "lk_step g g' \<Longrightarrow> lk_inv s g \<Longrightarrow> lk_inv s g'"
proof (induction rule: lk_step.induct)
  case (enter g t b bs m)
  then show ?case by (auto simp: lk_inv_def lock_defs split: if_splits)
next
  case (work g t f fs bs)
  then have "mx_owner (lk_m g) = Some t" by (auto simp: lk_inv_def split: option.splits)
  with work show ?case by (auto simp: lk_inv_def)
next
  case (leave g t bs m)
  then show ?case by (auto simp: lk_inv_def lock_defs split: if_splits)
qed

lemma lk_reach_inv: "lk_reach s prog g \<Longrightarrow> lk_inv s g"
proof (induction rule: lk_reach.induct)
  case start
  show ?case by (simp add: lk_inv_def lk_init_def)
next
  case (step g g')
  then show ?case by (blast intro: lk_step_inv)
qed


text \<open>Two threads that add to a counter, the second one inside its section.\<close>

lemma lk_sample:
  "\<exists>g. lk_reach (0::nat) (\<lambda>t. [[(+) 1, (+) 1]]) g \<and> lk_order g = [[(+) 1, (+) 1], [(+) 1, (+) 1]] \<and>
     lk_thr g 0 = Outside [] \<and> lk_thr g 1 = Inside [(+) 1] [] \<and> lk_state g = 3"
proof -
  let ?b = "[(+) 1, (+) (1::nat)]" and ?free = "\<lparr>mx_owner = None\<rparr>"
  let ?P = "\<lambda>t::tid. [?b]"
  let ?g = "\<lambda>m n thr ord. \<lparr>lk_m = m, lk_state = n, lk_thr = thr, lk_order = ord\<rparr>"
  let ?out = "\<lambda>t::tid. Outside [?b]"
  have "lk_reach 0 ?P (?g ?free 0 ?out [])" using lk_reach.start [of 0 ?P] by (simp add: lk_init_def)
  from lk_reach.step [OF this lk_step.enter [of _ 0 ?b "[]" "\<lparr>mx_owner = Some 0\<rparr>"]]
  have "lk_reach 0 ?P (?g \<lparr>mx_owner = Some 0\<rparr> 0 (?out(0 := Inside ?b [])) [?b])" by (simp add: lock_defs)
  from lk_reach.step [OF this lk_step.work [of _ 0 "(+) 1" "[(+) 1]" "[]"]]
  have "lk_reach 0 ?P (?g \<lparr>mx_owner = Some 0\<rparr> 1 (?out(0 := Inside [(+) 1] [])) [?b])" by simp
  from lk_reach.step [OF this lk_step.work [of _ 0 "(+) 1" "[]" "[]"]]
  have "lk_reach 0 ?P (?g \<lparr>mx_owner = Some 0\<rparr> 2 (?out(0 := Inside [] [])) [?b])" by (simp add: numeral_2_eq_2)
  from lk_reach.step [OF this lk_step.leave [of _ 0 "[]" ?free]]
  have "lk_reach 0 ?P (?g ?free 2 (?out(0 := Outside [])) [?b])" by (simp add: lock_defs)
  from lk_reach.step [OF this lk_step.enter [of _ 1 ?b "[]" "\<lparr>mx_owner = Some 1\<rparr>"]]
  have "lk_reach 0 ?P (?g \<lparr>mx_owner = Some 1\<rparr> 2 (?out(0 := Outside [], 1 := Inside ?b [])) [?b, ?b])" by (simp add: lock_defs)
  from lk_reach.step [OF this lk_step.work [of _ 1 "(+) 1" "[(+) 1]" "[]"]]
  have "lk_reach 0 ?P (?g \<lparr>mx_owner = Some 1\<rparr> 3 (?out(0 := Outside [], 1 := Inside [(+) 1] [])) [?b, ?b])"
    by (simp add: numeral_3_eq_3)
  then show ?thesis by (intro exI conjI, assumption) simp_all
qed


section \<open>method\_thread\<close>

text \<open>The closure: the fields of the class \<open>XXX\<close>, indeterminate after \<open>new\<close>.\<close>

record ('o, 'm, 'v) closure =
  x_o :: "'o option"
  x_m :: "'m option"
  x_args :: "'v option list"

definition closure_new :: "nat \<Rightarrow> ('o, 'm, 'v) closure" where
  "closure_new n = \<lparr>x_o = None, x_m = None, x_args = replicate n None\<rparr>"

text \<open>A thread: at the start of \<open>yyy\<close> for \<open>n\<close> arguments with the pointer it got; with the closure read and deleted;
  with cancellation disabled; with the method done.\<close>

datatype ('o, 'm, 'v) child = At_yyy nat nat | Taken 'o 'm "'v list" | Set_up 'o 'm "'v list" | Returned

record ('o, 'm, 'v) process =
  pr_heap :: "nat \<rightharpoonup> ('o, 'm, 'v) closure"
  pr_thr :: "tid \<rightharpoonup> ('o, 'm, 'v) child"
  pr_detached :: "tid set"
  pr_cancel :: "tid \<Rightarrow> bool \<times> bool"
  pr_exit :: "int option"
  pr_calls :: "(tid \<times> 'o \<times> 'm \<times> 'v list) list"

text \<open>\<open>pr_cancel\<close> says for each thread whether it can be cancelled, and whether at any moment (the default is that
  it can, at cancellation points). \<open>pthread_create\<close> gives an error or starts the thread under a new name. \<open>method_thread_parent\<close> is split where
  the new thread may already run; it does not return after \<open>exit\<close>.\<close>

definition method_thread_create ::
  "int + tid \<Rightarrow> nat \<Rightarrow> nat \<Rightarrow> ('o, 'm, 'v) process \<Rightarrow> tid option \<times> ('o, 'm, 'v) process" where
  "method_thread_create res n arg p =
     (case res of
        Inl err \<Rightarrow> (None, p\<lparr>pr_exit := Some 1\<rparr>)
      | Inr th \<Rightarrow> (Some th, p\<lparr>pr_thr := (pr_thr p)(th \<mapsto> At_yyy n arg)\<rparr>))"

text \<open>\<open>pthread_detach\<close> fails for a thread that there is not or that is detached.\<close>

definition pthread_detach :: "tid \<Rightarrow> ('o, 'm, 'v) process \<Rightarrow> bool \<times> ('o, 'm, 'v) process" where
  "pthread_detach th p =
     (if pr_thr p th = None \<or> th \<in> pr_detached p then (False, p)
      else (True, p\<lparr>pr_detached := insert th (pr_detached p)\<rparr>))"

definition method_thread_detach :: "tid \<Rightarrow> bool \<Rightarrow> ('o, 'm, 'v) process \<Rightarrow> ('o, 'm, 'v) process option" where
  "method_thread_detach th detach p =
     (if detach then (case pthread_detach th p of (ok, p) \<Rightarrow> if ok then Some p else None) else Some p)"

definition method_thread_parent ::
  "int + tid \<Rightarrow> nat \<Rightarrow> nat \<Rightarrow> bool \<Rightarrow> ('o, 'm, 'v) process \<Rightarrow> (tid option \<times> ('o, 'm, 'v) process) option" where
  "method_thread_parent res n arg detach p =
     (case method_thread_create res n arg p of
        (None, p) \<Rightarrow> Some (None, p)
      | (Some th, p) \<Rightarrow> do { p \<leftarrow> method_thread_detach th detach p; Some (Some th, p) })"

text \<open>The four templates up to \<open>method_thread_parent\<close>: \<open>a\<close> is the address that \<open>new\<close> gives.\<close>

definition method_thread0 :: "nat \<Rightarrow> 'o \<Rightarrow> 'm \<Rightarrow> ('o, 'm, 'v) process \<Rightarrow> ('o, 'm, 'v) process" where
  "method_thread0 a ob m p =
     (let x = closure_new 0; x = x\<lparr>x_o := Some ob\<rparr>; x = x\<lparr>x_m := Some m\<rparr>
      in p\<lparr>pr_heap := (pr_heap p)(a \<mapsto> x)\<rparr>)"

definition method_thread1 :: "nat \<Rightarrow> 'o \<Rightarrow> 'm \<Rightarrow> 'v \<Rightarrow> ('o, 'm, 'v) process \<Rightarrow> ('o, 'm, 'v) process" where
  "method_thread1 a ob m a1 p =
     (let x = closure_new 1; x = x\<lparr>x_o := Some ob\<rparr>; x = x\<lparr>x_m := Some m\<rparr>;
          x = x\<lparr>x_args := (x_args x)[0 := Some a1]\<rparr>
      in p\<lparr>pr_heap := (pr_heap p)(a \<mapsto> x)\<rparr>)"

definition method_thread2 :: "nat \<Rightarrow> 'o \<Rightarrow> 'm \<Rightarrow> 'v \<Rightarrow> 'v \<Rightarrow> ('o, 'm, 'v) process \<Rightarrow> ('o, 'm, 'v) process" where
  "method_thread2 a ob m a1 a2 p =
     (let x = closure_new 2; x = x\<lparr>x_o := Some ob\<rparr>; x = x\<lparr>x_m := Some m\<rparr>;
          x = x\<lparr>x_args := (x_args x)[0 := Some a1]\<rparr>; x = x\<lparr>x_args := (x_args x)[1 := Some a2]\<rparr>
      in p\<lparr>pr_heap := (pr_heap p)(a \<mapsto> x)\<rparr>)"

definition method_thread3 :: "nat \<Rightarrow> 'o \<Rightarrow> 'm \<Rightarrow> 'v \<Rightarrow> 'v \<Rightarrow> 'v \<Rightarrow> ('o, 'm, 'v) process \<Rightarrow> ('o, 'm, 'v) process" where
  "method_thread3 a ob m a1 a2 a3 p =
     (let x = closure_new 3; x = x\<lparr>x_o := Some ob\<rparr>; x = x\<lparr>x_m := Some m\<rparr>;
          x = x\<lparr>x_args := (x_args x)[0 := Some a1]\<rparr>; x = x\<lparr>x_args := (x_args x)[1 := Some a2]\<rparr>;
          x = x\<lparr>x_args := (x_args x)[2 := Some a3]\<rparr>
      in p\<lparr>pr_heap := (pr_heap p)(a \<mapsto> x)\<rparr>)"

text \<open>\<open>yyy\<close> of each template: read the fields, which must have been written, and delete the closure.\<close>

definition closure_arg :: "('o, 'm, 'v) closure \<Rightarrow> nat \<Rightarrow> 'v option" where
  "closure_arg x i = (if i < length (x_args x) then x_args x ! i else None)"

definition delete_closure :: "nat \<Rightarrow> ('o, 'm, 'v) process \<Rightarrow> ('o, 'm, 'v) process option" where
  "delete_closure a p = (if pr_heap p a = None then None else Some (p\<lparr>pr_heap := (pr_heap p)(a := None)\<rparr>))"

definition yyy0 :: "nat \<Rightarrow> ('o, 'm, 'v) process \<Rightarrow> (('o, 'm, 'v) child \<times> ('o, 'm, 'v) process) option" where
  "yyy0 a p = do {
     x \<leftarrow> pr_heap p a;
     ob \<leftarrow> x_o x;
     m \<leftarrow> x_m x;
     p \<leftarrow> delete_closure a p;
     Some (Taken ob m [], p)
   }"

definition yyy1 :: "nat \<Rightarrow> ('o, 'm, 'v) process \<Rightarrow> (('o, 'm, 'v) child \<times> ('o, 'm, 'v) process) option" where
  "yyy1 a p = do {
     x \<leftarrow> pr_heap p a;
     ob \<leftarrow> x_o x;
     m \<leftarrow> x_m x;
     a1 \<leftarrow> closure_arg x 0;
     p \<leftarrow> delete_closure a p;
     Some (Taken ob m [a1], p)
   }"

definition yyy2 :: "nat \<Rightarrow> ('o, 'm, 'v) process \<Rightarrow> (('o, 'm, 'v) child \<times> ('o, 'm, 'v) process) option" where
  "yyy2 a p = do {
     x \<leftarrow> pr_heap p a;
     ob \<leftarrow> x_o x;
     m \<leftarrow> x_m x;
     a1 \<leftarrow> closure_arg x 0;
     a2 \<leftarrow> closure_arg x 1;
     p \<leftarrow> delete_closure a p;
     Some (Taken ob m [a1, a2], p)
   }"

definition yyy3 :: "nat \<Rightarrow> ('o, 'm, 'v) process \<Rightarrow> (('o, 'm, 'v) child \<times> ('o, 'm, 'v) process) option" where
  "yyy3 a p = do {
     x \<leftarrow> pr_heap p a;
     ob \<leftarrow> x_o x;
     m \<leftarrow> x_m x;
     a1 \<leftarrow> closure_arg x 0;
     a2 \<leftarrow> closure_arg x 1;
     a3 \<leftarrow> closure_arg x 2;
     p \<leftarrow> delete_closure a p;
     Some (Taken ob m [a1, a2, a3], p)
   }"

text \<open>\<open>method_thread_child\<close>: no cancellation, and deferred if it is switched on again.\<close>

definition method_thread_child :: "tid \<Rightarrow> ('o, 'm, 'v) process \<Rightarrow> ('o, 'm, 'v) process" where
  "method_thread_child th p =
     (let p = p\<lparr>pr_cancel := (pr_cancel p)(th := (False, snd (pr_cancel p th)))\<rparr>
      in p\<lparr>pr_cancel := (pr_cancel p)(th := (fst (pr_cancel p th), False))\<rparr>)"

text \<open>A thread one step further: into \<open>Taken\<close>, through \<open>method_thread_child\<close>, through the call of the method.\<close>

definition child_step :: "tid \<Rightarrow> ('o, 'm, 'v) process \<Rightarrow> ('o, 'm, 'v) process option" where
  "child_step th p = do {
     t \<leftarrow> pr_thr p th;
     (t, p) \<leftarrow> (case t of
          At_yyy n a \<Rightarrow> (if n = 0 then yyy0 a p else if n = 1 then yyy1 a p else if n = 2 then yyy2 a p
                          else if n = 3 then yyy3 a p else None)
        | Taken ob m as \<Rightarrow> Some (Set_up ob m as, method_thread_child th p)
        | Set_up ob m as \<Rightarrow> Some (Returned, p\<lparr>pr_calls := pr_calls p @ [(th, ob, m, as)]\<rparr>)
        | Returned \<Rightarrow> None);
     Some (p\<lparr>pr_thr := (pr_thr p)(th \<mapsto> t)\<rparr>)
   }"

subsection \<open>A process that starts threads\<close>

datatype ('o, 'm, 'v) request = MT0 'o 'm | MT1 'o 'm 'v | MT2 'o 'm 'v 'v | MT3 'o 'm 'v 'v 'v

fun request_call :: "('o, 'm, 'v) request \<Rightarrow> 'o \<times> 'm \<times> 'v list" where
  "request_call (MT0 ob m) = (ob, m, [])"
| "request_call (MT1 ob m a1) = (ob, m, [a1])"
| "request_call (MT2 ob m a1 a2) = (ob, m, [a1, a2])"
| "request_call (MT3 ob m a1 a2 a3) = (ob, m, [a1, a2, a3])"

fun method_thread_closure :: "nat \<Rightarrow> ('o, 'm, 'v) request \<Rightarrow> ('o, 'm, 'v) process \<Rightarrow> ('o, 'm, 'v) process" where
  "method_thread_closure a (MT0 ob m) p = method_thread0 a ob m p"
| "method_thread_closure a (MT1 ob m a1) p = method_thread1 a ob m a1 p"
| "method_thread_closure a (MT2 ob m a1 a2) p = method_thread2 a ob m a1 a2 p"
| "method_thread_closure a (MT3 ob m a1 a2 a3) p = method_thread3 a ob m a1 a2 a3 p"

abbreviation request_arity :: "('o, 'm, 'v) request \<Rightarrow> nat" where
  "request_arity r \<equiv> length (snd (snd (request_call r)))"

text \<open>A whole call of \<open>method_thread\<close>, with nobody in between.\<close>

definition method_thread ::
  "int + tid \<Rightarrow> nat \<Rightarrow> ('o, 'm, 'v) request \<Rightarrow> bool \<Rightarrow> ('o, 'm, 'v) process \<Rightarrow> (tid option \<times> ('o, 'm, 'v) process) option" where
  "method_thread res a r detach p = method_thread_parent res (request_arity r) a detach (method_thread_closure a r p)"

record ('o, 'm, 'v) mt_config =
  mt_p :: "('o, 'm, 'v) process"
  mt_asked :: "tid \<rightharpoonup> ('o, 'm, 'v) request"
  mt_todo :: "tid list"

definition mt_init :: "('o, 'm, 'v) mt_config" where
  "mt_init = \<lparr>mt_p = \<lparr>pr_heap = Map.empty, pr_thr = Map.empty, pr_detached = {}, pr_cancel = (\<lambda>_. (True, False)),
     pr_exit = None, pr_calls = []\<rparr>, mt_asked = Map.empty, mt_todo = []\<rparr>"

text \<open>Some thread calls \<open>method_thread\<close> and gets to the \<open>if (detach)\<close>; it detaches the new thread later; a child makes
  a step. \<open>exit\<close> ends them all.\<close>

inductive mt_step :: "('o, 'm, 'v) mt_config \<Rightarrow> ('o, 'm, 'v) mt_config \<Rightarrow> bool" where
  spawn: "pr_exit (mt_p g) = None \<Longrightarrow> pr_heap (mt_p g) a = None \<Longrightarrow> pr_thr (mt_p g) th = None \<Longrightarrow>
    method_thread_create (Inr th) (request_arity r) a (method_thread_closure a r (mt_p g)) = (Some th, p) \<Longrightarrow>
    mt_step g \<lparr>mt_p = p, mt_asked = (mt_asked g)(th \<mapsto> r), mt_todo = (if detach then [th] else []) @ mt_todo g\<rparr>"
| no_spawn: "pr_exit (mt_p g) = None \<Longrightarrow> pr_heap (mt_p g) a = None \<Longrightarrow>
    method_thread_create (Inl err) (request_arity r) a (method_thread_closure a r (mt_p g)) = (None, p) \<Longrightarrow>
    mt_step g (g\<lparr>mt_p := p\<rparr>)"
| detach: "pr_exit (mt_p g) = None \<Longrightarrow> mt_todo g = xs @ th # ys \<Longrightarrow> method_thread_detach th True (mt_p g) = Some p \<Longrightarrow>
    mt_step g (g\<lparr>mt_p := p, mt_todo := xs @ ys\<rparr>)"
| child: "pr_exit (mt_p g) = None \<Longrightarrow> child_step th (mt_p g) = Some p \<Longrightarrow> mt_step g (g\<lparr>mt_p := p\<rparr>)"

inductive mt_reach :: "('o, 'm, 'v) mt_config \<Rightarrow> bool" where
  start: "mt_reach mt_init"
| step: "mt_reach g \<Longrightarrow> mt_step g g' \<Longrightarrow> mt_reach g'"

subsection \<open>Who has the closure\<close>

definition closure_of :: "('o, 'm, 'v) request \<Rightarrow> ('o, 'm, 'v) closure" where
  "closure_of r = (case request_call r of (ob, m, as) \<Rightarrow> \<lparr>x_o = Some ob, x_m = Some m, x_args = map Some as\<rparr>)"

lemma method_thread_closure_heap: "method_thread_closure a r p = p\<lparr>pr_heap := (pr_heap p)(a \<mapsto> closure_of r)\<rparr>"
  by (cases r) (simp_all add: closure_of_def method_thread0_def method_thread1_def method_thread2_def method_thread3_def
      closure_new_def Let_def eval_nat_numeral)

fun child_for :: "('o, 'm, 'v) process \<Rightarrow> tid \<Rightarrow> ('o, 'm, 'v) request \<Rightarrow> ('o, 'm, 'v) child \<Rightarrow> bool" where
  "child_for p th r (At_yyy n a) \<longleftrightarrow> n = request_arity r \<and> pr_heap p a = Some (closure_of r)"
| "child_for p th r (Taken ob m as) \<longleftrightarrow> request_call r = (ob, m, as)"
| "child_for p th r (Set_up ob m as) \<longleftrightarrow> request_call r = (ob, m, as) \<and> \<not> fst (pr_cancel p th)"
| "child_for p th r Returned \<longleftrightarrow> True"

definition calls_of :: "tid \<Rightarrow> ('o, 'm, 'v) process \<Rightarrow> ('o \<times> 'm \<times> 'v list) list" where
  "calls_of th p = map snd (filter (\<lambda>c. fst c = th) (pr_calls p))"

definition thread_ok :: "('o, 'm, 'v) mt_config \<Rightarrow> tid \<Rightarrow> bool" where
  "thread_ok g th \<longleftrightarrow>
     (case (pr_thr (mt_p g) th, mt_asked g th) of
        (Some t, Some r) \<Rightarrow> child_for (mt_p g) th r t \<and> calls_of th (mt_p g) = (if t = Returned then [request_call r] else [])
      | (None, None) \<Rightarrow> calls_of th (mt_p g) = []
      | _ \<Rightarrow> False)"

definition owners_ok :: "('o, 'm, 'v) process \<Rightarrow> bool" where
  "owners_ok p \<longleftrightarrow>
     (\<forall>a x. pr_heap p a = Some x \<longrightarrow> (\<exists>th n. pr_thr p th = Some (At_yyy n a))) \<and>
     (\<forall>th th' n n' a. pr_thr p th = Some (At_yyy n a) \<longrightarrow> pr_thr p th' = Some (At_yyy n' a) \<longrightarrow> th' = th)"

definition detach_ok :: "('o, 'm, 'v) mt_config \<Rightarrow> bool" where
  "detach_ok g \<longleftrightarrow> distinct (mt_todo g) \<and> set (mt_todo g) \<subseteq> dom (pr_thr (mt_p g)) - pr_detached (mt_p g) \<and>
     pr_detached (mt_p g) \<subseteq> dom (pr_thr (mt_p g))"

definition mt_inv :: "('o, 'm, 'v) mt_config \<Rightarrow> bool" where
  "mt_inv g \<longleftrightarrow> (\<forall>th. thread_ok g th) \<and> owners_ok (mt_p g) \<and> detach_ok g"

text \<open>The step of a child that is as it should be.\<close>

lemma yyy_takes:
  assumes "pr_heap p a = Some (closure_of r)"
  shows "(if request_arity r = 0 then yyy0 a p else if request_arity r = 1 then yyy1 a p else if request_arity r = 2 then yyy2 a p
      else if request_arity r = 3 then yyy3 a p else None)
    = Some (case request_call r of (ob, m, as) \<Rightarrow> Taken ob m as, p\<lparr>pr_heap := (pr_heap p)(a := None)\<rparr>)"
  using assms by (cases r) (simp_all add: closure_of_def yyy0_def yyy1_def yyy2_def yyy3_def delete_closure_def closure_arg_def)

lemma child_step_for:
  assumes t: "pr_thr p th = Some t" and ok: "child_for p th r t" and "t \<noteq> Returned"
  shows "\<exists>p'. child_step th p = Some p' \<and>
    (case t of
       At_yyy n a \<Rightarrow> p' = p\<lparr>pr_heap := (pr_heap p)(a := None),
         pr_thr := (pr_thr p)(th \<mapsto> (case request_call r of (ob, m, as) \<Rightarrow> Taken ob m as))\<rparr>
     | Taken ob m as \<Rightarrow> p' = p\<lparr>pr_cancel := (pr_cancel p)(th := (False, False)), pr_thr := (pr_thr p)(th \<mapsto> Set_up ob m as)\<rparr>
     | Set_up ob m as \<Rightarrow> p' = p\<lparr>pr_calls := pr_calls p @ [(th, ob, m, as)], pr_thr := (pr_thr p)(th \<mapsto> Returned)\<rparr>
     | Returned \<Rightarrow> False)"
proof (cases t)
  case (At_yyy n a)
  then show ?thesis using t ok yyy_takes [of p a r] by (simp add: child_step_def del: One_nat_def)
qed (use t ok assms(3) in \<open>simp_all add: child_step_def method_thread_child_def Let_def\<close>)

lemma thread_okE:
  assumes "thread_ok g th" and "pr_thr (mt_p g) th = Some t"
  obtains r where "mt_asked g th = Some r" "child_for (mt_p g) th r t" "calls_of th (mt_p g) = (if t = Returned then [request_call r] else [])"
  using assms by (auto simp: thread_ok_def split: option.splits)

text \<open>A thread stays fine when nothing of it changes.\<close>

lemma thread_ok_frame:
  assumes "thread_ok g th" and "pr_thr (mt_p g') th = pr_thr (mt_p g) th" and "mt_asked g' th = mt_asked g th"
    and "\<And>n a. pr_thr (mt_p g) th = Some (At_yyy n a) \<Longrightarrow> pr_heap (mt_p g') a = pr_heap (mt_p g) a"
    and "pr_cancel (mt_p g') th = pr_cancel (mt_p g) th" and "calls_of th (mt_p g') = calls_of th (mt_p g)"
  shows "thread_ok g' th"
proof -
  have "child_for (mt_p g') th r t" if "child_for (mt_p g) th r t" "pr_thr (mt_p g) th = Some t" for r t
    using that assms(4,5) by (cases t) auto
  then show ?thesis using assms by (auto simp: thread_ok_def split: option.splits)
qed

lemma calls_of_simps [simp]:
  "calls_of th (p\<lparr>pr_heap := H\<rparr>) = calls_of th p" "calls_of th (p\<lparr>pr_thr := T\<rparr>) = calls_of th p"
  "calls_of th (p\<lparr>pr_cancel := C\<rparr>) = calls_of th p" "calls_of th (p\<lparr>pr_detached := D\<rparr>) = calls_of th p"
  "calls_of th (p\<lparr>pr_calls := l @ [(th', c)]\<rparr>) = calls_of th (p\<lparr>pr_calls := l\<rparr>) @ (if th' = th then [c] else [])"
  "calls_of th (p\<lparr>pr_calls := pr_calls p\<rparr>) = calls_of th p"
  by (simp_all add: calls_of_def)

lemma mt_inv_spawn:
  assumes inv: "mt_inv g" and a: "pr_heap (mt_p g) a = None" and th: "pr_thr (mt_p g) th = None"
  shows "mt_inv \<lparr>mt_p = (mt_p g)\<lparr>pr_heap := (pr_heap (mt_p g))(a \<mapsto> closure_of r),
      pr_thr := (pr_thr (mt_p g))(th \<mapsto> At_yyy (request_arity r) a)\<rparr>, mt_asked = (mt_asked g)(th \<mapsto> r),
    mt_todo = (if detach then [th] else []) @ mt_todo g\<rparr>" (is "mt_inv ?g")
proof -
  have ok: "thread_ok g u" for u using inv by (simp add: mt_inv_def)
  have free: "b \<noteq> a" if "pr_thr (mt_p g) u = Some (At_yyy n b)" for u n b
    by (rule thread_okE [OF ok that]) (use a in auto)
  have "thread_ok ?g u" for u
  proof (cases "u = th")
    case True
    have "calls_of th (mt_p g) = []" using ok [of th] th by (simp add: thread_ok_def split: option.splits)
    then show ?thesis using True by (simp add: thread_ok_def)
  next
    case False
    then show ?thesis using free by (intro thread_ok_frame [OF ok [of u]]) auto
  qed
  moreover have "owners_ok (mt_p ?g)"
  proof -
    have "\<exists>u n. pr_thr (mt_p ?g) u = Some (At_yyy n b)" if b: "pr_heap (mt_p ?g) b = Some x" for b x
    proof (cases "b = a")
      case False
      then obtain u n where u: "pr_thr (mt_p g) u = Some (At_yyy n b)" using b inv unfolding mt_inv_def owners_ok_def by auto
      then have "u \<noteq> th" using th by auto
      then show ?thesis using u by (intro exI [of _ u] exI [of _ n]) simp
    qed (auto intro: exI [of _ th])
    moreover have "v = u" if "pr_thr (mt_p ?g) u = Some (At_yyy n b)" "pr_thr (mt_p ?g) v = Some (At_yyy m b)" for u v n m b
      using that inv free unfolding mt_inv_def owners_ok_def by (auto split: if_splits)
    ultimately show ?thesis unfolding owners_ok_def by blast
  qed
  moreover have "detach_ok ?g" using inv th by (auto simp: mt_inv_def detach_ok_def)
  ultimately show ?thesis by (simp add: mt_inv_def)
qed

lemma owners_ok_take:
  assumes own: "owners_ok p" and th: "pr_thr p th = Some t"
    and thr: "pr_thr p' = (pr_thr p)(th \<mapsto> t')" "\<And>n a. t' \<noteq> At_yyy n a"
    and heap: "\<And>a. pr_heap p' a = (if \<exists>n. t = At_yyy n a then None else pr_heap p a)"
  shows "owners_ok p'"
  unfolding owners_ok_def
proof (intro conjI allI impI)
  fix a x
  assume "pr_heap p' a = Some x"
  then have "pr_heap p a = Some x" and a: "\<nexists>n. t = At_yyy n a" by (auto simp: heap split: if_splits)
  then obtain u n where "pr_thr p u = Some (At_yyy n a)" using own unfolding owners_ok_def by blast
  then show "\<exists>u n. pr_thr p' u = Some (At_yyy n a)" using a th by (intro exI [of _ u] exI [of _ n]) (auto simp: thr(1))
next
  fix u v n m a
  assume "pr_thr p' u = Some (At_yyy n a)" and "pr_thr p' v = Some (At_yyy m a)"
  then have "pr_thr p u = Some (At_yyy n a)" and "pr_thr p v = Some (At_yyy m a)" using thr by (auto split: if_splits)
  then show "v = u" using own unfolding owners_ok_def by blast
qed

lemma mt_inv_child:
  assumes inv: "mt_inv g" and step: "child_step th (mt_p g) = Some p"
  shows "mt_inv (g\<lparr>mt_p := p\<rparr>)"
proof -
  have ok: "thread_ok g u" for u using inv by (simp add: mt_inv_def)
  from step obtain t where t1: "pr_thr (mt_p g) th = Some t" by (cases "pr_thr (mt_p g) th") (simp_all add: child_step_def)
  have t: "pr_thr (mt_p g) th = Some t" "t \<noteq> Returned" using step t1 by (auto simp: child_step_def)
  from thread_okE [OF ok t(1)] t(2) obtain r where r: "mt_asked g th = Some r" "child_for (mt_p g) th r t"
    "calls_of th (mt_p g) = []" by auto
  note p = child_step_for [OF t(1) r(2) t(2)]
  have one: "u = th" if "pr_thr (mt_p g) u = Some (At_yyy n a)" "t = At_yyy n' a" for u n n' a
    using that t(1) inv unfolding mt_inv_def owners_ok_def by blast
  have "thread_ok (g\<lparr>mt_p := p\<rparr>) u" for u
  proof (cases "u = th")
    case True
    then show ?thesis using p step r t by (cases t) (auto simp: thread_ok_def split: prod.splits)
  next
    case False
    then show ?thesis using p step one [of u] by (intro thread_ok_frame [OF ok [of u]]) (cases t; auto)+
  qed
  moreover have "owners_ok p"
  proof -
    obtain t' where "pr_thr p = (pr_thr (mt_p g))(th \<mapsto> t')" "\<And>n a. t' \<noteq> At_yyy n a"
      using p step by (cases t) (auto split: prod.splits)
    moreover have "pr_heap p a = (if \<exists>n. t = At_yyy n a then None else pr_heap (mt_p g) a)" for a
      using p step t(2) by (cases t) auto
    ultimately show ?thesis using inv t(1) owners_ok_take unfolding mt_inv_def by blast
  qed
  moreover have "detach_ok (g\<lparr>mt_p := p\<rparr>)"
    using inv p step t by (cases t) (auto simp: mt_inv_def detach_ok_def)
  ultimately show ?thesis by (simp add: mt_inv_def)
qed

lemma mt_inv_detach:
  assumes inv: "mt_inv g" and todo: "mt_todo g = xs @ th # ys" and d: "method_thread_detach th True (mt_p g) = Some p"
  shows "mt_inv (g\<lparr>mt_p := p, mt_todo := xs @ ys\<rparr>)"
proof -
  from d have p: "p = (mt_p g)\<lparr>pr_detached := insert th (pr_detached (mt_p g))\<rparr>" "pr_thr (mt_p g) th \<noteq> None"
    by (auto simp: method_thread_detach_def pthread_detach_def split: if_splits)
  have "thread_ok (g\<lparr>mt_p := p, mt_todo := xs @ ys\<rparr>) u" for u
    by (rule thread_ok_frame [of g u]) (use inv in \<open>simp_all add: mt_inv_def p(1)\<close>)
  then show ?thesis using inv todo p by (auto simp: mt_inv_def owners_ok_def detach_ok_def)
qed

lemma mt_reach_inv: "mt_reach g \<Longrightarrow> pr_exit (mt_p g) = None \<Longrightarrow> mt_inv g"
proof (induction rule: mt_reach.induct)
  case start
  show ?case by (simp add: mt_init_def mt_inv_def thread_ok_def owners_ok_def detach_ok_def calls_of_def)
next
  case (step g g')
  from step.hyps(2) step.prems step.IH show ?case
  proof cases
    case (spawn a th r p detach)
    then show ?thesis using mt_inv_spawn [of g a th r detach] step.IH
      by (simp add: method_thread_create_def method_thread_closure_heap)
  next
    case (no_spawn a err r p)
    then show ?thesis using step.prems by (auto simp: method_thread_create_def)
  next
    case (detach xs th ys p)
    then show ?thesis using mt_inv_detach step.IH by blast
  next
    case (child th p)
    then show ?thesis using mt_inv_child step.IH by blast
  qed
qed

text \<open>
  C18: \<open>method_thread\<close> runs the method it was given exactly once. Whatever the interleaving of parents and children,
  as long as no \<open>pthread_create\<close> has failed (which ends the process): every thread was asked for; it can make its
  next step until it has returned, so that it never reads a closure that is deleted, incomplete or of another
  template; it has made no call before it returns and exactly the requested one after, not cancellable;
  each closure has exactly one thread that will delete it; and no \<open>pthread_detach\<close> fails.
\<close>

theorem method_thread_runs_once:
  assumes "mt_reach g" and "pr_exit (mt_p g) = None"
  shows "(\<forall>th t. pr_thr (mt_p g) th = Some t \<longrightarrow>
      (\<exists>r. mt_asked g th = Some r \<and>
        (if t = Returned then calls_of th (mt_p g) = [request_call r]
         else calls_of th (mt_p g) = [] \<and> child_step th (mt_p g) \<noteq> None \<and>
           (\<forall>ob m as. t = Set_up ob m as \<longrightarrow> (ob, m, as) = request_call r \<and> \<not> fst (pr_cancel (mt_p g) th))))) \<and>
    (\<forall>a. pr_heap (mt_p g) a \<noteq> None \<longrightarrow> (\<exists>!th. \<exists>n. pr_thr (mt_p g) th = Some (At_yyy n a))) \<and>
    (\<forall>th \<in> set (mt_todo g). method_thread_detach th True (mt_p g) \<noteq> None)"
proof -
  have inv: "mt_inv g" using mt_reach_inv assms by blast
  have "\<exists>r. mt_asked g th = Some r \<and>
        (if t = Returned then calls_of th (mt_p g) = [request_call r]
         else calls_of th (mt_p g) = [] \<and> child_step th (mt_p g) \<noteq> None \<and>
           (\<forall>ob m as. t = Set_up ob m as \<longrightarrow> (ob, m, as) = request_call r \<and> \<not> fst (pr_cancel (mt_p g) th)))"
    if t: "pr_thr (mt_p g) th = Some t" for th t
  proof -
    have "thread_ok g th" using inv by (simp add: mt_inv_def)
    from thread_okE [OF this t] obtain r where r: "mt_asked g th = Some r" "child_for (mt_p g) th r t"
      "calls_of th (mt_p g) = (if t = Returned then [request_call r] else [])" .
    from child_step_for [OF t r(2)] r show ?thesis by (intro exI [of _ r]) auto
  qed
  moreover have "\<exists>!th. \<exists>n. pr_thr (mt_p g) th = Some (At_yyy n a)" if "pr_heap (mt_p g) a \<noteq> None" for a
    using inv that unfolding mt_inv_def owners_ok_def by blast
  moreover have "method_thread_detach th True (mt_p g) \<noteq> None" if "th \<in> set (mt_todo g)" for th
    using inv that by (auto simp: mt_inv_def detach_ok_def method_thread_detach_def pthread_detach_def)
  ultimately show ?thesis by blast
qed

text \<open>A parent that starts one thread with two arguments and detaches it while it runs.\<close>

lemma mt_sample:
  "\<exists>g. mt_reach g \<and> pr_exit (mt_p g) = None \<and> pr_thr (mt_p g) 7 = Some Returned \<and> mt_todo g = [] \<and>
     mt_asked g 7 = Some (MT2 ''o'' ''m'' (1::int) 2)"
proof -
  let ?r = "MT2 ''o'' ''m'' (1::int) 2"
  let ?p = "\<lambda>H t D C l. \<lparr>pr_heap = H, pr_thr = [7 \<mapsto> t], pr_detached = D, pr_cancel = C, pr_exit = None, pr_calls = l\<rparr>"
  let ?g = "\<lambda>p todo. \<lparr>mt_p = p, mt_asked = [7 \<mapsto> ?r], mt_todo = todo\<rparr>"
  let ?C = "\<lambda>_::tid. (True, False)" and ?l = "[(7, ''o'', ''m'', [1, 2])]"
  have "mt_reach (?g (?p [0 \<mapsto> closure_of ?r] (At_yyy 2 0) {} ?C []) [7])"
    using mt_reach.step [OF mt_reach.start mt_step.spawn [of mt_init 0 7 ?r _ True]]
    by (simp add: mt_init_def method_thread_create_def method_thread_closure_heap numeral_2_eq_2)
  from mt_reach.step [OF this mt_step.child [of _ 7 "?p Map.empty (Taken ''o'' ''m'' [1, 2]) {} ?C []"]]
  have "mt_reach (?g (?p Map.empty (Taken ''o'' ''m'' [1, 2]) {} ?C []) [7])"
    by (simp add: child_step_def yyy2_def closure_of_def closure_arg_def delete_closure_def)
  from mt_reach.step [OF this mt_step.detach [of _ "[]" 7 "[]" "?p Map.empty (Taken ''o'' ''m'' [1, 2]) {7} ?C []"]]
  have "mt_reach (?g (?p Map.empty (Taken ''o'' ''m'' [1, 2]) {7} ?C []) [])"
    by (simp add: method_thread_detach_def pthread_detach_def)
  from mt_reach.step [OF this mt_step.child [of _ 7 "?p Map.empty (Set_up ''o'' ''m'' [1, 2]) {7} (?C(7 := (False, False))) []"]]
  have "mt_reach (?g (?p Map.empty (Set_up ''o'' ''m'' [1, 2]) {7} (?C(7 := (False, False))) []) [])"
    by (simp add: child_step_def method_thread_child_def Let_def)
  from mt_reach.step [OF this mt_step.child [of _ 7 "?p Map.empty Returned {7} (?C(7 := (False, False))) ?l"]]
  have "mt_reach (?g (?p Map.empty Returned {7} (?C(7 := (False, False))) ?l) [])"
    by (simp add: child_step_def)
  then show ?thesis by (intro exI conjI, assumption) simp_all
qed

theorem method_thread_runs_once_witness:
  "\<exists>g. mt_reach g \<and> calls_of 7 (mt_p g) = [(''o'', ''m'', [1::int, 2])]"
proof -
  obtain g where g: "mt_reach g" "pr_exit (mt_p g) = None" "pr_thr (mt_p g) 7 = Some Returned"
    "mt_asked g 7 = Some (MT2 ''o'' ''m'' (1::int) 2)" using mt_sample by blast
  from method_thread_runs_once [OF g(1,2)] g(3,4) have "calls_of 7 (mt_p g) = [request_call (MT2 ''o'' ''m'' 1 2)]"
    by fastforce
  then show ?thesis using g(1) by auto
qed

text \<open>When no thread can be made the process exits: \<open>method_thread\<close> does not return zero, which its comment
  promises and its callers test for.\<close>

lemma method_thread_no_zero:
  assumes "method_thread res a r detach p = Some (v, p')"
  shows "case res of Inl err \<Rightarrow> pr_exit p' = Some 1 | Inr th \<Rightarrow> v = Some th"
  using assms
  by (auto simp: method_thread_def method_thread_parent_def method_thread_create_def elim!: bind_SomeE split: sum.splits)

end
