(* ===== verification/Extent.thy ===== *)
theory Extent
  imports Net Wire
begin

text \<open>
  The extent service: the wire protocol and the directory format of \<open>extent_protocol.h\<close>, the
  server of \<open>extent_server.cc\<close> with its registration in \<open>extent_smain.cc\<close>, and the client
  stubs of \<open>extent_client.cc\<close>.

  The contract of the store is the locale \<open>extent_store\<close>. The methods of the server are
  instances of \<open>rpc_method\<close>, so that the stubs over anything that carries calls, the locale
  \<open>transport\<close> of \<open>Net\<close>, keep this contract. The directory format is proved to round-trip, except for
  a last entry with an empty name, which \<open>deserialize\<close> rejects.
\<close>

section \<open>The protocol\<close>

abbreviation (input) ext_OK :: u32 where "ext_OK \<equiv> 0"
abbreviation (input) ext_RPCERR :: u32 where "ext_RPCERR \<equiv> 1"
abbreviation (input) ext_NOENT :: u32 where "ext_NOENT \<equiv> 2"
abbreviation (input) ext_IOERR :: u32 where "ext_IOERR \<equiv> 3"
abbreviation (input) ext_FBIG :: u32 where "ext_FBIG \<equiv> 4"

abbreviation (input) ext_put :: u32 where "ext_put \<equiv> 0x6001"
abbreviation (input) ext_get :: u32 where "ext_get \<equiv> 0x6002"
abbreviation (input) ext_getattr :: u32 where "ext_getattr \<equiv> 0x6003"
abbreviation (input) ext_remove :: u32 where "ext_remove \<equiv> 0x6004"

type_synonym extentid_t = u64
type_synonym filelist = "(extentid_t \<times> bytes) list"

record attr =
  at_atime :: u32
  at_mtime :: u32
  at_ctime :: u32
  at_size :: u32

text \<open>\<open>extent_protocol::attr()\<close>: value-initialised.\<close>

definition attr_new :: attr where
  "attr_new = \<lparr>at_atime = 0, at_mtime = 0, at_ctime = 0, at_size = 0\<rparr>"

definition marshall_attr :: "marshall \<Rightarrow> attr \<Rightarrow> marshall option" where
  "marshall_attr m a = do {
     m \<leftarrow> marshall_uint m (at_atime a);
     m \<leftarrow> marshall_uint m (at_mtime a);
     m \<leftarrow> marshall_uint m (at_ctime a);
     marshall_uint m (at_size a)
   }"

definition unmarshall_attr :: "unmarshall \<Rightarrow> (attr \<times> unmarshall) option" where
  "unmarshall_attr u = do {
     (at, u) \<leftarrow> unmarshall_uint u;
     (mt, u) \<leftarrow> unmarshall_uint u;
     (ct, u) \<leftarrow> unmarshall_uint u;
     (sz, u) \<leftarrow> unmarshall_uint u;
     Some (\<lparr>at_atime = at, at_mtime = mt, at_ctime = ct, at_size = sz\<rparr>, u)
   }"

definition enc_attr :: "attr \<Rightarrow> bytes" where
  "enc_attr a = be32 (at_atime a) @ be32 (at_mtime a) @ be32 (at_ctime a) @ be32 (at_size a)"

interpretation c_attr: codec marshall_attr unmarshall_attr enc_attr "\<lambda>_. True"
proof (unfold_locales, goal_cases)
  case (1 a)
  show ?case unfolding marshall_attr_def enc_attr_def by (rule put_ok_bind put_ok_uint)+
next
  case (2 a)
  show ?case
    unfolding unmarshall_attr_def
    by (rule get_ok_cong, (rule get_ok_bind get_ok_uint get_ok_Some)+) (simp_all add: enc_attr_def)
next
  case 3
  show ?case
    unfolding unmarshall_attr_def by (intro get_frame_bind get_frame_base get_frame_Some)
qed

subsection \<open>The directory format\<close>

text \<open>The bytes of an \<open>unsigned int\<close> and of an \<open>unsigned long long\<close> in memory, little-endian.\<close>

definition le32 :: "u32 \<Rightarrow> bytes" where
  "le32 x = [byte_at 0 x, byte_at 8 x, byte_at 16 x, byte_at 24 x]"

definition le64 :: "u64 \<Rightarrow> bytes" where
  "le64 x = le32 (ucast x) @ le32 (ucast (drop_bit 32 x))"

text \<open>Loads from the array \<open>cbuf\<close> of \<open>c_str()\<close>: the string and a final zero byte. A load
  beyond it is undefined.\<close>

definition load32 :: "bytes \<Rightarrow> nat \<Rightarrow> u32 option" where
  "load32 buf p =
     (let c = buf @ [0] in
      if p + 4 \<le> length c then Some (join32 (c ! (p + 3)) (c ! (p + 2)) (c ! (p + 1)) (c ! p)) else None)"

definition load64 :: "bytes \<Rightarrow> nat \<Rightarrow> u64 option" where
  "load64 buf p = do {
     l \<leftarrow> load32 buf p;
     h \<leftarrow> load32 buf (p + 4);
     Some (ucast l OR push_bit 32 (ucast h))
   }"

definition load_bytes :: "bytes \<Rightarrow> nat \<Rightarrow> nat \<Rightarrow> bytes option" where
  "load_bytes buf p n =
     (let c = buf @ [0] in if p + n \<le> length c then Some (take n (drop p c)) else None)"

fun serialize_entries :: "filelist \<Rightarrow> bytes" where
  "serialize_entries [] = []"
| "serialize_entries ((eid, name) # fl) =
     le64 eid @ le32 (of_nat (length name)) @ name @ serialize_entries fl"

definition serialize :: "filelist \<Rightarrow> bytes" where
  "serialize fl = le32 (of_nat (length fl)) @ serialize_entries fl"

text \<open>The loop of \<open>deserialize\<close>, with \<open>n\<close> rounds left, so that \<open>i == size_fl - 1\<close> in the
  round with \<open>n = 1\<close>. The position and the sizes are 32-bit and wrap around.\<close>

fun deserialize_loop :: "bytes \<Rightarrow> nat \<Rightarrow> u32 \<Rightarrow> filelist \<Rightarrow> (bool \<times> filelist) option" where
  "deserialize_loop buf 0 p fl = Some (True, fl)"
| "deserialize_loop buf (Suc n) p fl = (let size_buf = of_nat (length buf) :: u32 in do {
     eid \<leftarrow> load64 buf (unat p);
     let p = p + 8;
     if size_buf \<le> p then Some (False, fl)
     else do {
       size_name \<leftarrow> load32 buf (unat p);
       let p = p + 4;
       if size_buf \<le> p then Some (False, fl)
       else do {
         name \<leftarrow> load_bytes buf (unat p) (unat size_name);
         let p = p + size_name;
         if size_buf + (if n = 0 then 1 else 0) \<le> p then Some (False, fl)
         else deserialize_loop buf n p (fl @ [(eid, name)])
       }
     }
   })"

definition deserialize :: "bytes \<Rightarrow> filelist \<Rightarrow> (bool \<times> filelist) option" where
  "deserialize buf fl = (let size_buf = of_nat (length buf) :: u32 in do {
     size_fl \<leftarrow> load32 buf 0;
     if unat size_buf < unat size_fl * 12 + 4 then Some (False, fl)
     else deserialize_loop buf (unat size_fl) 4 fl
   })"

section \<open>The server\<close>

record extent_server =
  es_data :: "extentid_t \<rightharpoonup> bytes"
  es_attr :: "extentid_t \<rightharpoonup> attr"

definition extent_server_new :: extent_server where
  "extent_server_new = \<lparr>es_data = [1 \<mapsto> serialize []], es_attr = [1 \<mapsto> attr_new]\<rparr>"

definition extent_server_put :: "extentid_t \<Rightarrow> bytes \<Rightarrow> u32 \<Rightarrow> extent_server \<Rightarrow> (u32 \<times> u32 \<times> extent_server) option" where
  "extent_server_put eid buf r s =
     (let s = (if es_attr s eid = None then s\<lparr>es_attr := (es_attr s)(eid \<mapsto> attr_new)\<rparr> else s)
      in Some (ext_OK, r, s\<lparr>es_data := (es_data s)(eid \<mapsto> buf)\<rparr>))"

definition extent_server_get :: "extentid_t \<Rightarrow> bytes \<Rightarrow> extent_server \<Rightarrow> (u32 \<times> bytes \<times> extent_server) option" where
  "extent_server_get eid buf s =
     (case es_data s eid of None \<Rightarrow> Some (ext_NOENT, buf, s) | Some d \<Rightarrow> Some (ext_OK, d, s))"

definition extent_server_getattr :: "extentid_t \<Rightarrow> attr \<Rightarrow> extent_server \<Rightarrow> (u32 \<times> attr \<times> extent_server) option" where
  "extent_server_getattr eid a s =
     (case es_attr s eid of None \<Rightarrow> Some (ext_NOENT, a, s) | Some b \<Rightarrow> Some (ext_OK, b, s))"

definition extent_server_remove :: "extentid_t \<Rightarrow> u32 \<Rightarrow> extent_server \<Rightarrow> (u32 \<times> u32 \<times> extent_server) option" where
  "extent_server_remove eid r s = Some (ext_IOERR, r, s)"

text \<open>The handlers, as \<open>reg\<close> instantiates its templates for them. \<open>ri\<close> and \<open>ra\<close> are what the
  uninitialised result variables hold.\<close>

abbreviation h_get :: "extent_server handler" where
  "h_get \<equiv> handler1 unmarshall_ulonglong marshall_string [] extent_server_get"

abbreviation h_getattr :: "attr \<Rightarrow> extent_server handler" where
  "h_getattr ra \<equiv> handler1 unmarshall_ulonglong marshall_attr ra extent_server_getattr"

abbreviation h_put :: "u32 \<Rightarrow> extent_server handler" where
  "h_put ri \<equiv> handler2 unmarshall_ulonglong (unmarshall_string []) marshall_int ri extent_server_put"

abbreviation h_remove :: "u32 \<Rightarrow> extent_server handler" where
  "h_remove ri \<equiv> handler1 unmarshall_ulonglong marshall_int ri extent_server_remove"

definition extent_smain :: "u32 \<Rightarrow> u32 \<Rightarrow> attr \<Rightarrow> extent_server rpcs option" where
  "extent_smain rnd ri ra = do {
     s \<leftarrow> rpcs_new rnd 0 extent_server_new;
     s \<leftarrow> reg1 s ext_get h_get;
     s \<leftarrow> reg1 s ext_getattr (h_getattr ra);
     s \<leftarrow> reg1 s ext_put (h_put ri);
     reg1 s ext_remove (h_remove ri)
   }"

section \<open>The client stubs\<close>

text \<open>\<open>call1\<close> is \<open>rpcc::call1\<close> on the state \<open>'w\<close> of the client, the network and the server. A
  result variable of type \<open>int\<close> is not initialised: \<open>r1\<close>.\<close>

type_synonym 'w caller1 = "u32 \<Rightarrow> marshall \<Rightarrow> 'w \<Rightarrow> ((u32 \<times> unmarshall) \<times> 'w) option"

definition extent_client_get :: "'w caller1 \<Rightarrow> extentid_t \<Rightarrow> bytes \<Rightarrow> 'w \<Rightarrow> ((u32 \<times> bytes) \<times> 'w) option" where
  "extent_client_get call1 eid buf w = do {
     m \<leftarrow> call_req1 marshall_ulonglong eid;
     (res, w) \<leftarrow> call1 ext_get m w;
     ret \<leftarrow> call_m_result (unmarshall_string buf) buf res;
     Some (ret, w)
   }"

definition extent_client_getattr :: "'w caller1 \<Rightarrow> extentid_t \<Rightarrow> attr \<Rightarrow> 'w \<Rightarrow> ((u32 \<times> attr) \<times> 'w) option" where
  "extent_client_getattr call1 eid a w = do {
     m \<leftarrow> call_req1 marshall_ulonglong eid;
     (res, w) \<leftarrow> call1 ext_getattr m w;
     ret \<leftarrow> call_m_result unmarshall_attr a res;
     Some (ret, w)
   }"

definition extent_client_put :: "'w caller1 \<Rightarrow> u32 \<Rightarrow> extentid_t \<Rightarrow> bytes \<Rightarrow> 'w \<Rightarrow> (u32 \<times> 'w) option" where
  "extent_client_put call1 r1 eid buf w = do {
     m \<leftarrow> call_req2 marshall_ulonglong marshall_string eid buf;
     (res, w) \<leftarrow> call1 ext_put m w;
     ret \<leftarrow> call_m_result unmarshall_int r1 res;
     Some (fst ret, w)
   }"

definition extent_client_remove :: "'w caller1 \<Rightarrow> u32 \<Rightarrow> extentid_t \<Rightarrow> 'w \<Rightarrow> (u32 \<times> 'w) option" where
  "extent_client_remove call1 r1 eid w = do {
     m \<leftarrow> call_req1 marshall_ulonglong eid;
     (res, w) \<leftarrow> call1 ext_remove m w;
     ret \<leftarrow> call_m_result unmarshall_int r1 res;
     Some (fst ret, w)
   }"

section \<open>The directory format round-trips\<close>

lemma length_le [simp]: "length (le32 x) = 4" "length (le64 y) = 8"
  by (simp_all add: le32_def le64_def)

lemma load32_le32:
  assumes "drop p buf = le32 x @ r"
  shows "load32 buf p = Some x"
proof -
  have len: "p + 4 \<le> length buf" using arg_cong [OF assms, of length] by simp
  have "(buf @ [0]) ! (p + i) = le32 x ! i" if "i < 4" for i
  proof -
    have "(buf @ [0]) ! (p + i) = buf ! (p + i)" using len that by (simp add: nth_append)
    also have "\<dots> = drop p buf ! i" using len that by simp
    also have "\<dots> = le32 x ! i" using that by (simp add: assms nth_append)
    finally show ?thesis .
  qed
  from this [of 0] this [of 1] this [of 2] this [of 3] show ?thesis
    using len by (simp add: load32_def Let_def le32_def join32_byte_at)
qed

lemma load64_le64:
  assumes "drop p buf = le64 x @ r"
  shows "load64 buf p = Some x"
proof -
  have "drop p buf = le32 (ucast x) @ le32 (ucast (drop_bit 32 x)) @ r" using assms by (simp add: le64_def)
  then have "load32 buf p = Some (ucast x)" "load32 buf (p + 4) = Some (ucast (drop_bit 32 x))"
    using drop_eq_appendD(2) [of p buf "le32 (ucast x)"] by (auto intro: load32_le32)
  then show ?thesis by (simp add: load64_def join64_halves)
qed

lemma load_bytes_app:
  assumes "drop p buf = name @ r" and "p \<le> length buf"
  shows "load_bytes buf p (length name) = Some name"
proof -
  have "p + length name \<le> length buf" using arg_cong [OF assms(1), of length] assms(2) by simp
  then show ?thesis using assms by (simp add: load_bytes_def Let_def)
qed

lemma length_serialize_entries: "12 * length fl \<le> length (serialize_entries fl)"
  by (induction fl rule: serialize_entries.induct) auto

text \<open>What reading back the entries of \<open>fl\<close> yields.\<close>

definition read_back :: "filelist \<Rightarrow> filelist \<Rightarrow> bool \<times> filelist" where
  "read_back acc fl =
     (if fl \<noteq> [] \<and> snd (last fl) = [] then (False, acc @ butlast fl) else (True, acc @ fl))"

lemma read_back_Cons: "fl \<noteq> [] \<Longrightarrow> read_back acc (e # fl) = read_back (acc @ [e]) fl"
  by (simp add: read_back_def)

lemma deserialize_loop_entries:
  assumes "drop q buf = serialize_entries fl" and "q \<le> length buf" and "length buf < 4294967295"
  shows "deserialize_loop buf (length fl) (of_nat q) acc = Some (read_back acc fl)"
  using assms(1,2)
proof (induction fl arbitrary: q acc)
  case Nil
  then show ?case by (simp add: read_back_def)
next
  case (Cons e fl)
  obtain eid name where e: "e = (eid, name)" by (cases e)
  let ?n = "length name" and ?q = "q + 12 + length name"
  have d0: "drop q buf = le64 eid @ le32 (of_nat ?n) @ name @ serialize_entries fl"
    using Cons.prems by (simp add: e)
  then have d1: "drop (q + 8) buf = le32 (of_nat ?n) @ name @ serialize_entries fl"
    using drop_eq_appendD(2) [OF d0] by simp
  then have d2: "drop (q + 12) buf = name @ serialize_entries fl"
    using drop_eq_appendD(2) [OF d1] by (simp add: add.assoc)
  then have d3: "drop ?q buf = serialize_entries fl" using drop_eq_appendD(2) [OF d2] by simp
  have len: "length buf = ?q + length (serialize_entries fl)"
    using arg_cong [OF d0, of length] Cons.prems(2) by simp
  have u: "unat (of_nat i :: u32) = i" if "i \<le> length buf" for i
    using that assms(3) by (simp add: unat_of_nat_lt)
  have le: "(of_nat i :: u32) \<le> of_nat j \<longleftrightarrow> i \<le> j" if "i \<le> length buf + 1" "j \<le> length buf" for i j
    using that assms(3) by (simp add: of_nat_u32_le)
  have w: "of_nat q + 8 = (of_nat (q + 8) :: u32)" "of_nat (q + 8) + 4 = (of_nat (q + 12) :: u32)"
    "of_nat (q + 12) + of_nat ?n = (of_nat ?q :: u32)"
    "of_nat (length buf) + 1 = (of_nat (length buf + 1) :: u32)" by simp_all
  have ld: "load64 buf q = Some eid" "load32 buf (q + 8) = Some (of_nat ?n)"
    "load_bytes buf (q + 12) ?n = Some name"
    using d0 d1 d2 len by (auto intro: load64_le64 load32_le32 load_bytes_app)
  show ?case
  proof (cases "name = [] \<and> fl = []")
    case True
    with len show ?thesis
      using u ld le w by (simp add: e read_back_def Let_def del: of_nat_add)
  next
    case False
    have ent: "12 \<le> length (serialize_entries fl)" if "fl \<noteq> []"
      using that length_serialize_entries [of fl] by (cases "length fl") auto
    have "q + 12 < length buf" using False len ent by (cases "fl = []") auto
    moreover have "fl \<noteq> [] \<Longrightarrow> ?q < length buf" using len ent by auto
    ultimately have "deserialize_loop buf (length (e # fl)) (of_nat q) acc
        = deserialize_loop buf (length fl) (of_nat ?q) (acc @ [e])"
      using u ld le w len by (auto simp: e Let_def simp del: of_nat_add)
    also have "\<dots> = Some (read_back (acc @ [e]) fl)" by (rule Cons.IH) (use d3 len in simp_all)
    also have "read_back (acc @ [e]) fl = read_back acc (e # fl)"
      using False by (cases "fl = []") (simp_all add: read_back_Cons, simp add: read_back_def e)
    finally show ?thesis .
  qed
qed

lemma deserialize_serialize:
  assumes "length (serialize fl) < 4294967295"
  shows "deserialize (serialize fl) acc = Some (read_back acc fl)"
proof -
  let ?buf = "serialize fl"
  have len: "12 * length fl + 4 \<le> length ?buf"
    using length_serialize_entries [of fl] by (simp add: serialize_def)
  have "load32 ?buf 0 = Some (of_nat (length fl))"
    by (rule load32_le32) (simp add: serialize_def)
  moreover have "deserialize_loop ?buf (length fl) (of_nat 4) acc = Some (read_back acc fl)"
    by (rule deserialize_loop_entries) (use assms len in \<open>simp_all add: serialize_def\<close>)
  moreover have "unat (of_nat (length fl) :: u32) = length fl" "unat (of_nat (length ?buf) :: u32) = length ?buf"
    using assms len by (simp_all add: unat_of_nat_lt)
  ultimately show ?thesis using len by (simp add: deserialize_def Let_def)
qed

section \<open>The contract of the store\<close>

text \<open>
  What the users of \<open>extent_client\<close> rely on: \<open>data\<close> and \<open>attrs\<close> are the extents and their
  attributes, \<open>ready n\<close> says that \<open>n\<close> more calls can be made, and an extent of \<open>fits\<close> size goes
  into a PDU.
\<close>

definition fits :: "bytes \<Rightarrow> bool" where
  "fits d \<longleftrightarrow> length d + 36 < MARSH_LIMIT"

definition attr_put :: "attr option \<Rightarrow> attr" where
  "attr_put a = (case a of None \<Rightarrow> attr_new | Some a \<Rightarrow> a)"

locale extent_store =
  fixes get :: "extentid_t \<Rightarrow> bytes \<Rightarrow> 'w \<Rightarrow> ((u32 \<times> bytes) \<times> 'w) option"
    and put :: "extentid_t \<Rightarrow> bytes \<Rightarrow> 'w \<Rightarrow> (u32 \<times> 'w) option"
    and getattr :: "extentid_t \<Rightarrow> attr \<Rightarrow> 'w \<Rightarrow> ((u32 \<times> attr) \<times> 'w) option"
    and data :: "'w \<Rightarrow> extentid_t \<rightharpoonup> bytes"
    and attrs :: "'w \<Rightarrow> extentid_t \<rightharpoonup> attr"
    and ready :: "nat \<Rightarrow> 'w \<Rightarrow> bool"
  assumes get_found: "ready (Suc n) w \<Longrightarrow> data w eid = Some d \<Longrightarrow> fits d \<Longrightarrow>
      \<exists>w'. get eid b w = Some ((ext_OK, d), w') \<and> data w' = data w \<and> attrs w' = attrs w \<and> ready n w'"
    and get_missing: "ready (Suc n) w \<Longrightarrow> data w eid = None \<Longrightarrow>
      \<exists>w'. get eid b w = Some ((ext_NOENT, []), w') \<and> data w' = data w \<and> attrs w' = attrs w \<and> ready n w'"
    and put_stores: "ready (Suc n) w \<Longrightarrow> fits d \<Longrightarrow>
      \<exists>w'. put eid d w = Some (ext_OK, w') \<and> data w' = (data w)(eid \<mapsto> d) \<and>
        attrs w' = (attrs w)(eid \<mapsto> attr_put (attrs w eid)) \<and> ready n w'"
    and getattr_found: "ready (Suc n) w \<Longrightarrow> attrs w eid = Some a \<Longrightarrow>
      \<exists>w'. getattr eid a0 w = Some ((ext_OK, a), w') \<and> data w' = data w \<and> attrs w' = attrs w \<and> ready n w'"
    and getattr_missing: "ready (Suc n) w \<Longrightarrow> attrs w eid = None \<Longrightarrow>
      \<exists>a w'. getattr eid a0 w = Some ((ext_NOENT, a), w') \<and> data w' = data w \<and> attrs w' = attrs w \<and> ready n w'"
begin

lemma put_get:
  assumes "ready (Suc (Suc n)) w" and "fits d"
  shows "\<exists>w1 w2. put eid d w = Some (ext_OK, w1) \<and> get eid b w1 = Some ((ext_OK, d), w2) \<and>
    data w2 = (data w)(eid \<mapsto> d) \<and> ready n w2"
proof -
  from put_stores [OF assms] obtain w1 where w1: "put eid d w = Some (ext_OK, w1)"
    "data w1 = (data w)(eid \<mapsto> d)" "ready (Suc n) w1" by blast
  with get_found [OF w1(3) _ assms(2), of eid b] show ?thesis by auto
qed

end

subsection \<open>The server's methods behind the RPC layer\<close>

interpretation m_get: rpc_method marshall_ulonglong unmarshall_ulonglong be64 "\<lambda>_. True"
  marshall_string "unmarshall_string buf" enc_string short_list extent_server_get "[]" for buf
  by unfold_locales

interpretation m_getattr: rpc_method marshall_ulonglong unmarshall_ulonglong be64 "\<lambda>_. True"
  marshall_attr unmarshall_attr enc_attr "\<lambda>_. True" extent_server_getattr ra for ra
  by unfold_locales

interpretation m_remove: rpc_method marshall_ulonglong unmarshall_ulonglong be64 "\<lambda>_. True"
  marshall_int unmarshall_int be32 "\<lambda>_. True" extent_server_remove ri for ri
  by unfold_locales

interpretation c_putarg: codec_pair marshall_ulonglong unmarshall_ulonglong be64 "\<lambda>_. True"
  marshall_string "unmarshall_string []" enc_string short_list
  by unfold_locales

interpretation m_put: rpc_method "put_pair marshall_ulonglong marshall_string"
  "get_pair unmarshall_ulonglong (unmarshall_string [])" "enc_pair be64 enc_string"
  "\<lambda>ab. True \<and> short_list (snd ab)" marshall_int unmarshall_int be32 "\<lambda>_. True"
  "\<lambda>(eid, buf). extent_server_put eid buf" ri for ri
  by unfold_locales

text \<open>The handlers a running extent server has.\<close>

definition ext_procs :: "extent_server rpcs \<Rightarrow> bool" where
  "ext_procs s \<longleftrightarrow> rs_procs s ext_get = Some h_get \<and> (\<exists>ra. rs_procs s ext_getattr = Some (h_getattr ra)) \<and>
     (\<exists>ri. rs_procs s ext_put = Some (h_put ri)) \<and> (\<exists>ri. rs_procs s ext_remove = Some (h_remove ri))"

lemma ext_procs_same: "rs_procs s' = rs_procs s \<Longrightarrow> ext_procs s' = ext_procs s"
  by (simp add: ext_procs_def)

lemma length_enc_string [simp]: "length (enc_string s) = length s + 4"
  by (simp add: enc_string_def)

lemma fits_short: "fits d \<Longrightarrow> short_list d"
  by (simp add: fits_def short_list_def)

text \<open>The stubs of \<open>extent_client\<close> over whatever carries calls to the server are a store of extents.\<close>

locale extent_transport = transport call1 srv ready
  for call1 :: "u32 \<Rightarrow> marshall \<Rightarrow> 'w \<Rightarrow> ((u32 \<times> unmarshall) \<times> 'w) option"
    and srv :: "'w \<Rightarrow> extent_server rpcs" and ready :: "nat \<Rightarrow> 'w \<Rightarrow> bool"
begin

lemma get_calls:
  assumes "ready (Suc n) w \<and> ext_procs (srv w)" and "extent_server_get eid [] (rs_app (srv w)) = Some (b, d, s')"
    and "0 \<le> sint b" and "fits d"
  shows "\<exists>w'. extent_client_get call1 eid buf w = Some ((b, d), w') \<and> rs_app (srv w') = s' \<and> ready n w' \<and> ext_procs (srv w')"
proof -
  have rdy: "ready (Suc n) w" and h: "rs_procs (srv w) ext_get = Some h_get" using assms(1) by (simp_all add: ext_procs_def)
  have len: "length (be64 eid) + 24 < MARSH_LIMIT" "length (enc_string d) + 24 < MARSH_LIMIT" using assms(4) by (simp_all add: fits_def)
  obtain req ret w' where w': "call_req1 marshall_ulonglong eid = Some req" "call1 ext_get req w = Some (ret, w')"
      "call_m_result (unmarshall_string buf) buf ret = Some (b, d)" "rs_app (srv w') = s'" "ready n w'"
      "rs_procs (srv w') = rs_procs (srv w)"
    using m_get.transport_method [OF transport_axioms rdy _ h TrueI len(1) assms(2,3) fits_short [OF assms(4)] len(2), of buf buf] by auto
  then have "ext_procs (srv w')" using assms(1) ext_procs_same [OF w'(6)] by simp
  then show ?thesis using w' by (simp add: extent_client_get_def)
qed

lemma getattr_calls:
  assumes "ready (Suc n) w \<and> ext_procs (srv w)" and "rs_procs (srv w) ext_getattr = Some (h_getattr ra)"
    and "extent_server_getattr eid ra (rs_app (srv w)) = Some (b, d, s')" and "0 \<le> sint b"
  shows "\<exists>w'. extent_client_getattr call1 eid a w = Some ((b, d), w') \<and> rs_app (srv w') = s' \<and> ready n w' \<and> ext_procs (srv w')"
proof -
  have rdy: "ready (Suc n) w" using assms(1) by simp
  have len: "length (be64 eid) + 24 < MARSH_LIMIT" "length (enc_attr d) + 24 < MARSH_LIMIT" by (simp_all add: enc_attr_def)
  obtain req ret w' where w': "call_req1 marshall_ulonglong eid = Some req" "call1 ext_getattr req w = Some (ret, w')"
      "call_m_result unmarshall_attr a ret = Some (b, d)" "rs_app (srv w') = s'" "ready n w'"
      "rs_procs (srv w') = rs_procs (srv w)"
    using m_getattr.transport_method [OF transport_axioms rdy _ assms(2) TrueI len(1) assms(3,4) TrueI len(2), of a] by auto
  then have "ext_procs (srv w')" using assms(1) ext_procs_same [OF w'(6)] by simp
  then show ?thesis using w' by (simp add: extent_client_getattr_def)
qed

lemma put_calls:
  assumes "ready (Suc n) w \<and> ext_procs (srv w)" and "fits d"
  shows "\<exists>w' r s'. extent_client_put call1 r1 eid d w = Some (ext_OK, w') \<and>
    extent_server_put eid d r (rs_app (srv w)) = Some (ext_OK, r, s') \<and>
    rs_app (srv w') = s' \<and> ready n w' \<and> ext_procs (srv w')"
proof -
  from assms(1) obtain ri where ri: "rs_procs (srv w) ext_put = Some (h_put ri)" by (auto simp: ext_procs_def)
  obtain s' where s': "extent_server_put eid d ri (rs_app (srv w)) = Some (ext_OK, ri, s')"
    by (simp add: extent_server_put_def Let_def)
  have rdy: "ready (Suc n) w" using assms(1) by simp
  have len: "length (enc_pair be64 enc_string (eid, d)) + 24 < MARSH_LIMIT" "length (be32 ri) + 24 < MARSH_LIMIT"
    using assms(2) by (simp_all add: fits_def enc_pair_def)
  have meth: "(\<lambda>(eid, buf). extent_server_put eid buf) (eid, d) ri (rs_app (srv w)) = Some (ext_OK, ri, s')" using s' by simp
  have "True \<and> short_list (snd (eid, d))" using assms(2) by (simp add: fits_short)
  from m_put.transport_method [OF transport_axioms rdy _ ri [unfolded handler_tuple] this len(1) meth _ TrueI len(2), of r1] obtain req ret w'
    where w': "call_req2 marshall_ulonglong marshall_string eid d = Some req" "call1 ext_put req w = Some (ret, w')"
      "call_m_result unmarshall_int r1 ret = Some (ext_OK, ri)" "rs_app (srv w') = s'" "ready n w'"
      "rs_procs (srv w') = rs_procs (srv w)"
    by (auto simp: call_req_tuple)
  then have "ext_procs (srv w')" using assms(1) ext_procs_same [OF w'(6)] by simp
  then show ?thesis using w' s' by (auto simp: extent_client_put_def)
qed

end

sublocale extent_transport \<subseteq> store: extent_store "extent_client_get call1" "extent_client_put call1 r1"
  "extent_client_getattr call1" "\<lambda>w. es_data (rs_app (srv w))" "\<lambda>w. es_attr (rs_app (srv w))"
  "\<lambda>n w. ready n w \<and> ext_procs (srv w)" for r1
proof (unfold_locales, goal_cases)
  case (1 n w eid d b)
  then show ?case using get_calls [of n w eid ext_OK d _ b] by (auto simp: extent_server_get_def)
next
  case (2 n w eid b)
  then show ?case using get_calls [of n w eid ext_NOENT "[]" _ b] by (auto simp: extent_server_get_def fits_def)
next
  case (3 n w d eid)
  then show ?case
    using put_calls [of n w d r1 eid]
    by (auto simp: extent_server_put_def Let_def attr_put_def fun_eq_iff split: if_splits option.splits)
next
  case (4 n w eid a a0)
  then obtain ra where "rs_procs (srv w) ext_getattr = Some (h_getattr ra)" by (auto simp: ext_procs_def)
  then show ?case
    using 4 getattr_calls [of n w ra eid ext_OK a _ a0] by (auto simp: extent_server_getattr_def)
next
  case (5 n w eid a0)
  then obtain ra where "rs_procs (srv w) ext_getattr = Some (h_getattr ra)" by (auto simp: ext_procs_def)
  then show ?case
    using 5 getattr_calls [of n w ra eid ext_NOENT ra _ a0] by (auto simp: extent_server_getattr_def)
qed

text \<open>In particular over the network of \<open>Net\<close>.\<close>

interpretation ext: extent_transport net_call nt_srv net_ready
  by unfold_locales

abbreviation ext_ready :: "nat \<Rightarrow> extent_server net \<Rightarrow> bool" where
  "ext_ready n w \<equiv> net_ready n w \<and> ext_procs (nt_srv w)"

abbreviation net_data :: "extent_server net \<Rightarrow> extentid_t \<rightharpoonup> bytes" where
  "net_data w \<equiv> es_data (rs_app (nt_srv w))"

abbreviation net_attrs :: "extent_server net \<Rightarrow> extentid_t \<rightharpoonup> attr" where
  "net_attrs w \<equiv> es_attr (rs_app (nt_srv w))"

section \<open>Starting the service\<close>

text \<open>A freshly started extent server with one accepted connection, and a new client, which
  then binds as the constructor \<open>extent_client::extent_client\<close> does.\<close>

definition extent_boot :: "u32 \<Rightarrow> u32 \<Rightarrow> attr \<Rightarrow> u32 \<Rightarrow> u32 \<Rightarrow> cid \<Rightarrow> connection \<Rightarrow> extent_server net option" where
  "extent_boot srv_rnd ri ra clt_rnd lossy k kn = do {
     s \<leftarrow> extent_smain srv_rnd ri ra;
     Some (net_new clt_rnd lossy k kn s)
   }"

definition extent_client_new :: "u32 \<Rightarrow> extent_server net \<Rightarrow> extent_server net option" where
  "extent_client_new r1 w = do { (ret, w) \<leftarrow> net_bind r1 w; Some w }"

lemma extent_smain_ok:
  "\<exists>s. extent_smain rnd ri ra = Some s \<and> rs_nonce s = rnd \<and> rs_reply_window s = Map.empty \<and>
     rs_conns s = Map.empty \<and> rs_app s = extent_server_new \<and>
     rs_procs s = [rpc_bind \<mapsto> handler1 unmarshall_int marshall_int 0 (rpcbind rnd), ext_get \<mapsto> h_get,
       ext_getattr \<mapsto> h_getattr ra, ext_put \<mapsto> h_put ri, ext_remove \<mapsto> h_remove ri]"
  by (simp add: extent_smain_def rpcs_new_def reg1_def)

lemma extent_started:
  assumes "\<not> c_dead kn" and "1 \<le> c_refno kn"
  shows "\<exists>w w'. extent_boot srv_rnd ri ra clt_rnd lossy k kn = Some w \<and> extent_client_new r1 w = Some w' \<and>
    ext_ready 4294967293 w' \<and> rs_app (nt_srv w') = extent_server_new"
proof -
  obtain s where s: "extent_smain srv_rnd ri ra = Some s" "rs_nonce s = srv_rnd" "rs_reply_window s = Map.empty"
     "rs_conns s = Map.empty" "rs_app s = extent_server_new"
     "rs_procs s = [rpc_bind \<mapsto> handler1 unmarshall_int marshall_int 0 (rpcbind srv_rnd), ext_get \<mapsto> h_get,
       ext_getattr \<mapsto> h_getattr ra, ext_put \<mapsto> h_put ri, ext_remove \<mapsto> h_remove ri]"
    using extent_smain_ok by blast
  from net_started [OF assms s(3,4), of 0 r1 clt_rnd lossy k] s obtain w' where
    "net_bind r1 (net_new clt_rnd lossy k kn s) = Some (0, w')" "net_ready 4294967293 w'"
    "rs_app (nt_srv w') = rs_app s" "rs_procs (nt_srv w') = rs_procs s" by auto
  then show ?thesis using s by (auto simp: extent_boot_def extent_client_new_def ext_procs_def)
qed

lemma ext_ready_mono: "ext_ready n w \<Longrightarrow> m \<le> n \<Longrightarrow> ext_ready m w"
  by (auto simp: net_ready_def linked_def)

section \<open>Properties\<close>

text \<open>
  C11: Reading back what \<open>serialize\<close> wrote appends exactly the entries of the directory,
  except that a directory whose last entry has an empty name is rejected, with the entries
  before it already appended.
\<close>

theorem directory_roundtrip:
  assumes "length (serialize fl) < 4294967295"
  shows "deserialize (serialize fl) acc =
    Some (if fl \<noteq> [] \<and> snd (last fl) = [] then (False, acc @ butlast fl) else (True, acc @ fl))"
  using deserialize_serialize [OF assms] by (simp add: read_back_def)

theorem directory_roundtrip_witness:
  "deserialize (serialize [(1, [97]), (2, [])]) [] = Some (False, [(1, [97])]) \<and>
   deserialize (serialize [(1, []), (2, [98])]) [] = Some (True, [(1, []), (2, [98])])"
  using directory_roundtrip [of "[(1, [97]), (2, [])]" "[]"] directory_roundtrip [of "[(1, []), (2, [98])]" "[]"]
  by (simp add: serialize_def)

text \<open>
  A new extent server and a client that binds to it over a live connection are ready for
  \<open>2 ^ 32 - 3\<close> calls: the binding succeeds, and the server still has its initial extents.
\<close>

lemma extent_service_starts:
  assumes "\<not> c_dead kn" and "1 \<le> c_refno kn"
  shows "\<exists>w w'. extent_boot srv_rnd ri ra clt_rnd lossy k kn = Some w \<and> extent_client_new r1 w = Some w' \<and>
    ext_ready 4294967293 w' \<and> net_data w' = [1 \<mapsto> serialize []] \<and> net_attrs w' = [1 \<mapsto> attr_new]"
  using extent_started [OF assms, of srv_rnd ri ra clt_rnd lossy k r1] by (auto simp: extent_server_new_def)

text \<open>
  An extent written with \<open>extent_client::put\<close> is what \<open>extent_client::get\<close> returns, through
  marshalling, dispatch and the reply on both calls, and no other extent changes.
\<close>

lemma extent_put_get:
  assumes "ext_ready (Suc (Suc n)) w" and "fits d"
  shows "\<exists>w1 w2. extent_client_put net_call r1 eid d w = Some (ext_OK, w1) \<and>
    extent_client_get net_call eid b w1 = Some ((ext_OK, d), w2) \<and>
    net_data w2 = (net_data w)(eid \<mapsto> d) \<and> ext_ready n w2"
  using assms by (rule ext.store.put_get)

lemma sample_ext_ready:
  "\<exists>w. ext_ready 4294967293 w \<and> net_data w = [1 \<mapsto> serialize []] \<and> net_attrs w = [1 \<mapsto> attr_new]"
  using extent_started [of "fst (connection_new 3 0)" 9 0 attr_new 5 0 0 0]
  by (auto simp: connection_new_def extent_server_new_def)

definition es_inv :: "extent_server \<Rightarrow> bool" where
  "es_inv s \<longleftrightarrow>
     (\<forall>eid. (es_data s eid = None \<longleftrightarrow> es_attr s eid = None) \<and> es_attr s eid \<in> {None, Some attr_new})"

text \<open>
  Every method of the server keeps the invariant that an extent has data exactly when it
  has attributes, and that all attributes are zero; the constructor establishes it. So
  \<open>getattr\<close> reports size 0 for every extent, whatever was put there.
\<close>

lemma extent_server_invariant:
  "es_inv extent_server_new \<and>
   (\<forall>s. es_inv s \<longrightarrow>
     (\<forall>eid buf r b r' s'. extent_server_put eid buf r s = Some (b, r', s') \<longrightarrow> es_inv s') \<and>
     (\<forall>eid r b r' s'. extent_server_get eid r s = Some (b, r', s') \<longrightarrow> es_inv s') \<and>
     (\<forall>eid r b a s'. extent_server_getattr eid r s = Some (b, a, s') \<longrightarrow>
        es_inv s' \<and> (b = ext_OK \<longrightarrow> at_size a = 0)) \<and>
     (\<forall>eid r b r' s'. extent_server_remove eid r s = Some (b, r', s') \<longrightarrow> es_inv s'))"
proof (intro conjI allI impI)
  show "es_inv extent_server_new" by (auto simp: es_inv_def extent_server_new_def)
next
  fix s eid buf r b r' s' assume "es_inv s" "extent_server_put eid buf r s = Some (b, r', s')"
  then show "es_inv s'"
    by (auto simp: es_inv_def extent_server_put_def Let_def split: if_splits)
next
  fix s eid r b r' s' assume "es_inv s" "extent_server_get eid r s = Some (b, r', s')"
  then show "es_inv s'" by (auto simp: extent_server_get_def split: option.splits)
next
  fix s eid r b a s' assume "es_inv s" "extent_server_getattr eid r s = Some (b, a, s')"
  then show "es_inv s'" by (auto simp: extent_server_getattr_def split: option.splits)
next
  fix s eid r b a s' assume *: "es_inv s" "extent_server_getattr eid r s = Some (b, a, s')" "b = ext_OK"
  then have "es_attr s eid = Some a" by (auto simp: extent_server_getattr_def split: option.splits)
  with *(1) have "a = attr_new" by (metis es_inv_def insertE option.distinct(1) option.inject singletonD)
  then show "at_size a = 0" by (simp add: attr_new_def)
next
  fix s eid r b r' s' assume "es_inv s" "extent_server_remove eid r s = Some (b, r', s')"
  then show "es_inv s'" by (simp add: extent_server_remove_def)
qed

text \<open>
  A call of \<open>get\<close> whose arguments are not one 64-bit id (too few bytes, or too many) comes
  back with \<open>unmarshal_args_failure\<close>; the caller's buffer and the server's extents are as
  they were.
\<close>

lemma get_with_bad_arguments:
  assumes "call_ready A c s k ext_get" and "rs_procs s ext_get = Some h_get"
    and "marsh_wf req" and "m_contents req = replicate 24 None @ map Some args"
    and "length args + 24 < MARSH_LIMIT" and "length args \<noteq> 8"
  shows "call_yields c s k ext_get req (unmarshall_string buf) buf (unmarshal_args_failure, buf) (rs_app s)"
proof (rule call_yieldsI [OF assms(1-5), where body = "[]"])
  fix u assume u: "unm_wf u" "u_ok u" "u_rest u = args" "u_ind u \<le> u_sz u"
  obtain x where "unmarshall_ulonglong u = Some (x, adv 8 u)" using u(1) by (rule unmarshall_ulonglong_adv)
  moreover have "\<not> okdone (adv 8 u)" using u assms(6) by (simp add: okdone_adv)
  ultimately have "h_get u marshall_new (rs_app s) = Some (unmarshal_args_failure, marshall_new, rs_app s)"
    by (simp add: handler1_def)
  then show "\<exists>rep. h_get u marshall_new (rs_app s) = Some (unmarshal_args_failure, rep, rs_app s) \<and>
      marsh_wf rep \<and> m_contents rep = replicate 24 None @ map Some []"
    by (simp add: marsh_wf_new m_contents_new)
qed (simp_all add: call_m_result_def)

end
