(* ===== verification/Yfs.thy ===== *)
theory Yfs
  imports Extent
begin

text \<open>
  The file system client of \<open>yfs_client.h\<close> and \<open>yfs_client.cc\<close>, on top of \<open>extent_client\<close>. Its
  operations take the stubs \<open>ec->get\<close>, \<open>ec->put\<close> and \<open>ec->getattr\<close> as arguments; their
  properties are proved in the locale \<open>extent_store\<close>, which the theory \<open>Extent\<close> interprets on
  the stubs over the RPC layer.

  The abstract view of a directory is its list of entries: extent \<open>p\<close> holds
  \<open>serialize fl\<close>. \<open>lookup\<close> is a search in that list, \<open>createfile\<close> appends an entry for a new
  name and leaves every extent but the directory and the new file alone.
\<close>

section \<open>Inode numbers\<close>

type_synonym inum = u64

text \<open>\<open>rnd\<close> is the result of \<open>rand()\<close>.\<close>

definition new_inum :: "u32 \<Rightarrow> u32 \<Rightarrow> inum" where
  "new_inum rnd isfile = ucast ((rnd mod 0x7FFFFFFF) OR push_bit 31 isfile)"

definition isfile :: "inum \<Rightarrow> bool" where
  "isfile i \<longleftrightarrow> i AND 0x80000000 \<noteq> 0"

definition isdir :: "inum \<Rightarrow> bool" where
  "isdir i \<longleftrightarrow> \<not> isfile i"

section \<open>The operations\<close>

record fileinfo =
  fi_size :: u64
  fi_atime :: u64
  fi_mtime :: u64
  fi_ctime :: u64

record dirinfo =
  di_atime :: u64
  di_mtime :: u64
  di_ctime :: u64

abbreviation (input) yfs_OK :: u32 where "yfs_OK \<equiv> 0"
abbreviation (input) yfs_NOENT :: u32 where "yfs_NOENT \<equiv> 2"
abbreviation (input) yfs_IOERR :: u32 where "yfs_IOERR \<equiv> 3"

type_synonym 'w get_op = "extentid_t \<Rightarrow> bytes \<Rightarrow> 'w \<Rightarrow> ((u32 \<times> bytes) \<times> 'w) option"
type_synonym 'w put_op = "extentid_t \<Rightarrow> bytes \<Rightarrow> 'w \<Rightarrow> (u32 \<times> 'w) option"
type_synonym 'w getattr_op = "extentid_t \<Rightarrow> attr \<Rightarrow> 'w \<Rightarrow> ((u32 \<times> attr) \<times> 'w) option"

text \<open>\<open>a0\<close> is the uninitialised local \<open>a\<close>.\<close>

definition getfile :: "'w getattr_op \<Rightarrow> attr \<Rightarrow> inum \<Rightarrow> fileinfo \<Rightarrow> 'w \<Rightarrow> ((u32 \<times> fileinfo) \<times> 'w) option" where
  "getfile getattr a0 i fin w = do {
     ((r, a), w) \<leftarrow> getattr i a0 w;
     if r \<noteq> ext_OK then Some ((yfs_IOERR, fin), w)
     else Some ((yfs_OK, fin\<lparr>fi_atime := ucast (at_atime a), fi_mtime := ucast (at_mtime a),
                          fi_ctime := ucast (at_ctime a), fi_size := ucast (at_size a)\<rparr>), w)
   }"

definition getdir :: "'w getattr_op \<Rightarrow> attr \<Rightarrow> inum \<Rightarrow> dirinfo \<Rightarrow> 'w \<Rightarrow> ((u32 \<times> dirinfo) \<times> 'w) option" where
  "getdir getattr a0 i din w = do {
     ((r, a), w) \<leftarrow> getattr i a0 w;
     if r \<noteq> ext_OK then Some ((yfs_IOERR, din), w)
     else Some ((yfs_OK, din\<lparr>di_atime := ucast (at_atime a), di_mtime := ucast (at_mtime a),
                          di_ctime := ucast (at_ctime a)\<rparr>), w)
   }"

fun lookup_scan :: "bytes \<Rightarrow> filelist \<Rightarrow> extentid_t option" where
  "lookup_scan name [] = None"
| "lookup_scan name (it # fl) = (if snd it = name then Some (fst it) else lookup_scan name fl)"

definition yfs_lookup :: "'w get_op \<Rightarrow> inum \<Rightarrow> bytes \<Rightarrow> inum \<Rightarrow> 'w \<Rightarrow> ((u32 \<times> inum) \<times> 'w) option" where
  "yfs_lookup get p_id name i w = do {
     ((r, buf), w) \<leftarrow> get p_id [] w;
     if r \<noteq> ext_OK then Some ((yfs_IOERR, i), w)
     else do {
       (ok, fl) \<leftarrow> deserialize buf [];
       if ok then (case lookup_scan name fl of
                     Some j \<Rightarrow> Some ((yfs_OK, j), w)
                   | None \<Rightarrow> Some ((yfs_NOENT, i), w))
       else Some ((yfs_IOERR, i), w)
     }
   }"

definition yfs_readdir :: "'w get_op \<Rightarrow> inum \<Rightarrow> filelist \<Rightarrow> 'w \<Rightarrow> ((u32 \<times> filelist) \<times> 'w) option" where
  "yfs_readdir get i fl w = do {
     ((r, buf), w) \<leftarrow> get i [] w;
     if r \<noteq> ext_OK then Some ((yfs_IOERR, fl), w)
     else do {
       (ok, fl) \<leftarrow> deserialize buf fl;
       Some ((if ok then yfs_OK else yfs_IOERR, fl), w)
     }
   }"

definition createfile ::
  "'w get_op \<Rightarrow> 'w put_op \<Rightarrow> u32 \<Rightarrow> inum \<Rightarrow> bytes \<Rightarrow> inum \<Rightarrow> 'w \<Rightarrow> ((u32 \<times> inum) \<times> 'w) option" where
  "createfile get put rnd p_id name i w = do {
     ((r, i), w) \<leftarrow> yfs_lookup get p_id name i w;
     if r = yfs_OK then Some ((yfs_OK, i), w)
     else if r = yfs_NOENT then do {
       ((r, fl), w) \<leftarrow> yfs_readdir get p_id [] w;
       if r = yfs_OK then do {
         let i = new_inum rnd 1;
         let p_buf = serialize (fl @ [(i, name)]);
         (r, w) \<leftarrow> put p_id p_buf w;
         if r \<noteq> ext_OK then Some ((yfs_IOERR, i), w)
         else do {
           (r, w) \<leftarrow> put i [] w;
           if r \<noteq> ext_OK then Some ((yfs_IOERR, i), w) else Some ((yfs_OK, i), w)
         }
       } else Some ((yfs_IOERR, i), w)
     } else Some ((yfs_IOERR, i), w)
   }"

section \<open>Facts about inode numbers and directories\<close>

lemma isfile_bit: "isfile i \<longleftrightarrow> bit i 31"
  using and_exp_eq_0_iff_not_bit [of i 31] by (simp add: isfile_def)

lemma bit_31_of_bool: "b = 0 \<or> b = 1 \<Longrightarrow> bit (push_bit 31 (b :: u32)) 31 \<longleftrightarrow> b = 1"
  by (auto simp: bit_simps)

lemma isfile_new_inum: "b = 0 \<or> b = 1 \<Longrightarrow> isfile (new_inum rnd b) \<longleftrightarrow> b = 1"
proof -
  assume b: "b = 0 \<or> b = 1"
  have "rnd mod 0x7FFFFFFF < 0x7FFFFFFF" by (simp add: word_mod_less_divisor)
  then have "rnd mod 0x7FFFFFFF < 2 ^ 31" by (rule less_trans) simp
  then have "rnd mod 0x7FFFFFFF div 2 ^ 31 = 0" by (simp add: word_arith_nat_div word_less_nat_alt)
  then have "\<not> bit (rnd mod 0x7FFFFFFF) 31" by (simp add: bit_iff_odd)
  with b show ?thesis unfolding isfile_bit new_inum_def using bit_31_of_bool [OF b] by (simp add: bit_simps)
qed

text \<open>A directory extent: the image of a list of entries that \<open>deserialize\<close> accepts.\<close>

definition dir_at :: "(extentid_t \<rightharpoonup> bytes) \<Rightarrow> extentid_t \<Rightarrow> filelist \<Rightarrow> bool" where
  "dir_at D p fl \<longleftrightarrow> D p = Some (serialize fl) \<and> fits (serialize fl) \<and> (fl \<noteq> [] \<longrightarrow> snd (last fl) \<noteq> [])"

lemma deserialize_fits: "fits (serialize fl) \<Longrightarrow> deserialize (serialize fl) acc = Some (read_back acc fl)"
  by (rule deserialize_serialize) (simp add: fits_def)

lemma dir_at_deserialize: "dir_at D p fl \<Longrightarrow> deserialize (serialize fl) acc = Some (True, acc @ fl)"
  by (auto simp: dir_at_def deserialize_fits read_back_def)

lemma lookup_scan_append:
  "lookup_scan name (fl @ [(j, m)]) =
   (case lookup_scan name fl of Some k \<Rightarrow> Some k | None \<Rightarrow> if m = name then Some j else None)"
  by (induction fl) auto

context extent_store
begin

lemma lookup_dir:
  assumes "ready (Suc n) w" and "dir_at (data w) p fl"
  shows "\<exists>w'. yfs_lookup get p name i w =
      Some ((case lookup_scan name fl of Some j \<Rightarrow> (yfs_OK, j) | None \<Rightarrow> (yfs_NOENT, i)), w') \<and>
    data w' = data w \<and> attrs w' = attrs w \<and> ready n w'"
proof -
  from get_found [OF assms(1), of p "serialize fl" "[]"] assms(2) obtain w'
    where "get p [] w = Some ((ext_OK, serialize fl), w')" "data w' = data w" "attrs w' = attrs w" "ready n w'"
    by (auto simp: dir_at_def)
  with dir_at_deserialize [OF assms(2)] show ?thesis
    by (auto simp: yfs_lookup_def split: option.splits)
qed

lemma lookup_no_dir:
  assumes "ready (Suc n) w" and "data w p = None"
  shows "\<exists>w'. yfs_lookup get p name i w = Some ((yfs_IOERR, i), w') \<and>
    data w' = data w \<and> attrs w' = attrs w \<and> ready n w'"
  using get_missing [OF assms, of "[]"] by (auto simp: yfs_lookup_def)

lemma readdir_dir:
  assumes "ready (Suc n) w" and "dir_at (data w) p fl"
  shows "\<exists>w'. yfs_readdir get p acc w = Some ((yfs_OK, acc @ fl), w') \<and>
    data w' = data w \<and> attrs w' = attrs w \<and> ready n w'"
proof -
  from get_found [OF assms(1), of p "serialize fl" "[]"] assms(2) obtain w'
    where "get p [] w = Some ((ext_OK, serialize fl), w')" "data w' = data w" "attrs w' = attrs w" "ready n w'"
    by (auto simp: dir_at_def)
  with dir_at_deserialize [OF assms(2)] show ?thesis by (auto simp: yfs_readdir_def)
qed

lemma createfile_new:
  assumes rdy: "ready (Suc (Suc (Suc (Suc n)))) w" and dir: "dir_at (data w) p fl" and new: "lookup_scan name fl = None"
    and fits: "fits (serialize (fl @ [(new_inum rnd 1, name)]))"
  shows "\<exists>w'. createfile get put rnd p name i w = Some ((yfs_OK, new_inum rnd 1), w') \<and>
    data w' = (data w)(p \<mapsto> serialize (fl @ [(new_inum rnd 1, name)]), new_inum rnd 1 \<mapsto> []) \<and>
    attrs w' (new_inum rnd 1) = Some (attr_put (((attrs w)(p \<mapsto> attr_put (attrs w p))) (new_inum rnd 1))) \<and> ready n w'"
proof -
  let ?j = "new_inum rnd 1"
  obtain w1 where w1: "yfs_lookup get p name i w = Some ((yfs_NOENT, i), w1)" "data w1 = data w"
    "attrs w1 = attrs w" "ready (Suc (Suc (Suc n))) w1" using lookup_dir [OF rdy dir, of name i] new by auto
  obtain w2 where w2: "yfs_readdir get p [] w1 = Some ((yfs_OK, fl), w2)" "data w2 = data w"
    "attrs w2 = attrs w" "ready (Suc (Suc n)) w2" using readdir_dir [OF w1(4), of p fl "[]"] dir w1(2,3) by auto
  obtain w3 where w3: "put p (serialize (fl @ [(?j, name)])) w2 = Some (ext_OK, w3)"
    "data w3 = (data w)(p \<mapsto> serialize (fl @ [(?j, name)]))"
    "attrs w3 = (attrs w)(p \<mapsto> attr_put (attrs w p))" "ready (Suc n) w3"
    using put_stores [OF w2(4) fits, of p] w2(2,3) by auto
  obtain w4 where w4: "put ?j [] w3 = Some (ext_OK, w4)" "data w4 = (data w3)(?j \<mapsto> [])"
    "attrs w4 = (attrs w3)(?j \<mapsto> attr_put (attrs w3 ?j))" "ready n w4"
    using put_stores [OF w3(4), of "[]" ?j] by (auto simp: fits_def)
  from w1 w2 w3 w4 show ?thesis by (simp add: createfile_def Let_def)
qed

lemma createfile_existing:
  assumes "ready (Suc n) w" and "dir_at (data w) p fl" and "lookup_scan name fl = Some j"
  shows "\<exists>w'. createfile get put rnd p name i w = Some ((yfs_OK, j), w') \<and>
    data w' = data w \<and> attrs w' = attrs w \<and> ready n w'"
  using lookup_dir [OF assms(1,2), of name i] assms(3) by (auto simp: createfile_def)

lemma createfile_no_dir:
  assumes "ready (Suc n) w" and "data w p = None"
  shows "\<exists>w'. createfile get put rnd p name i w = Some ((yfs_IOERR, i), w') \<and>
    data w' = data w \<and> attrs w' = attrs w \<and> ready n w'"
  using lookup_no_dir [OF assms, of name i] by (auto simp: createfile_def)

text \<open>The directory after a creation is a directory again, with the new entry.\<close>

lemma createfile_dir:
  assumes rdy: "ready (Suc (Suc (Suc (Suc n)))) w" and dir: "dir_at (data w) p fl"
    and new: "lookup_scan name fl = None" and p: "isdir p" "name \<noteq> []"
    and fits: "fits (serialize (fl @ [(new_inum rnd 1, name)]))"
  shows "\<exists>w'. createfile get put rnd p name i w = Some ((yfs_OK, new_inum rnd 1), w') \<and>
    dir_at (data w') p (fl @ [(new_inum rnd 1, name)]) \<and> data w' (new_inum rnd 1) = Some [] \<and>
    (\<forall>x. x \<noteq> p \<longrightarrow> x \<noteq> new_inum rnd 1 \<longrightarrow> data w' x = data w x) \<and> ready n w'"
proof -
  have "new_inum rnd 1 \<noteq> p" using p(1) isfile_new_inum [of 1 rnd] by (auto simp: isdir_def)
  with createfile_new [OF rdy dir new fits, of i] fits p(2) show ?thesis
    by (auto simp: dir_at_def)
qed

lemma create_found:
  assumes "ready (Suc (Suc (Suc (Suc (Suc n))))) w" and "dir_at (data w) p fl" and "lookup_scan name fl = None"
    and "isdir p" and "name \<noteq> []" and "fits (serialize (fl @ [(new_inum rnd 1, name)]))"
  shows "\<exists>w1. createfile get put rnd p name i w = Some ((yfs_OK, new_inum rnd 1), w1) \<and> data w1 (new_inum rnd 1) = Some [] \<and>
    (\<forall>x. x \<noteq> p \<longrightarrow> x \<noteq> new_inum rnd 1 \<longrightarrow> data w1 x = data w x) \<and>
    (\<forall>m j. \<exists>w2. yfs_lookup get p m j w1 =
       Some ((if m = name then (yfs_OK, new_inum rnd 1)
              else case lookup_scan m fl of Some k \<Rightarrow> (yfs_OK, k) | None \<Rightarrow> (yfs_NOENT, j)), w2))"
proof -
  from createfile_dir [OF assms, of i] obtain w1
    where w1: "createfile get put rnd p name i w = Some ((yfs_OK, new_inum rnd 1), w1)"
      "dir_at (data w1) p (fl @ [(new_inum rnd 1, name)])" "data w1 (new_inum rnd 1) = Some []"
      "\<forall>x. x \<noteq> p \<longrightarrow> x \<noteq> new_inum rnd 1 \<longrightarrow> data w1 x = data w x" "ready (Suc n) w1" by blast
  have "\<exists>w2. yfs_lookup get p m j w1 =
       Some ((if m = name then (yfs_OK, new_inum rnd 1)
              else case lookup_scan m fl of Some k \<Rightarrow> (yfs_OK, k) | None \<Rightarrow> (yfs_NOENT, j)), w2)" for m j
    using lookup_dir [OF w1(5,2), of m j] assms(3)
    by (auto simp: lookup_scan_append split: option.splits if_splits)
  with w1 show ?thesis by blast
qed

end

section \<open>Properties\<close>

abbreviation y_get :: "extent_server net get_op" where
  "y_get \<equiv> extent_client_get net_call"

abbreviation y_put :: "u32 \<Rightarrow> extent_server net put_op" where
  "y_put r1 \<equiv> extent_client_put net_call r1"

text \<open>
  C2: Creating a file with a new, non-empty name in a directory succeeds; a lookup of the
  name then finds the new inode number, a lookup of any other name finds what it found
  before, the new file is empty, and no other extent has changed. All of it goes through the
  extent stubs, the RPC layer and the extent server.
\<close>

theorem create_then_lookup:
  assumes "ext_ready (Suc (Suc (Suc (Suc (Suc n))))) w" and "dir_at (net_data w) p fl"
    and "lookup_scan name fl = None" and "isdir p" and "name \<noteq> []"
    and "fits (serialize (fl @ [(new_inum rnd 1, name)]))"
  shows "\<exists>w1. createfile y_get (y_put r1) rnd p name i w = Some ((yfs_OK, new_inum rnd 1), w1) \<and>
    isfile (new_inum rnd 1) \<and> net_data w1 (new_inum rnd 1) = Some [] \<and>
    (\<forall>x. x \<noteq> p \<longrightarrow> x \<noteq> new_inum rnd 1 \<longrightarrow> net_data w1 x = net_data w x) \<and>
    (\<forall>m j. \<exists>w2. yfs_lookup y_get p m j w1 =
       Some ((if m = name then (yfs_OK, new_inum rnd 1)
              else case lookup_scan m fl of Some k \<Rightarrow> (yfs_OK, k) | None \<Rightarrow> (yfs_NOENT, j)), w2))"
  using ext.store.create_found [OF assms, of r1 i] isfile_new_inum [of 1 rnd] by blast

lemma dir_at_root: "net_data w = [1 \<mapsto> serialize []] \<Longrightarrow> dir_at (net_data w) 1 []"
  by (simp add: dir_at_def fits_def serialize_def)

lemma isdir_root: "isdir 1"
  by (simp add: isdir_def isfile_def)

theorem create_then_lookup_witness:
  "\<exists>w w1 w2. net_data w = [1 \<mapsto> serialize []] \<and>
     createfile y_get (y_put 0) 7 1 [97] 0 w = Some ((yfs_OK, new_inum 7 1), w1) \<and>
     yfs_lookup y_get 1 [97] 0 w1 = Some ((yfs_OK, new_inum 7 1), w2)"
proof -
  obtain w where w: "ext_ready 4294967293 w" "net_data w = [1 \<mapsto> serialize []]" using sample_ext_ready by blast
  have "ext_ready (Suc (Suc (Suc (Suc (Suc 0))))) w" by (rule ext_ready_mono [OF w(1)]) simp
  from create_then_lookup [OF this dir_at_root [OF w(2)] _ isdir_root, of "[97]" 7 0 0] obtain w1
    where w1: "createfile y_get (y_put 0) 7 1 [97] 0 w = Some ((yfs_OK, new_inum 7 1), w1)"
      "\<forall>m j. \<exists>w2. yfs_lookup y_get 1 m j w1 =
         Some ((if m = [97] then (yfs_OK, new_inum 7 1)
                else case lookup_scan m [] of Some k \<Rightarrow> (yfs_OK, k) | None \<Rightarrow> (yfs_NOENT, j)), w2)"
    by (auto simp: fits_def serialize_def)
  from w1(2) [rule_format, of "[97]" 0] obtain w2
    where "yfs_lookup y_get 1 [97] 0 w1 = Some ((yfs_OK, new_inum 7 1), w2)" by auto
  with w(2) w1(1) show ?thesis by blast
qed

text \<open>
  Creating a file whose name the directory already has returns the inode number the
  directory gives, and changes nothing on the server; in a directory that does not exist
  it fails with \<open>IOERR\<close>, and changes nothing either.
\<close>

lemma create_existing_or_missing:
  assumes "ext_ready (Suc n) w"
  shows "(\<forall>fl j. dir_at (net_data w) p fl \<and> lookup_scan name fl = Some j \<longrightarrow>
      (\<exists>w1. createfile y_get (y_put r1) rnd p name i w = Some ((yfs_OK, j), w1) \<and>
        net_data w1 = net_data w \<and> net_attrs w1 = net_attrs w)) \<and>
    (net_data w p = None \<longrightarrow>
      (\<exists>w1. createfile y_get (y_put r1) rnd p name i w = Some ((yfs_IOERR, i), w1) \<and>
        net_data w1 = net_data w \<and> net_attrs w1 = net_attrs w))"
  using ext.store.createfile_existing [OF assms, of p _ name _ r1 rnd i] ext.store.createfile_no_dir [OF assms, of p r1 rnd name i]
  by blast

text \<open>
  Creating a file with an empty name succeeds but makes the directory unreadable: every
  later lookup in it, of whatever name, fails with \<open>IOERR\<close>.
\<close>

lemma empty_name_breaks_directory:
  assumes "ext_ready (Suc (Suc (Suc (Suc (Suc n))))) w" and "dir_at (net_data w) p fl"
    and "lookup_scan [] fl = None" and "isdir p" and "fits (serialize (fl @ [(new_inum rnd 1, [])]))"
  shows "\<exists>w1. createfile y_get (y_put r1) rnd p [] i w = Some ((yfs_OK, new_inum rnd 1), w1) \<and>
    (\<forall>m j. \<exists>w2. yfs_lookup y_get p m j w1 = Some ((yfs_IOERR, j), w2))"
proof -
  let ?fl = "fl @ [(new_inum rnd 1, [])]"
  from ext.store.createfile_new [OF assms(1,2,3,5), of r1 i] obtain w1
    where w1: "createfile y_get (y_put r1) rnd p [] i w = Some ((yfs_OK, new_inum rnd 1), w1)"
      "net_data w1 = (net_data w)(p \<mapsto> serialize ?fl, new_inum rnd 1 \<mapsto> [])" "ext_ready (Suc n) w1" by blast
  have "new_inum rnd 1 \<noteq> p" using assms(4) isfile_new_inum [of 1 rnd] by (auto simp: isdir_def)
  then have "net_data w1 p = Some (serialize ?fl)" using w1(2) by auto
  moreover have "deserialize (serialize ?fl) [] = Some (False, fl)"
    using deserialize_fits [OF assms(5)] by (simp add: read_back_def)
  ultimately have "\<exists>w2. yfs_lookup y_get p m j w1 = Some ((yfs_IOERR, j), w2)" for m j
    using ext.store.get_found [OF w1(3) _ assms(5), of p "[]"] by (auto simp: yfs_lookup_def)
  with w1(1) show ?thesis by blast
qed

end
