(* ===== verification/Fuse.thy ===== *)
theory Fuse
  imports Yfs
begin

text \<open>
  The FUSE server of \<open>fuse.cc\<close>: its handlers translate requests of the kernel into calls of
  \<open>yfs_client\<close> and answer each with one reply. The replies (\<open>fuse_reply_err\<close> and so on) are values
  of the type \<open>fuse_reply\<close>; the operations of \<open>yfs_client\<close> take the extent stubs as arguments. The
  two functions of the FUSE library that lay out a directory entry, \<open>fuse_dirent_size\<close> and
  \<open>fuse_add_dirent\<close>, are parameters. \<open>main\<close>, which mounts the file system, is not modelled.
\<close>

section \<open>Replies\<close>

record stat =
  st_ino :: u64
  st_mode :: u32
  st_nlink :: u64
  st_size :: u64
  st_atime :: u64
  st_mtime :: u64
  st_ctime :: u64

text \<open>\<open>bzero(&st, sizeof(st)); st.st_ino = inum\<close>\<close>

definition stat_zero :: "inum \<Rightarrow> stat" where
  "stat_zero i = \<lparr>st_ino = i, st_mode = 0, st_nlink = 0, st_size = 0, st_atime = 0, st_mtime = 0, st_ctime = 0\<rparr>"

abbreviation (input) S_IFREG_0666 :: u32 where "S_IFREG_0666 \<equiv> 0x81B6"
abbreviation (input) S_IFDIR_0777 :: u32 where "S_IFDIR_0777 \<equiv> 0x41FF"

text \<open>The two timeouts of an entry are always 0. \<open>fuseserver_lookup\<close> leaves the generation
  uninitialised: \<open>None\<close>.\<close>

record fuse_entry_param =
  fe_ino :: u64
  fe_generation :: "u64 option"
  fe_attr :: stat

abbreviation (input) ENOENT :: nat where "ENOENT \<equiv> 2"
abbreviation (input) ENOTDIR :: nat where "ENOTDIR \<equiv> 20"
abbreviation (input) ENOSYS :: nat where "ENOSYS \<equiv> 38"

datatype fuse_reply =
    Reply_err nat
  | Reply_attr stat
  | Reply_create fuse_entry_param
  | Reply_entry fuse_entry_param
  | Reply_buf bytes
  | Reply_open
  | Reply_statfs nat nat

section \<open>The handlers\<close>

text \<open>\<open>a0\<close>, \<open>fin0\<close> and \<open>din0\<close> are uninitialised locals.\<close>

definition fuse_getattr ::
  "'w getattr_op \<Rightarrow> attr \<Rightarrow> fileinfo \<Rightarrow> dirinfo \<Rightarrow> inum \<Rightarrow> 'w \<Rightarrow> ((u32 \<times> stat) \<times> 'w) option" where
  "fuse_getattr getattr a0 fin0 din0 i w =
     (let st = stat_zero i in
      if isfile i then do {
        ((ret, info), w) \<leftarrow> getfile getattr a0 i fin0 w;
        if ret \<noteq> yfs_OK then Some ((ret, st), w)
        else Some ((yfs_OK, st\<lparr>st_mode := S_IFREG_0666, st_nlink := 1, st_atime := fi_atime info,
                              st_mtime := fi_mtime info, st_ctime := fi_ctime info, st_size := fi_size info\<rparr>), w)
      } else do {
        ((ret, info), w) \<leftarrow> getdir getattr a0 i din0 w;
        if ret \<noteq> yfs_OK then Some ((ret, st), w)
        else Some ((yfs_OK, st\<lparr>st_mode := S_IFDIR_0777, st_nlink := 2, st_atime := di_atime info,
                              st_mtime := di_mtime info, st_ctime := di_ctime info\<rparr>), w)
      })"

definition fuseserver_getattr ::
  "'w getattr_op \<Rightarrow> attr \<Rightarrow> fileinfo \<Rightarrow> dirinfo \<Rightarrow> inum \<Rightarrow> 'w \<Rightarrow> (fuse_reply \<times> 'w) option" where
  "fuseserver_getattr getattr a0 fin0 din0 ino w = do {
     ((ret, st), w) \<leftarrow> fuse_getattr getattr a0 fin0 din0 ino w;
     if ret \<noteq> yfs_OK then Some (Reply_err ENOENT, w) else Some (Reply_attr st, w)
   }"

text \<open>Not implemented by the program, which says so to the kernel.\<close>

definition fuseserver_setattr :: "inum \<Rightarrow> u32 \<Rightarrow> 'w \<Rightarrow> (fuse_reply \<times> 'w) option" where
  "fuseserver_setattr ino to_set w = (if 8 AND to_set \<noteq> 0 then Some (Reply_err ENOSYS, w) else Some (Reply_err ENOSYS, w))"

definition fuseserver_read :: "inum \<Rightarrow> u64 \<Rightarrow> u64 \<Rightarrow> 'w \<Rightarrow> (fuse_reply \<times> 'w) option" where
  "fuseserver_read ino sz off w = Some (Reply_err ENOSYS, w)"

definition fuseserver_write :: "inum \<Rightarrow> bytes \<Rightarrow> u64 \<Rightarrow> 'w \<Rightarrow> (fuse_reply \<times> 'w) option" where
  "fuseserver_write ino buf off w = Some (Reply_err ENOSYS, w)"

definition fuseserver_mkdir :: "inum \<Rightarrow> bytes \<Rightarrow> 'w \<Rightarrow> (fuse_reply \<times> 'w) option" where
  "fuseserver_mkdir parent name w = Some (Reply_err ENOSYS, w)"

definition fuseserver_unlink :: "inum \<Rightarrow> bytes \<Rightarrow> 'w \<Rightarrow> (fuse_reply \<times> 'w) option" where
  "fuseserver_unlink parent name w = Some (Reply_err ENOSYS, w)"

definition fuseserver_open :: "inum \<Rightarrow> 'w \<Rightarrow> (fuse_reply \<times> 'w) option" where
  "fuseserver_open ino w = Some (Reply_open, w)"

definition fuseserver_statfs :: "'w \<Rightarrow> (fuse_reply \<times> 'w) option" where
  "fuseserver_statfs w = Some (Reply_statfs 255 512, w)"

text \<open>\<open>rnd\<close> is the random number of \<open>createfile\<close>, \<open>i0\<close> the uninitialised \<open>id\<close>.\<close>

definition fuseserver_createhelper ::
  "'w get_op \<Rightarrow> 'w put_op \<Rightarrow> 'w getattr_op \<Rightarrow> attr \<Rightarrow> fileinfo \<Rightarrow> dirinfo \<Rightarrow> u32 \<Rightarrow> inum \<Rightarrow> inum \<Rightarrow> bytes \<Rightarrow> 'w \<Rightarrow>
   ((u32 \<times> fuse_entry_param option) \<times> 'w) option" where
  "fuseserver_createhelper get put getattr a0 fin0 din0 rnd i0 parent name w = do {
     ((r, i), w) \<leftarrow> createfile get put rnd parent name i0 w;
     if r = yfs_OK then do {
       ((r, st), w) \<leftarrow> fuse_getattr getattr a0 fin0 din0 i w;
       if r = yfs_OK then Some ((yfs_OK, Some \<lparr>fe_ino = i, fe_generation = Some 0, fe_attr = st\<rparr>), w)
       else Some ((r, None), w)
     } else Some ((r, None), w)
   }"

definition fuseserver_create ::
  "'w get_op \<Rightarrow> 'w put_op \<Rightarrow> 'w getattr_op \<Rightarrow> attr \<Rightarrow> fileinfo \<Rightarrow> dirinfo \<Rightarrow> u32 \<Rightarrow> inum \<Rightarrow> inum \<Rightarrow> bytes \<Rightarrow> 'w \<Rightarrow>
   (fuse_reply \<times> 'w) option" where
  "fuseserver_create get put getattr a0 fin0 din0 rnd i0 parent name w = do {
     ((r, e), w) \<leftarrow> fuseserver_createhelper get put getattr a0 fin0 din0 rnd i0 parent name w;
     if r = yfs_OK then do { e \<leftarrow> e; Some (Reply_create e, w) } else Some (Reply_err ENOENT, w)
   }"

definition fuseserver_mknod ::
  "'w get_op \<Rightarrow> 'w put_op \<Rightarrow> 'w getattr_op \<Rightarrow> attr \<Rightarrow> fileinfo \<Rightarrow> dirinfo \<Rightarrow> u32 \<Rightarrow> inum \<Rightarrow> inum \<Rightarrow> bytes \<Rightarrow> 'w \<Rightarrow>
   (fuse_reply \<times> 'w) option" where
  "fuseserver_mknod get put getattr a0 fin0 din0 rnd i0 parent name w = do {
     ((r, e), w) \<leftarrow> fuseserver_createhelper get put getattr a0 fin0 din0 rnd i0 parent name w;
     if r = yfs_OK then do { e \<leftarrow> e; Some (Reply_entry e, w) } else Some (Reply_err ENOENT, w)
   }"

definition fuseserver_lookup ::
  "'w get_op \<Rightarrow> 'w getattr_op \<Rightarrow> attr \<Rightarrow> fileinfo \<Rightarrow> dirinfo \<Rightarrow> inum \<Rightarrow> inum \<Rightarrow> bytes \<Rightarrow> 'w \<Rightarrow> (fuse_reply \<times> 'w) option" where
  "fuseserver_lookup get getattr a0 fin0 din0 i0 parent name w = do {
     ((ret, i), w) \<leftarrow> yfs_lookup get parent name i0 w;
     if ret = yfs_OK then do {
       ((r, st), w) \<leftarrow> fuse_getattr getattr a0 fin0 din0 i w;
       if r = yfs_OK then Some (Reply_entry \<lparr>fe_ino = i, fe_generation = None, fe_attr = st\<rparr>, w)
       else Some (Reply_err ENOENT, w)
     } else Some (Reply_err ENOENT, w)
   }"

section \<open>Reading a directory\<close>

record dirbuf =
  db_p :: bytes
  db_size :: nat

text \<open>The part of a name that a C string has.\<close>

definition c_str :: "bytes \<Rightarrow> bytes" where
  "c_str s = takeWhile (\<lambda>b. b \<noteq> 0) s"

definition dirbuf_add ::
  "(nat \<Rightarrow> nat) \<Rightarrow> (bytes \<Rightarrow> u64 \<Rightarrow> nat \<Rightarrow> bytes) \<Rightarrow> dirbuf \<Rightarrow> bytes \<Rightarrow> u64 \<Rightarrow> dirbuf" where
  "dirbuf_add dirent_size add_dirent b name ino =
     (let sz = db_size b + dirent_size (length name)
      in \<lparr>db_p = take (db_size b) (db_p b) @ add_dirent name ino sz, db_size = sz\<rparr>)"

text \<open>\<open>off\<close> is compared as an unsigned number.\<close>

definition reply_buf_limited :: "bytes \<Rightarrow> nat \<Rightarrow> u64 \<Rightarrow> nat \<Rightarrow> fuse_reply" where
  "reply_buf_limited buf bufsize off maxsize =
     (if unat off < bufsize then Reply_buf (take (min (bufsize - unat off) maxsize) (drop (unat off) buf))
      else Reply_buf [])"

definition fuseserver_readdir ::
  "(nat \<Rightarrow> nat) \<Rightarrow> (bytes \<Rightarrow> u64 \<Rightarrow> nat \<Rightarrow> bytes) \<Rightarrow> 'w get_op \<Rightarrow> inum \<Rightarrow> nat \<Rightarrow> u64 \<Rightarrow> 'w \<Rightarrow> (fuse_reply \<times> 'w) option" where
  "fuseserver_readdir dirent_size add_dirent get ino sz off w =
     (if \<not> isdir ino then Some (Reply_err ENOTDIR, w)
      else do {
        ((r, fl), w) \<leftarrow> yfs_readdir get ino [] w;
        let b = (if r = yfs_OK
                 then foldl (\<lambda>b it. dirbuf_add dirent_size add_dirent b (c_str (snd it)) (fst it))
                        \<lparr>db_p = [], db_size = 0\<rparr> fl
                 else \<lparr>db_p = [], db_size = 0\<rparr>);
        Some (reply_buf_limited (db_p b) (db_size b) off sz, w)
      })"

text \<open>The reader on the other side: it asks for one page after the other until one is empty.\<close>

fun read_pages :: "(u64 \<Rightarrow> 'w \<Rightarrow> (fuse_reply \<times> 'w) option) \<Rightarrow> nat \<Rightarrow> u64 \<Rightarrow> 'w \<Rightarrow> (bytes \<times> 'w) option" where
  "read_pages rd 0 off w = None"
| "read_pages rd (Suc n) off w = do {
     (r, w) \<leftarrow> rd off w;
     (case r of
        Reply_buf b \<Rightarrow>
          if b = [] then Some ([], w)
          else do { (bs, w) \<leftarrow> read_pages rd n (off + of_nat (length b)) w; Some (b @ bs, w) }
      | _ \<Rightarrow> None)
   }"

section \<open>The handlers over a store of extents\<close>

definition file_stat :: "inum \<Rightarrow> attr \<Rightarrow> stat" where
  "file_stat i a = \<lparr>st_ino = i, st_mode = S_IFREG_0666, st_nlink = 1, st_size = ucast (at_size a),
     st_atime = ucast (at_atime a), st_mtime = ucast (at_mtime a), st_ctime = ucast (at_ctime a)\<rparr>"

definition dirbuf_image :: "(nat \<Rightarrow> nat) \<Rightarrow> (bytes \<Rightarrow> u64 \<Rightarrow> nat \<Rightarrow> bytes) \<Rightarrow> filelist \<Rightarrow> dirbuf" where
  "dirbuf_image ds ad fl =
     foldl (\<lambda>b it. dirbuf_add ds ad b (c_str (snd it)) (fst it)) \<lparr>db_p = [], db_size = 0\<rparr> fl"

text \<open>What the FUSE manual promises: \<open>fuse_add_dirent\<close> fills as many bytes as
  \<open>fuse_dirent_size\<close> says.\<close>

definition dirents_ok :: "(nat \<Rightarrow> nat) \<Rightarrow> (bytes \<Rightarrow> u64 \<Rightarrow> nat \<Rightarrow> bytes) \<Rightarrow> bool" where
  "dirents_ok ds ad \<longleftrightarrow> (\<forall>name ino off. length (ad name ino off) = ds (length name))"

lemma take_then_drop: "take m (drop i xs) @ drop (i + length (take m (drop i xs))) xs = drop i xs"
proof (cases "m \<le> length (drop i xs)")
  case True
  then have "length (take m (drop i xs)) = m" by simp
  then show ?thesis using append_take_drop_id [of m "drop i xs"] by (simp add: add.commute)
qed simp

lemma dirbuf_image_size: "dirents_ok ds ad \<Longrightarrow> db_size (dirbuf_image ds ad fl) = length (db_p (dirbuf_image ds ad fl))"
  unfolding dirbuf_image_def
  by (induction fl rule: rev_induct) (auto simp: dirbuf_add_def dirents_ok_def Let_def)

lemma reply_buf_limited_whole:
  "db_size b = length (db_p b) \<Longrightarrow>
   reply_buf_limited (db_p b) (db_size b) off sz = Reply_buf (take sz (drop (unat off) (db_p b)))"
  by (simp add: reply_buf_limited_def min_def)

context extent_store
begin

lemma fuse_getattr_file:
  assumes "ready (Suc n) w" and "attrs w i = Some a" and "isfile i"
  shows "\<exists>w'. fuse_getattr getattr a0 fin0 din0 i w = Some ((yfs_OK, file_stat i a), w') \<and>
    data w' = data w \<and> attrs w' = attrs w \<and> ready n w'"
proof -
  from getattr_found [OF assms(1,2), of a0] obtain w'
    where "getattr i a0 w = Some ((ext_OK, a), w')" "data w' = data w" "attrs w' = attrs w" "ready n w'" by blast
  then show ?thesis using assms(3) by (simp add: fuse_getattr_def getfile_def file_stat_def stat_zero_def Let_def)
qed

lemma fuse_create_new:
  assumes rdy: "ready (Suc (Suc (Suc (Suc (Suc n))))) w" and dir: "dir_at (data w) p fl"
    and new: "lookup_scan name fl = None" and p: "isdir p"
    and fits: "fits (serialize (fl @ [(new_inum rnd 1, name)]))" and fresh: "attrs w (new_inum rnd 1) \<in> {None, Some attr_new}"
  shows "\<exists>w'. fuseserver_create get put getattr a0 fin0 din0 rnd i0 p name w =
      Some (Reply_create \<lparr>fe_ino = new_inum rnd 1, fe_generation = Some 0, fe_attr = file_stat (new_inum rnd 1) attr_new\<rparr>, w') \<and>
    data w' = (data w)(p \<mapsto> serialize (fl @ [(new_inum rnd 1, name)]), new_inum rnd 1 \<mapsto> []) \<and>
    attrs w' (new_inum rnd 1) = Some attr_new \<and> ready n w'"
proof -
  let ?j = "new_inum rnd 1"
  have j: "isfile ?j" "?j \<noteq> p" using p isfile_new_inum [of 1 rnd] by (auto simp: isdir_def)
  from createfile_new [OF rdy dir new fits, of i0] obtain w1
    where w1: "createfile get put rnd p name i0 w = Some ((yfs_OK, ?j), w1)"
      "data w1 = (data w)(p \<mapsto> serialize (fl @ [(?j, name)]), ?j \<mapsto> [])" "ready (Suc n) w1"
      "attrs w1 ?j = Some (attr_put (((attrs w)(p \<mapsto> attr_put (attrs w p))) ?j))" by blast
  have "attrs w1 ?j = Some attr_new" using w1(4) fresh j(2) by (auto simp: attr_put_def)
  from fuse_getattr_file [OF w1(3) this j(1), of a0 fin0 din0] w1(1,2) \<open>attrs w1 ?j = Some attr_new\<close>
  show ?thesis by (auto simp: fuseserver_create_def fuseserver_createhelper_def)
qed

lemma fuse_lookup_file:
  assumes rdy: "ready (Suc (Suc n)) w" and dir: "dir_at (data w) p fl" and found: "lookup_scan name fl = Some j"
    and a: "attrs w j = Some a" "isfile j"
  shows "\<exists>w'. fuseserver_lookup get getattr a0 fin0 din0 i0 p name w =
      Some (Reply_entry \<lparr>fe_ino = j, fe_generation = None, fe_attr = file_stat j a\<rparr>, w') \<and> ready n w'"
proof -
  from lookup_dir [OF rdy dir, of name i0] found obtain w1
    where w1: "yfs_lookup get p name i0 w = Some ((yfs_OK, j), w1)" "attrs w1 = attrs w" "ready (Suc n) w1" by auto
  from fuse_getattr_file [OF w1(3), of j a a0 fin0 din0] a w1 show ?thesis by (auto simp: fuseserver_lookup_def)
qed

lemma fuse_readdir_page:
  assumes rdy: "ready (Suc n) w" and dir: "dir_at (data w) p fl" and p: "isdir p" and d: "dirents_ok ds ad"
  shows "\<exists>w'. fuseserver_readdir ds ad get p sz off w =
      Some (Reply_buf (take sz (drop (unat off) (db_p (dirbuf_image ds ad fl)))), w') \<and> data w' = data w \<and> ready n w'"
proof -
  from readdir_dir [OF rdy dir, of "[]"] obtain w1
    where w1: "yfs_readdir get p [] w = Some ((yfs_OK, fl), w1)" "data w1 = data w" "ready n w1" by auto
  with reply_buf_limited_whole [OF dirbuf_image_size [OF d]] p show ?thesis
    by (simp add: fuseserver_readdir_def dirbuf_image_def [symmetric])
qed

lemma fuse_readdir_missing:
  assumes rdy: "ready (Suc n) w" and "data w p = None" and p: "isdir p"
  shows "\<exists>w'. fuseserver_readdir ds ad get p sz off w = Some (Reply_buf [], w') \<and> data w' = data w"
  using get_missing [OF rdy assms(2), of "[]"] p by (auto simp: fuseserver_readdir_def yfs_readdir_def reply_buf_limited_def)

lemma read_pages_rest:
  assumes d: "dirents_ok ds ad" and p: "isdir p" and sz: "0 < sz" and len: "length img < 2 ^ 64"
    and img: "img = db_p (dirbuf_image ds ad fl)"
  shows "ready (Suc n) w \<Longrightarrow> dir_at (data w) p fl \<Longrightarrow> unat off \<le> length img \<Longrightarrow> length img \<le> unat off + n * sz \<Longrightarrow>
    \<exists>w'. read_pages (fuseserver_readdir ds ad get p sz) (Suc n) off w = Some (drop (unat off) img, w') \<and> data w' = data w"
proof (induction n arbitrary: off w)
  case 0
  from fuse_readdir_page [OF 0(1,2) p d, of sz off] 0 show ?case by (auto simp: img)
next
  case (Suc n)
  let ?b = "take sz (drop (unat off) img)"
  from fuse_readdir_page [OF Suc.prems(1,2) p d, of sz off] obtain w1
    where w1: "fuseserver_readdir ds ad get p sz off w = Some (Reply_buf ?b, w1)" "data w1 = data w" "ready (Suc n) w1"
    by (auto simp: img)
  show ?case
  proof (cases "?b = []")
    case True
    then show ?thesis using w1 sz by auto
  next
    case False
    have off: "unat (off + of_nat (length ?b)) = unat off + length ?b"
      using len Suc.prems(3) by (simp add: unat_word_ariths(1) unat_of_nat)
    have "unat off + length ?b \<le> length img" "length img \<le> unat off + length ?b + n * sz"
      using Suc.prems(3,4) by auto
    with Suc.IH [OF w1(3), of "off + of_nat (length ?b)"] off w1(2) Suc.prems(2) obtain w2
      where w2: "read_pages (fuseserver_readdir ds ad get p sz) (Suc n) (off + of_nat (length ?b)) w1 =
          Some (drop (unat off + length ?b) img, w2)" "data w2 = data w" by auto
    have "?b @ drop (unat off + length ?b) img = drop (unat off) img" by (rule take_then_drop)
    then show ?thesis using w1(1) w2 False by (simp del: read_pages.simps add: read_pages.simps(2) [of _ "Suc n"])
  qed
qed

end

section \<open>Properties\<close>

abbreviation y_getattr :: "extent_server net getattr_op" where
  "y_getattr \<equiv> extent_client_getattr net_call"

text \<open>
  C20: A file that the kernel creates is there. \<open>create\<close> of a new, non-empty name in a directory
  replies with a new regular file of size 0, and a \<open>lookup\<close> of that name then replies with the
  same inode number and the same attributes, through \<open>yfs_client\<close>, the extent stubs, the RPC
  layer and the extent server.
\<close>

theorem fuse_create_then_lookup:
  assumes "ext_ready (Suc (Suc (Suc (Suc (Suc (Suc (Suc n))))))) w" and "dir_at (net_data w) p fl"
    and "lookup_scan name fl = None" and "isdir p" and "name \<noteq> []"
    and "fits (serialize (fl @ [(new_inum rnd 1, name)]))" and "net_attrs w (new_inum rnd 1) \<in> {None, Some attr_new}"
  shows "\<exists>e w1 w2. fuseserver_create y_get (y_put r1) y_getattr a0 fin0 din0 rnd i0 p name w = Some (Reply_create e, w1) \<and>
    fe_ino e = new_inum rnd 1 \<and> st_mode (fe_attr e) = S_IFREG_0666 \<and> st_size (fe_attr e) = 0 \<and>
    fuseserver_lookup y_get y_getattr a1 fin1 din1 i1 p name w1 = Some (Reply_entry (e\<lparr>fe_generation := None\<rparr>), w2)"
proof -
  let ?j = "new_inum rnd 1"
  have j: "isfile ?j" "?j \<noteq> p" using assms(4) isfile_new_inum [of 1 rnd] by (auto simp: isdir_def)
  from ext.store.fuse_create_new [OF assms(1-4,6,7), of r1 a0 fin0 din0 i0] obtain w1
    where w1: "fuseserver_create y_get (y_put r1) y_getattr a0 fin0 din0 rnd i0 p name w =
        Some (Reply_create \<lparr>fe_ino = ?j, fe_generation = Some 0, fe_attr = file_stat ?j attr_new\<rparr>, w1)"
      "net_data w1 = (net_data w)(p \<mapsto> serialize (fl @ [(?j, name)]), ?j \<mapsto> [])"
      "net_attrs w1 ?j = Some attr_new" "ext_ready (Suc (Suc n)) w1" by blast
  have "dir_at (net_data w1) p (fl @ [(?j, name)])" using w1(2) j(2) assms(5,6) by (auto simp: dir_at_def)
  moreover have "lookup_scan name (fl @ [(?j, name)]) = Some ?j" using assms(3) by (simp add: lookup_scan_append)
  ultimately obtain w2 where "fuseserver_lookup y_get y_getattr a1 fin1 din1 i1 p name w1 =
      Some (Reply_entry \<lparr>fe_ino = ?j, fe_generation = None, fe_attr = file_stat ?j attr_new\<rparr>, w2)"
    using ext.store.fuse_lookup_file [OF w1(4) _ _ w1(3) j(1)] by blast
  with w1(1) show ?thesis by (auto simp: file_stat_def attr_new_def)
qed

theorem fuse_create_then_lookup_witness:
  "\<exists>w e w1. fuseserver_create y_get (y_put 0) y_getattr attr_new \<lparr>fi_size = 0, fi_atime = 0, fi_mtime = 0, fi_ctime = 0\<rparr>
     \<lparr>di_atime = 0, di_mtime = 0, di_ctime = 0\<rparr> 7 0 1 [97] w = Some (Reply_create e, w1) \<and> fe_ino e = new_inum 7 1"
proof -
  let ?f = "\<lparr>fi_size = 0, fi_atime = 0, fi_mtime = 0, fi_ctime = 0\<rparr>" and ?d = "\<lparr>di_atime = 0, di_mtime = 0, di_ctime = 0\<rparr>"
  obtain w where w: "ext_ready 4294967293 w" "net_data w = [1 \<mapsto> serialize []]" "net_attrs w = [1 \<mapsto> attr_new]"
    using sample_ext_ready by blast
  have r: "ext_ready (Suc (Suc (Suc (Suc (Suc (Suc (Suc 0))))))) w" by (rule ext_ready_mono [OF w(1)]) simp
  have f: "fits (serialize ([] @ [(new_inum 7 1, [97])]))" by (simp add: fits_def serialize_def)
  have a: "net_attrs w (new_inum 7 1) \<in> {None, Some attr_new}" using w(3) by simp
  have n: "lookup_scan [97] [] = None" "[97 :: u8] \<noteq> []" by simp_all
  show ?thesis
    using fuse_create_then_lookup [OF r dir_at_root [OF w(2)] n(1) isdir_root n(2) f a, of 0 attr_new ?f ?d 0 attr_new ?f ?d 0]
    by blast
qed



text \<open>
  \<open>readdir\<close> of a directory that cannot be read replies with success and no entries; the status
  of \<open>yfs_client::readdir\<close> is lost. Only an inode number of a file gets an error, \<open>ENOTDIR\<close>.
\<close>

lemma readdir_hides_errors:
  assumes "ext_ready (Suc n) w" and "net_data w p = None"
  shows "if isdir p then \<exists>w'. fuseserver_readdir ds ad y_get p sz off w = Some (Reply_buf [], w')
    else fuseserver_readdir ds ad y_get p sz off w = Some (Reply_err ENOTDIR, w)"
  using ext.store.fuse_readdir_missing [OF assms, of ds ad sz off] by (auto simp: fuseserver_readdir_def)

end
