(* ===== verification/Addr.thy ===== *)
theory Addr
  imports Prelude
begin

text \<open>
  The address functions of \<open>rpc/rpc.cc\<close>: \<open>make_sockaddr\<close>, which splits \<open>host:port\<close>, and the order on
  addresses. C strings are lists of bytes without the terminating null byte. \<open>inet_addr\<close> and
  \<open>gethostbyname\<close> look at the network configuration: they are parameters, the first with
  \<open>None\<close> for \<open>INADDR_NONE\<close>, the second with \<open>None\<close> for a host that is not found or has no
  four-byte address.
\<close>

record sockaddr_in =
  sin_addr :: u32
  sin_port :: u16

text \<open>\<open>operator<\<close>\<close>

definition sockaddr_less :: "sockaddr_in \<Rightarrow> sockaddr_in \<Rightarrow> bool" where
  "sockaddr_less a b \<longleftrightarrow>
     sin_addr a < sin_addr b \<or> (sin_addr a = sin_addr b \<and> sin_port a < sin_port b)"

text \<open>\<open>atoi\<close>: blanks, a sign, digits up to the first other character. \<open>strtol\<close> reads a long and the
  result is cut to an \<open>int\<close>; only its low 16 bits matter to \<open>htons\<close>.\<close>

definition is_digit :: "u8 \<Rightarrow> bool" where
  "is_digit c \<longleftrightarrow> 48 \<le> c \<and> c \<le> 57"

definition is_space :: "u8 \<Rightarrow> bool" where
  "is_space c \<longleftrightarrow> c = 32 \<or> 9 \<le> c \<and> c \<le> 13"

definition digits_value :: "bytes \<Rightarrow> int" where
  "digits_value ds = foldl (\<lambda>n c. 10 * n + (uint c - 48)) 0 ds"

definition atoi :: "bytes \<Rightarrow> int" where
  "atoi s =
     (let s = dropWhile is_space s in
      case s of
        [] \<Rightarrow> 0
      | c # r \<Rightarrow>
          if c = 45 then - digits_value (takeWhile is_digit r)
          else if c = 43 then digits_value (takeWhile is_digit r)
          else digits_value (takeWhile is_digit s))"

text \<open>On the little-endian machines the program runs on, \<open>htons\<close> swaps the two bytes.\<close>

definition htons :: "u16 \<Rightarrow> u16" where
  "htons x = push_bit 8 x OR drop_bit 8 x"

text \<open>\<open>None\<close>: the host is not found and the process exits.\<close>

definition make_sockaddr2 ::
  "(bytes \<Rightarrow> u32 option) \<Rightarrow> (bytes \<Rightarrow> u32 option) \<Rightarrow> bytes \<Rightarrow> bytes \<Rightarrow> sockaddr_in option" where
  "make_sockaddr2 inet_addr gethostbyname host port = do {
     a \<leftarrow> (case inet_addr host of
            Some a \<Rightarrow> Some a
          | None \<Rightarrow> gethostbyname host);
     Some \<lparr>sin_addr = a, sin_port = htons (of_int (atoi port))\<rparr>
   }"

abbreviation (input) colon :: u8 where "colon \<equiv> 58"

text \<open>``127.0.0.1''\<close>

definition localhost :: bytes where
  "localhost = [49, 50, 55, 46, 48, 46, 48, 46, 49]"

text \<open>The local array \<open>host\<close> has 200 bytes: a longer host part is copied out of bounds.\<close>

definition make_sockaddr ::
  "(bytes \<Rightarrow> u32 option) \<Rightarrow> (bytes \<Rightarrow> u32 option) \<Rightarrow> bytes \<Rightarrow> sockaddr_in option" where
  "make_sockaddr inet_addr gethostbyname hostandport =
     (if colon \<notin> set hostandport then make_sockaddr2 inet_addr gethostbyname localhost hostandport
      else let n = length (takeWhile (\<lambda>c. c \<noteq> colon) hostandport) in
        if 200 \<le> n then None
        else make_sockaddr2 inet_addr gethostbyname (take n hostandport) (drop (n + 1) hostandport))"

section \<open>Numbers in decimal\<close>

text \<open>The decimal digits of a number, most significant first, as \<open>printf\<close> writes them.\<close>

fun decimal :: "nat \<Rightarrow> bytes" where
  "decimal n = (if n < 10 then [of_nat (48 + n)] else decimal (n div 10) @ [of_nat (48 + n mod 10)])"

declare decimal.simps [simp del]

lemma digit_byte:
  assumes "d < 10"
  shows "is_digit (of_nat (48 + d))" and "uint (of_nat (48 + d) :: u8) = 48 + int d"
proof -
  have "unat (of_nat (48 + d) :: u8) = 48 + d" using assms by (simp add: unat_of_nat del: of_nat_add)
  then have u: "uint (of_nat (48 + d) :: u8) = 48 + int d" unfolding uint_nat by simp
  then show "uint (of_nat (48 + d) :: u8) = 48 + int d" .
  show "is_digit (of_nat (48 + d))" using u assms by (simp add: is_digit_def word_le_def del: of_nat_add)
qed

lemma decimal_digits: "c \<in> set (decimal n) \<Longrightarrow> is_digit c"
proof (induction n rule: decimal.induct)
  case (1 n)
  then show ?case
    using digit_byte(1) [of n] digit_byte(1) [of "n mod 10"] by (subst (asm) decimal.simps) (auto split: if_splits)
qed

lemma decimal_value: "digits_value (decimal n) = int n"
proof (induction n rule: decimal.induct)
  case (1 n)
  show ?case
  proof (cases "n < 10")
    case True
    then show ?thesis using digit_byte(2) [of n] by (simp add: decimal.simps digits_value_def)
  next
    case False
    then have "digits_value (decimal n) = 10 * digits_value (decimal (n div 10)) + int (n mod 10)"
      using digit_byte(2) [of "n mod 10"] by (subst decimal.simps) (simp add: digits_value_def)
    then show ?thesis using 1 [OF False] by simp presburger
  qed
qed

lemma decimal_nonempty: "decimal n \<noteq> []"
  by (subst decimal.simps) simp

lemma atoi_decimal: "atoi (decimal n) = int n"
proof -
  obtain c r where c: "decimal n = c # r" using decimal_nonempty by (cases "decimal n") auto
  have d: "\<forall>x \<in> set (c # r). is_digit x" using decimal_digits c by metis
  then have "\<not> is_space c" "c \<noteq> 45" "c \<noteq> 43" by (auto simp: is_digit_def is_space_def word_le_nat_alt)
  then have "atoi (c # r) = digits_value (takeWhile is_digit (c # r))" by (simp add: atoi_def Let_def)
  also have "takeWhile is_digit (c # r) = c # r" using d by (simp only: takeWhile_eq_all_conv)
  finally have "atoi (c # r) = digits_value (c # r)" .
  then show ?thesis using decimal_value [of n] c by simp
qed

section \<open>Properties\<close>



text \<open>\<open>operator<\<close> is a strict linear order, as \<open>std::map\<close> needs.\<close>

lemma sockaddr_less_order:
  "\<not> sockaddr_less a a"
  "sockaddr_less a b \<Longrightarrow> sockaddr_less b c \<Longrightarrow> sockaddr_less a c"
  "sockaddr_less a b \<or> a = b \<or> sockaddr_less b a"
  by (auto simp: sockaddr_less_def intro: sockaddr_in.equality)

end
