(* ===== verification/FuseMain.thy ===== *)
theory FuseMain
  imports Fuse Addr
begin

text \<open>
  \<open>main\<close> of \<open>fuse.cc\<close>: the command line, the constructor of \<open>yfs_client\<close>, the table \<open>fuseserver_oper\<close> of the handlers
  of the theory \<open>Fuse\<close>, and the life of the mount. The functions of the FUSE library that \<open>main\<close> calls are a
  parameter, the record \<open>fuse_lib\<close>, of which nothing is assumed; what \<open>main\<close> does to the system is a list of events.
\<close>

section \<open>The table of operations\<close>

type_synonym 'w fuse_handler = "'w \<Rightarrow> (fuse_reply \<times> 'w) option"

text \<open>The members of \<open>struct fuse_lowlevel_ops\<close> that the program sets; a global variable, so zero before \<open>main\<close>.
  The handlers take of their arguments what they use.\<close>

record 'w fuse_lowlevel_ops =
  op_getattr :: "(inum \<Rightarrow> 'w fuse_handler) option"
  op_statfs :: "'w fuse_handler option"
  op_readdir :: "(inum \<Rightarrow> nat \<Rightarrow> u64 \<Rightarrow> 'w fuse_handler) option"
  op_lookup :: "(inum \<Rightarrow> bytes \<Rightarrow> 'w fuse_handler) option"
  op_create :: "(inum \<Rightarrow> bytes \<Rightarrow> 'w fuse_handler) option"
  op_mknod :: "(inum \<Rightarrow> bytes \<Rightarrow> 'w fuse_handler) option"
  op_open :: "(inum \<Rightarrow> 'w fuse_handler) option"
  op_read :: "(inum \<Rightarrow> u64 \<Rightarrow> u64 \<Rightarrow> 'w fuse_handler) option"
  op_write :: "(inum \<Rightarrow> bytes \<Rightarrow> u64 \<Rightarrow> 'w fuse_handler) option"
  op_setattr :: "(inum \<Rightarrow> u32 \<Rightarrow> 'w fuse_handler) option"
  op_unlink :: "(inum \<Rightarrow> bytes \<Rightarrow> 'w fuse_handler) option"
  op_mkdir :: "(inum \<Rightarrow> bytes \<Rightarrow> 'w fuse_handler) option"

definition ops_zero :: "'w fuse_lowlevel_ops" where
  "ops_zero = \<lparr>op_getattr = None, op_statfs = None, op_readdir = None, op_lookup = None, op_create = None, op_mknod = None,
     op_open = None, op_read = None, op_write = None, op_setattr = None, op_unlink = None, op_mkdir = None\<rparr>"

text \<open>What the handlers take besides their arguments: the stubs, the layout functions of the library, the random number
  and the uninitialised locals.\<close>

record 'w fuse_env =
  fx_get :: "'w get_op"
  fx_put :: "'w put_op"
  fx_getattr :: "'w getattr_op"
  fx_dirent_size :: "nat \<Rightarrow> nat"
  fx_add_dirent :: "bytes \<Rightarrow> u64 \<Rightarrow> nat \<Rightarrow> bytes"
  fx_rnd :: u32
  fx_a0 :: attr
  fx_fin0 :: fileinfo
  fx_din0 :: dirinfo
  fx_i0 :: inum

definition fuseserver_oper :: "'w fuse_env \<Rightarrow> 'w fuse_lowlevel_ops" where
  "fuseserver_oper x = ops_zero\<lparr>
     op_getattr := Some (fuseserver_getattr (fx_getattr x) (fx_a0 x) (fx_fin0 x) (fx_din0 x)),
     op_statfs := Some fuseserver_statfs,
     op_readdir := Some (fuseserver_readdir (fx_dirent_size x) (fx_add_dirent x) (fx_get x)),
     op_lookup := Some (fuseserver_lookup (fx_get x) (fx_getattr x) (fx_a0 x) (fx_fin0 x) (fx_din0 x) (fx_i0 x)),
     op_create := Some (fuseserver_create (fx_get x) (fx_put x) (fx_getattr x) (fx_a0 x) (fx_fin0 x) (fx_din0 x) (fx_rnd x) (fx_i0 x)),
     op_mknod := Some (fuseserver_mknod (fx_get x) (fx_put x) (fx_getattr x) (fx_a0 x) (fx_fin0 x) (fx_din0 x) (fx_rnd x) (fx_i0 x)),
     op_open := Some fuseserver_open,
     op_read := Some fuseserver_read,
     op_write := Some fuseserver_write,
     op_setattr := Some fuseserver_setattr,
     op_unlink := Some fuseserver_unlink,
     op_mkdir := Some fuseserver_mkdir\<rparr>"

section \<open>The constructor of yfs\_client\<close>

text \<open>\<open>lock_dst\<close> is not used. The constructor of \<open>extent_client\<close> resolves the address, which may end the process, and
  binds; \<open>r1\<close> is its random number.\<close>

definition yfs_client_new ::
  "(bytes \<Rightarrow> u32 option) \<Rightarrow> (bytes \<Rightarrow> u32 option) \<Rightarrow> u32 \<Rightarrow> bytes \<Rightarrow> bytes \<Rightarrow> extent_server net \<Rightarrow> extent_server net option" where
  "yfs_client_new inet_addr gethostbyname r1 extent_dst lock_dst w = do {
     dstsock \<leftarrow> make_sockaddr inet_addr gethostbyname extent_dst;
     extent_client_new r1 w
   }"

section \<open>main\<close>

text \<open>The FUSE library: \<open>fuse_parse_cmdline\<close> with its result and the mount point it stores, \<open>fuse_mount\<close>,
  \<open>fuse_lowlevel_new\<close> and \<open>fuse_kern_chan_new\<close> with whether they return an object, and \<open>fuse_session_loop\<close>, which
  calls the operations (\<open>None\<close>: it does not return).\<close>

record 'w fuse_lib =
  fl_parse_cmdline :: "bytes list \<Rightarrow> int \<times> bytes"
  fl_mount :: "bytes \<Rightarrow> int"
  fl_lowlevel_new :: bool
  fl_kern_chan_new :: "int \<Rightarrow> bool"
  fl_session_loop :: "'w fuse_lowlevel_ops \<Rightarrow> 'w \<Rightarrow> (int \<times> 'w) option"

datatype fuse_event =
    Ev_mount bytes | Ev_new_session | Ev_new_chan int | Ev_add_chan | Ev_loop | Ev_destroy | Ev_close int | Ev_unmount bytes

text \<open>``-d''\<close>

definition fuse_argv :: "bytes list \<Rightarrow> bytes list" where
  "fuse_argv argv = [argv ! 0, argv ! 1, [45, 100]]"

text \<open>The exit status, what was done, and the world. A process that ends in a handler or in a constructor, or that
  serves for ever, has no result.\<close>

definition fuse_main ::
  "(bytes \<Rightarrow> u32 option) \<Rightarrow> (bytes \<Rightarrow> u32 option) \<Rightarrow> extent_server net fuse_lib \<Rightarrow> extent_server net fuse_env \<Rightarrow> u32 \<Rightarrow>
   bytes list \<Rightarrow> extent_server net \<Rightarrow> (int \<times> fuse_event list \<times> extent_server net) option" where
  "fuse_main inet_addr gethostbyname lib x r1 argv w =
     (if length argv \<noteq> 4 then Some (1, [], w)
      else do {
        w \<leftarrow> yfs_client_new inet_addr gethostbyname r1 (argv ! 2) (argv ! 3) w;
        let oper = fuseserver_oper x;
        let (res, mountpoint) = fl_parse_cmdline lib (fuse_argv argv);
        if res = - 1 then Some (0, [], w)
        else (let fd = fl_mount lib mountpoint in
          if fd = - 1 then Some (1, [], w)
          else if \<not> fl_lowlevel_new lib then Some (1, [Ev_mount mountpoint], w)
          else if \<not> fl_kern_chan_new lib fd then Some (1, [Ev_mount mountpoint, Ev_new_session], w)
          else do {
            (err, w) \<leftarrow> fl_session_loop lib oper w;
            Some (if err \<noteq> 0 then 1 else 0,
              [Ev_mount mountpoint, Ev_new_session, Ev_new_chan fd, Ev_add_chan, Ev_loop, Ev_destroy, Ev_close fd,
               Ev_unmount mountpoint], w)
          })
      })"

section \<open>Properties\<close>

text \<open>The file system is mounted after the events.\<close>

definition left_mounted :: "fuse_event list \<Rightarrow> bool" where
  "left_mounted es \<longleftrightarrow> (\<exists>m. Ev_mount m \<in> set es \<and> Ev_unmount m \<notin> set es)"

text \<open>
  C26: How \<open>main\<close> ends. Requests are served only after the mount, the session and the channel are there; then the
  session is destroyed, the device closed and the mount point that was mounted unmounted, in this order, and the exit
  status is 0 exactly when the loop returned 0. In two cases the status or the system is not what it should be:
  when the options cannot be parsed the status is 0 although nothing was served; and when the session or the
  channel cannot be made the status is 1 but the file system stays mounted.
\<close>

theorem fuse_main_outcome:
  assumes "fuse_main ia gh lib x r1 argv w = Some (code, es, w')"
  shows "(Ev_loop \<in> set es \<longrightarrow> (\<exists>m fd err w1. es = [Ev_mount m, Ev_new_session, Ev_new_chan fd, Ev_add_chan, Ev_loop,
          Ev_destroy, Ev_close fd, Ev_unmount m] \<and> snd (fl_parse_cmdline lib (fuse_argv argv)) = m \<and> fl_mount lib m = fd \<and>
        fl_session_loop lib (fuseserver_oper x) w1 = Some (err, w') \<and> (code = 0 \<longleftrightarrow> err = 0))) \<and>
    (Ev_loop \<notin> set es \<longrightarrow> (code = 0 \<longleftrightarrow> length argv = 4 \<and> fst (fl_parse_cmdline lib (fuse_argv argv)) = - 1)) \<and>
    (left_mounted es \<longleftrightarrow> length argv = 4 \<and> (\<exists>r m. fl_parse_cmdline lib (fuse_argv argv) = (r, m) \<and> r \<noteq> - 1 \<and>
        fl_mount lib m \<noteq> - 1 \<and> (\<not> fl_lowlevel_new lib \<or> \<not> fl_kern_chan_new lib (fl_mount lib m))))"
proof (cases "length argv = 4")
  case True
  obtain r m where r: "fl_parse_cmdline lib (fuse_argv argv) = (r, m)" by (cases "fl_parse_cmdline lib (fuse_argv argv)")
  from True assms obtain w1 where w1: "yfs_client_new ia gh r1 (argv ! 2) (argv ! 3) w = Some w1"
    by (auto simp: fuse_main_def elim!: bind_SomeE)
  note res = assms [unfolded fuse_main_def w1]
  consider (parse) "r = - 1" | (mount) "r \<noteq> - 1" "fl_mount lib m = - 1"
    | (made) "r \<noteq> - 1" "fl_mount lib m \<noteq> - 1" "\<not> fl_lowlevel_new lib \<or> \<not> fl_kern_chan_new lib (fl_mount lib m)"
    | (served) "r \<noteq> - 1" "fl_mount lib m \<noteq> - 1" "fl_lowlevel_new lib" "fl_kern_chan_new lib (fl_mount lib m)" by blast
  then show ?thesis
  proof cases
    case served
    then obtain err where "fl_session_loop lib (fuseserver_oper x) w1 = Some (err, w')" "code = (if err \<noteq> 0 then 1 else 0)"
      "es = [Ev_mount m, Ev_new_session, Ev_new_chan (fl_mount lib m), Ev_add_chan, Ev_loop, Ev_destroy,
         Ev_close (fl_mount lib m), Ev_unmount m]"
      using res True r by (auto simp: Let_def elim!: bind_SomeE)
    with served r True show ?thesis by (auto simp: left_mounted_def)
  qed (use res True r in \<open>auto simp: Let_def left_mounted_def split: if_splits\<close>)
next
  case False
  then show ?thesis using assms by (auto simp: fuse_main_def left_mounted_def)
qed

text \<open>A library whose loop asks for the file system's statistics once, and one that cannot make a session.\<close>

definition sample_lib :: "bool \<Rightarrow> extent_server net fuse_lib" where
  "sample_lib good = \<lparr>fl_parse_cmdline = (\<lambda>_. (0, [109])), fl_mount = (\<lambda>_. 3), fl_lowlevel_new = good,
     fl_kern_chan_new = (\<lambda>_. True),
     fl_session_loop = (\<lambda>ops w. do { h \<leftarrow> op_statfs ops; (r, w) \<leftarrow> h w; Some (if r = Reply_statfs 255 512 then 0 else - 1, w) })\<rparr>"

definition sample_env :: "extent_server net fuse_env" where
  "sample_env = \<lparr>fx_get = y_get, fx_put = y_put 0, fx_getattr = y_getattr, fx_dirent_size = (\<lambda>n. n),
     fx_add_dirent = (\<lambda>name ino off. name), fx_rnd = 7, fx_a0 = attr_new,
     fx_fin0 = \<lparr>fi_size = 0, fi_atime = 0, fi_mtime = 0, fi_ctime = 0\<rparr>, fx_din0 = \<lparr>di_atime = 0, di_mtime = 0, di_ctime = 0\<rparr>,
     fx_i0 = 0\<rparr>"

lemma sample_main:
  "\<exists>w es w'. fuse_main (\<lambda>_. Some 1) (\<lambda>_. None) (sample_lib good) sample_env 0 [[], [109], [49], [50]] w =
     Some (if good then 0 else 1, es, w') \<and> (Ev_loop \<in> set es \<longleftrightarrow> good)"
proof -
  obtain w w' where w: "extent_client_new 0 w = Some w'"
    using extent_started [of "fst (connection_new 3 0)" 9 0 attr_new 5 0 0 0] by (auto simp: connection_new_def)
  then have "yfs_client_new (\<lambda>_. Some 1) (\<lambda>_. None) 0 [49] [50] w = Some w'"
    by (simp add: yfs_client_new_def make_sockaddr_def make_sockaddr2_def)
  then show ?thesis
    by (intro exI [of _ w])
      (auto simp: fuse_main_def sample_lib_def fuseserver_oper_def ops_zero_def fuseserver_statfs_def Let_def fuse_argv_def)
qed

theorem fuse_main_outcome_witness:
  "\<exists>w es w'. fuse_main (\<lambda>_. Some 1) (\<lambda>_. None) (sample_lib False) sample_env 0 [[], [109], [49], [50]] w = Some (1, es, w') \<and>
     left_mounted es"
proof -
  obtain w es w' where m: "fuse_main (\<lambda>_. Some 1) (\<lambda>_. None) (sample_lib False) sample_env 0 [[], [109], [49], [50]] w = Some (1, es, w')"
    using sample_main [of False] by auto
  from fuse_main_outcome [OF m] m show ?thesis by (auto simp: sample_lib_def)
qed

end
