(* ===== verification/Clients.thy ===== *)
theory Clients
  imports Net
begin

text \<open>
  Several clients of one server, each with a connection of its own, and threads that call through them in any order.
  What \<open>dispatch\<close> does for one client leaves alone what the server keeps for the others: their entries in \<open>conns_\<close> and
  \<open>reply_window_\<close>, and their connections. So each of them stays ready for its calls (\<open>linked\<close> of the theory \<open>Net\<close>),
  whatever the schedule.
\<close>

section \<open>What dispatch leaves alone\<close>

text \<open>The connection that \<open>conns_\<close> holds for a client.\<close>

definition conns_of :: "'s rpcs \<Rightarrow> u32 \<Rightarrow> cid set" where
  "conns_of s n = {d. rs_conns s n = Some (Some d)}"

text \<open>From \<open>s\<close> to \<open>s'\<close> only the client \<open>n\<close> and its connections \<open>K\<close> are concerned.\<close>

definition only_of :: "u32 \<Rightarrow> cid set \<Rightarrow> 's rpcs \<Rightarrow> 's rpcs \<Rightarrow> bool" where
  "only_of n K s s' \<longleftrightarrow>
     (\<forall>m. m \<noteq> n \<longrightarrow> rs_conns s' m = rs_conns s m \<and> rs_reply_window s' m = rs_reply_window s m) \<and>
     (\<forall>l. l \<notin> K \<longrightarrow> rs_heap s' l = rs_heap s l) \<and> rs_nonce s' = rs_nonce s \<and>
     (conns_of s n \<subseteq> K \<longrightarrow> conns_of s' n \<subseteq> K)"

lemma only_of_refl [simp]: "only_of n K s s"
  by (simp add: only_of_def)

lemma only_of_trans: "only_of n K s s1 \<Longrightarrow> only_of n K s1 s2 \<Longrightarrow> only_of n K s s2"
  by (auto simp: only_of_def)

lemma c_send_only [simp]: "only_of n K s (c_send s c b) "
  by (simp add: only_of_def conns_of_def c_send_def)

lemma c_decref_only: "c_decref s k = Some s' \<Longrightarrow> k \<in> K \<Longrightarrow> only_of n K s s'"
  by (auto simp: c_decref_def only_of_def conns_of_def elim!: bind_SomeE dest: decref_other)

lemma answer_only: "c_decref (c_send s k b) k = Some s' \<Longrightarrow> k \<in> K \<Longrightarrow> only_of n K s s'"
  by (rule only_of_trans [OF c_send_only c_decref_only])

lemma c_incref_only: "c_incref s k = Some s' \<Longrightarrow> k \<in> K \<Longrightarrow> only_of n K s s'"
  by (auto simp: c_incref_def incref_def only_of_def conns_of_def elim!: bind_SomeE)

lemma conns_upd_only: "k \<in> K \<Longrightarrow> only_of n K s (s\<lparr>rs_conns := (rs_conns s)(n \<mapsto> Some k)\<rparr>)"
  by (auto simp: only_of_def conns_of_def)

lemma save_conn_only:
  assumes "conns_of s n \<subseteq> K" and "k \<in> K" and "save_conn s n k = Some s'"
  shows "only_of n K s s'"
proof (cases "rs_conns s n")
  case None
  with assms(3) obtain s1 where "c_incref s k = Some s1" "s' = s1\<lparr>rs_conns := (rs_conns s1)(n \<mapsto> Some k)\<rparr>"
    by (auto simp: save_conn_def elim!: bind_SomeE)
  then show ?thesis using c_incref_only assms(2) conns_upd_only only_of_trans by metis
next
  case (Some old)
  show ?thesis
  proof (cases "old = Some k")
    case False
    with assms(3) Some obtain d s1 s2 where d: "old = Some d" "c_decref s d = Some s1" "c_incref s1 k = Some s2"
      "s' = s2\<lparr>rs_conns := (rs_conns s2)(n \<mapsto> Some k)\<rparr>" by (auto simp: save_conn_def elim!: bind_SomeE)
    have "d \<in> K" using assms(1) Some d(1) by (auto simp: conns_of_def)
    then show ?thesis using d c_decref_only c_incref_only assms(2) conns_upd_only only_of_trans by metis
  qed (use assms(3) Some in \<open>simp add: save_conn_def\<close>)
qed

lemma checkduplicate_only:
  "checkduplicate_and_update (rs_reply_window s) n xid xr = Some (v, W) \<Longrightarrow> only_of n K s (s\<lparr>rs_reply_window := W\<rparr>)"
  by (auto simp: checkduplicate_and_update_def only_of_def conns_of_def elim!: bind_SomeE split: prod.splits option.splits)

lemma run_handler_only: "run_handler s j = Some (b, s') \<Longrightarrow> only_of n K s s'"
  by (auto simp: run_handler_def Let_def updatestat_def only_of_def conns_of_def elim!: bind_SomeE split: if_splits)

lemma latest_conn_only:
  assumes K: "conns_of s n \<subseteq> K" "k \<in> K" and l: "latest_conn s n k = Some (k', s')"
  shows "k' \<in> K \<and> only_of n K s s'"
proof -
  let ?e = "case rs_conns s n of None \<Rightarrow> None | Some p \<Rightarrow> p"
  let ?s = "s\<lparr>rs_conns := (rs_conns s)(n \<mapsto> ?e)\<rparr>"
  have e: "?e = Some d \<Longrightarrow> d \<in> K" for d using K(1) by (auto simp: conns_of_def split: option.splits)
  then have upd: "only_of n K s ?s" by (auto simp: only_of_def conns_of_def)
  show ?thesis
  proof (cases "isdead (rs_heap s) k = Some True \<and> ?e \<noteq> Some k")
    case True
    with l obtain s1 where "c_decref ?s k = Some s1" "?e = Some k'" "c_incref s1 k' = Some s'"
      by (auto simp: latest_conn_def Let_def elim!: bind_SomeE)
    then show ?thesis using e upd K(2) c_decref_only c_incref_only only_of_trans by metis
  qed (use l K(2) upd in \<open>auto simp: latest_conn_def Let_def elim!: bind_SomeE split: if_splits\<close>)
qed

lemma finish_new_only:
  assumes K: "conns_of s (rq_clt_nonce h) \<subseteq> K" "k \<in> K" and fin: "finish_new s k h b = Some s'"
  shows "only_of (rq_clt_nonce h) K s s'"
proof -
  define s1 where "s1 = (if rq_clt_nonce h \<noteq> 0
    then s\<lparr>rs_reply_window := add_reply (rs_reply_window s) (rq_clt_nonce h) (rq_xid h) b\<rparr> else s)"
  have s1: "only_of (rq_clt_nonce h) K s s1" "conns_of s1 (rq_clt_nonce h) \<subseteq> K"
    using K(1) by (auto simp: s1_def only_of_def add_reply_def conns_of_def)
  from fin obtain k' s2 where s2: "latest_conn s1 (rq_clt_nonce h) k = Some (k', s2)" "c_decref (c_send s2 k' b) k' = Some s'"
    by (auto simp: finish_new_def s1_def [symmetric] Let_def elim!: bind_SomeE)
  have "k' \<in> K \<and> only_of (rq_clt_nonce h) K s1 s2" using s1(2) K(2) s2(1) by (rule latest_conn_only)
  then show ?thesis using s1(1) s2(2) answer_only only_of_trans by metis
qed

lemma dispatch_switch_only:
  assumes K: "conns_of t (rq_clt_nonce (dj_hdr j)) \<subseteq> K" "k \<in> K" and d: "dispatch_switch t k j = Some s'"
  shows "only_of (rq_clt_nonce (dj_hdr j)) K t s'"
proof (cases "dj_stat j")
  case NEW
  with d obtain b1 t1 where t1: "run_handler t j = Some (b1, t1)" "finish_new t1 k (dj_hdr j) b1 = Some s'"
    by (auto simp: dispatch_switch_def elim!: bind_SomeE)
  have r: "only_of (rq_clt_nonce (dj_hdr j)) K t t1" using t1(1) by (rule run_handler_only)
  then have "only_of (rq_clt_nonce (dj_hdr j)) K t1 s'" using t1(2) K by (intro finish_new_only) (auto simp: only_of_def)
  with r show ?thesis by (rule only_of_trans)
qed (use d K(2) in \<open>auto simp: dispatch_switch_def elim!: bind_SomeE intro: answer_only c_decref_only\<close>)

lemma dispatch_only:
  assumes hdr: "unpack_req_header (unmarshall_of b sz) = Some (h, u)"
    and K: "conns_of s (rq_clt_nonce h) \<subseteq> K" "k \<in> K" and d: "dispatch s k b sz = Some s'"
  shows "only_of (rq_clt_nonce h) K s s'"
proof -
  let ?n = "rq_clt_nonce h"
  from d obtain jo t where e: "dispatch_enter s k b sz = Some (jo, t)"
    and jo: "case jo of None \<Rightarrow> s' = t | Some j \<Rightarrow> dispatch_switch t k j = Some s'"
    by (auto simp: dispatch_def elim!: bind_SomeE split: option.splits)
  show ?thesis
  proof (cases jo)
    case None
    then show ?thesis using e jo hdr K(2)
      by (auto simp: dispatch_enter_def Let_def elim!: bind_SomeE split: if_splits option.splits prod.splits
          dest: c_decref_only)
  next
    case (Some j)
    have "only_of ?n K s t \<and> dj_hdr j = h"
    proof (cases "?n = 0")
      case True
      then show ?thesis using e Some hdr
        by (auto simp: dispatch_enter_def Let_def elim!: bind_SomeE split: if_splits option.splits prod.splits)
    next
      case False
      from e Some hdr False obtain s1 s2 v W
        where w: "s1 = (if rs_reply_window s ?n = None then s\<lparr>rs_reply_window := (rs_reply_window s)(?n \<mapsto> [])\<rparr> else s)"
          and s2: "save_conn s1 ?n k = Some s2"
            "checkduplicate_and_update (rs_reply_window s2) ?n (rq_xid h) (rq_xid_rep h) = Some (v, W)"
            "t = s2\<lparr>rs_reply_window := W\<rparr>" "dj_hdr j = h"
        by (auto simp: dispatch_enter_def Let_def elim!: bind_SomeE split: if_splits option.splits prod.splits)
      have s1: "only_of ?n K s s1" "conns_of s1 ?n \<subseteq> K" using K(1) by (simp_all add: w only_of_def conns_of_def)
      have "only_of ?n K s1 s2" using s1(2) K(2) s2(1) by (rule save_conn_only)
      moreover have "only_of ?n K s2 t" using checkduplicate_only [OF s2(2)] s2(3) by simp
      ultimately show ?thesis using s1(1) s2(4) only_of_trans by blast
    qed
    then show ?thesis using dispatch_switch_only [of t j K k s'] jo Some K only_of_trans by (auto simp: only_of_def)
  qed
qed

text \<open>A call of one client, as the others see it.\<close>

lemma net_call_only:
  assumes l: "linked (Suc n) (nt_clt w) (nt_srv w) (nt_conn w)" and amo: "rc_clt_nonce (nt_clt w) \<noteq> 0"
    and req: "marsh_wf req" "m_contents req = replicate 24 None @ map Some args" "length args < MARSH_LIMIT"
    and call: "net_call proc req w = Some (ret, w')"
  shows "only_of (rc_clt_nonce (nt_clt w)) {nt_conn w} (nt_srv w) (nt_srv w') \<and> nt_conn w' = nt_conn w"
proof (cases "may_call (nt_clt w) proc")
  case True
  let ?c = "nt_clt w" and ?k = "nt_conn w" and ?s = "nt_srv w"
  from l obtain A where A: "client_inv A ?c" by (auto simp: linked_def)
  obtain m c1 where m: "call1_enter ?c proc req = Some (Call_sent (rc_xid ?c) m, c1)"
    "m_contents m = request_cells (next_header ?c proc) args"
    using call1_enter_sent [OF True client_inv_window [OF A] req(1,2)] by blast
  let ?b = "fill (m_contents m)"
  from call m obtain s1 s2 where s: "c_incref ?s ?k = Some s1" "dispatch s1 ?k ?b (length ?b) = Some s2"
    "nt_srv w' = s2" "nt_conn w' = ?k"
    by (auto simp: net_call_def elim!: bind_SomeE)
  have hdr: "unpack_req_header (unmarshall_of ?b (length ?b))
      = Some (next_header ?c proc, (unmarshall_of ?b (length ?b))\<lparr>u_ind := RPC_HEADER_SZ\<rparr>)"
    using wire_request(1) [of "next_header ?c proc" args ?b] wire_of_fill m(2) req(3) by metis
  have n: "rq_clt_nonce (next_header ?c proc) = rc_clt_nonce ?c" by (simp add: next_header_def)
  have "conns_of ?s (rc_clt_nonce ?c) \<subseteq> {?k}" using l amo by (auto simp: linked_def conns_of_def)
  then have "conns_of s1 (rc_clt_nonce ?c) \<subseteq> {?k}"
    using c_incref_only [OF s(1), of "{?k}" "rc_clt_nonce ?c"] by (simp add: only_of_def)
  with dispatch_only [OF hdr _ _ s(2), of "{?k}"] n have "only_of (rc_clt_nonce ?c) {?k} s1 s2" by simp
  then show ?thesis using c_incref_only [OF s(1), of "{?k}"] s(3,4) only_of_trans by blast
next
  case False
  then show ?thesis using call by (auto simp: net_call_def call1_enter_def may_call_def split: if_splits)
qed

lemma linked_other:
  assumes "linked n c s k" and "only_of m K s s'" and "rc_clt_nonce c \<noteq> m" and "k \<notin> K"
  shows "linked n c s' k"
  using assms by (auto simp: linked_def only_of_def win_xids_def)

lemma linked_mono: "linked (m + n) c s k \<Longrightarrow> linked n c s k"
  by (auto simp: linked_def)

text \<open>From \<open>w\<close> to \<open>w'\<close> only the client itself has called, over the connection it has.\<close>

definition alone :: "'s net \<Rightarrow> 's net \<Rightarrow> bool" where
  "alone w w' \<longleftrightarrow> (rc_clt_nonce (nt_clt w) \<noteq> 0 \<longrightarrow> rc_clt_nonce (nt_clt w') = rc_clt_nonce (nt_clt w) \<and> nt_conn w' = nt_conn w \<and>
     only_of (rc_clt_nonce (nt_clt w)) {nt_conn w} (nt_srv w) (nt_srv w'))"

lemma alone_trans [trans]: "alone w w1 \<Longrightarrow> alone w1 w2 \<Longrightarrow> alone w w2"
  by (auto simp: alone_def dest: only_of_trans)

lemma got_pdu_nonce: "got_pdu c b sz = Some c' \<Longrightarrow> rc_clt_nonce c' = rc_clt_nonce c"
  by (auto simp: got_pdu_def Let_def elim!: bind_SomeE split: if_splits option.splits)

lemma net_call_nonce: "net_call proc req w = Some (ret, w') \<Longrightarrow> rc_clt_nonce (nt_clt w') = rc_clt_nonce (nt_clt w)"
  by (auto simp: net_call_def Let_def same_client_def elim!: bind_SomeE split: call1_start.splits if_splits
      dest!: call1_enter_nonce got_pdu_nonce call1_leave_same)

lemma net_call_alone:
  assumes "net_ready (Suc n) w" and "marsh_wf req" and "m_contents req = replicate 24 None @ map Some args"
    and "length args < MARSH_LIMIT" and "net_call proc req w = Some (ret, w')"
  shows "alone w w'"
  using net_call_only [OF _ _ assms(2-5)] net_call_nonce [OF assms(5)] assms(1) by (auto simp: alone_def net_ready_def)

section \<open>Several clients\<close>

record 's nets =
  ns_srv :: "'s rpcs"
  ns_clts :: "(rpcc \<times> cid) list"

definition client_net :: "nat \<Rightarrow> 's nets \<Rightarrow> 's net" where
  "client_net i N = \<lparr>nt_clt = fst (ns_clts N ! i), nt_srv = ns_srv N, nt_conn = snd (ns_clts N ! i)\<rparr>"

text \<open>Something that the client \<open>i\<close> does.\<close>

definition on_client :: "nat \<Rightarrow> ('s net \<Rightarrow> 's net option) \<Rightarrow> 's nets \<Rightarrow> 's nets option" where
  "on_client i f N =
     (if i < length (ns_clts N)
      then do { w \<leftarrow> f (client_net i N); Some \<lparr>ns_srv = nt_srv w, ns_clts = (ns_clts N)[i := (nt_clt w, nt_conn w)]\<rparr> }
      else None)"

text \<open>Every client may make \<open>n\<close> calls; their nonces and connections differ; \<open>P\<close> holds of the server.\<close>

definition nets_ready :: "('s rpcs \<Rightarrow> bool) \<Rightarrow> nat \<Rightarrow> 's nets \<Rightarrow> bool" where
  "nets_ready P n N \<longleftrightarrow> P (ns_srv N) \<and> distinct (map snd (ns_clts N)) \<and> distinct (map (rc_clt_nonce \<circ> fst) (ns_clts N)) \<and>
     (\<forall>(c, k) \<in> set (ns_clts N). rc_clt_nonce c \<noteq> 0 \<and> linked n c (ns_srv N) k \<and> rc_bind_done c)"

text \<open>An operation that makes at most \<open>m\<close> calls of a client that is ready, and that concerns this client only.\<close>

definition makes_calls :: "('s rpcs \<Rightarrow> bool) \<Rightarrow> nat \<Rightarrow> ('s net \<Rightarrow> 's net option) \<Rightarrow> bool" where
  "makes_calls P m f \<longleftrightarrow> (\<forall>n w. P (nt_srv w) \<longrightarrow> net_ready (m + n) w \<longrightarrow>
     (\<exists>w'. f w = Some w' \<and> P (nt_srv w') \<and> net_ready n w' \<and> alone w w'))"

lemma on_client_ready:
  assumes rdy: "nets_ready P (m + n) N" and i: "i < length (ns_clts N)" and f: "makes_calls P m f"
  shows "\<exists>N'. on_client i f N = Some N' \<and> nets_ready P n N' \<and> length (ns_clts N') = length (ns_clts N)"
proof -
  let ?w = "client_net i N" and ?L = "ns_clts N"
  obtain c k where ck: "?L ! i = (c, k)" by (cases "?L ! i")
  have each: "rc_clt_nonce d \<noteq> 0 \<and> linked (m + n) d (ns_srv N) l \<and> rc_bind_done d" if "j < length ?L" "?L ! j = (d, l)" for j d l
    using rdy nth_mem [OF that(1)] that(2) by (auto simp: nets_ready_def)
  have dk: "snd (?L ! j) \<noteq> snd (?L ! j')" and dn: "rc_clt_nonce (fst (?L ! j)) \<noteq> rc_clt_nonce (fst (?L ! j'))"
    if "j < length ?L" "j' < length ?L" "j \<noteq> j'" for j j'
    using rdy that by (auto simp: nets_ready_def distinct_conv_nth)
  have "P (nt_srv ?w)" "net_ready (m + n) ?w" "rc_clt_nonce (nt_clt ?w) \<noteq> 0"
    using rdy each [OF i ck] ck by (auto simp: client_net_def net_ready_def nets_ready_def)
  with f obtain w where w: "f ?w = Some w" "P (nt_srv w)" "net_ready n w" "rc_clt_nonce (nt_clt w) = rc_clt_nonce c"
    "nt_conn w = k" "only_of (rc_clt_nonce c) {k} (ns_srv N) (nt_srv w)"
    unfolding makes_calls_def alone_def by (metis (no_types, lifting) ck client_net_def fst_conv snd_conv net.select_convs)
  let ?N = "\<lparr>ns_srv = nt_srv w, ns_clts = ?L[i := (nt_clt w, nt_conn w)]\<rparr>"
  have maps: "map snd (?L[i := (nt_clt w, nt_conn w)]) = map snd ?L"
    "map (rc_clt_nonce \<circ> fst) (?L[i := (nt_clt w, nt_conn w)]) = map (rc_clt_nonce \<circ> fst) ?L"
    using w(4,5) ck i by (auto simp: map_update list_update_same_conv)
  have "rc_clt_nonce d \<noteq> 0 \<and> linked n d (nt_srv w) l \<and> rc_bind_done d"
    if j: "j < length ?L" "?L[i := (nt_clt w, nt_conn w)] ! j = (d, l)" for j d l
  proof (cases "j = i")
    case True
    then show ?thesis using j w each [OF i ck] by (auto simp: net_ready_def)
  next
    case False
    then have d: "?L ! j = (d, l)" using j by simp
    have "linked (m + n) d (nt_srv w) l"
      using linked_other [OF _ w(6)] each [OF j(1) d] dk [OF j(1) i False] dn [OF j(1) i False] d ck by auto
    then show ?thesis using each [OF j(1) d] linked_mono by blast
  qed
  then have "nets_ready P n ?N" using rdy w(2) maps by (auto simp: nets_ready_def in_set_conv_nth)
  then show ?thesis using w(1) i by (auto simp: on_client_def)
qed

section \<open>Schedules\<close>

text \<open>Threads that make one call after the other; a schedule says whose turn it is. A turn of a thread that has
  finished is skipped.\<close>

fun run_schedule :: "nat list \<Rightarrow> ('w \<Rightarrow> 'w option) list list \<Rightarrow> 'w \<Rightarrow> ('w \<times> ('w \<Rightarrow> 'w option) list list) option" where
  "run_schedule [] ts w = Some (w, ts)"
| "run_schedule (i # is) ts w =
     (if i < length ts then
        (case ts ! i of
           [] \<Rightarrow> run_schedule is ts w
         | f # fs \<Rightarrow> do { w \<leftarrow> f w; run_schedule is (ts[i := fs]) w })
      else run_schedule is ts w)"

definition steps_left :: "('w \<Rightarrow> 'w option) list list \<Rightarrow> nat" where
  "steps_left ts = sum_list (map length ts)"

lemma steps_left_upd:
  assumes "i < length ts" and "ts ! i = f # fs"
  shows "steps_left ts = Suc (steps_left (ts[i := fs]))"
  using assms
proof (induction ts arbitrary: i)
  case (Cons t ts)
  then show ?case by (cases i) (auto simp: steps_left_def)
qed simp

text \<open>If every step works from every good state, with one unit of a budget, then every schedule works.\<close>

definition steps_work :: "(nat \<Rightarrow> 'w \<Rightarrow> bool) \<Rightarrow> ('w \<Rightarrow> 'w option) list list \<Rightarrow> bool" where
  "steps_work R ts \<longleftrightarrow> (\<forall>t \<in> set ts. \<forall>f \<in> set t. \<forall>n w. R (Suc n) w \<longrightarrow> (\<exists>w'. f w = Some w' \<and> R n w'))"

lemma run_schedule_ok:
  assumes "steps_work R ts" and "R (steps_left ts + n) w"
  shows "\<exists>w' ts'. run_schedule is ts w = Some (w', ts') \<and> R (steps_left ts' + n) w' \<and> length ts' = length ts \<and>
    (\<forall>i < length ts. length (ts' ! i) = length (ts ! i) - count_list is i)"
  using assms
proof (induction "is" arbitrary: ts w)
  case (Cons i "is")
  show ?case
  proof (cases "i < length ts \<and> ts ! i \<noteq> []")
    case True
    then obtain f fs where i: "i < length ts" "ts ! i = f # fs" by (cases "ts ! i") auto
    have mem: "f # fs \<in> set ts" using i nth_mem by metis
    have "R (Suc (steps_left (ts[i := fs]) + n)) w" using Cons.prems(2) steps_left_upd [OF i] by simp
    then obtain w1 where w1: "f w = Some w1" "R (steps_left (ts[i := fs]) + n) w1"
      using Cons.prems(1) mem unfolding steps_work_def by force
    have "steps_work R (ts[i := fs])"
    proof -
      have "t = fs \<or> t \<in> set ts" if "t \<in> set (ts[i := fs])" for t
        using that set_update_subset_insert [of ts i fs] by auto
      then show ?thesis using Cons.prems(1) mem unfolding steps_work_def by (metis list.set_intros(2))
    qed
    from Cons.IH [of "ts[i := fs]" w1, OF this w1(2)] obtain w' ts' where
      r: "run_schedule is (ts[i := fs]) w1 = Some (w', ts')" "R (steps_left ts' + n) w'" "length ts' = length ts"
        "\<forall>j < length ts. length (ts' ! j) = length (ts[i := fs] ! j) - count_list is j" by auto
    have "length (ts' ! j) = length (ts ! j) - count_list (i # is) j" if "j < length ts" for j
      using r(4) that i by (cases "j = i") auto
    moreover have "run_schedule (i # is) ts w = Some (w', ts')" using r(1) w1(1) i by simp
    ultimately show ?thesis using r(2,3) by blast
  next
    case False
    then have skip: "run_schedule (i # is) ts w = run_schedule is ts w" by auto
    from Cons.IH [of ts w, OF Cons.prems] obtain w' ts' where
      r: "run_schedule is ts w = Some (w', ts')" "R (steps_left ts' + n) w'" "length ts' = length ts"
        "\<forall>j < length ts. length (ts' ! j) = length (ts ! j) - count_list is j" by blast
    have "length (ts' ! j) = length (ts ! j) - count_list (i # is) j" if "j < length ts" for j
      using r(4) that False by (cases "j = i") auto
    then show ?thesis using r(1-3) skip by auto
  qed
qed simp

end
