(* ===== verification/RpcTest.thy ===== *)
theory RpcTest
  imports Clients Wire
begin

text \<open>
  The test program of the RPC library, \<open>rpc/rpctest.cc\<close>: its handlers, \<open>startserver\<close>, \<open>testmarshall\<close>, the
  calls of \<open>simple_tests\<close> up to the one that needs a server that does not answer, and \<open>client1\<close>. They run
  over \<open>net_call\<close>, the connection of \<open>Net\<close> that delivers every PDU once; \<open>None\<close> is a failed assertion. The
  random numbers are arguments. The service has no state.

  The calls with wrong arguments rest on one lemma on calls that a handler cannot unmarshal; the others
  on the locale \<open>rpc_method\<close>, interpreted for the four handlers.
\<close>

section \<open>The server\<close>

definition assert_that :: "bool \<Rightarrow> unit option" where
  "assert_that b = (if b then Some () else None)"

lemma assert_that_simps [simp]: "assert_that True = Some ()" "assert_that False = None"
  by (simp_all add: assert_that_def)

definition handle_22 :: "bytes \<Rightarrow> bytes \<Rightarrow> bytes \<Rightarrow> unit \<Rightarrow> (u32 \<times> bytes \<times> unit) option" where
  "handle_22 a b r s = Some (0, a @ b, s)"

definition handle_fast :: "u32 \<Rightarrow> u32 \<Rightarrow> unit \<Rightarrow> (u32 \<times> u32 \<times> unit) option" where
  "handle_fast a r s = Some (0, a + 1, s)"

definition handle_slow :: "u32 \<Rightarrow> u32 \<Rightarrow> unit \<Rightarrow> (u32 \<times> u32 \<times> unit) option" where
  "handle_slow a r s = Some (0, a + 2, s)"

text \<open>\<open>std::string(len, 'x')\<close>: a negative \<open>len\<close> becomes a size that throws.\<close>

definition handle_bigrep :: "u32 \<Rightarrow> bytes \<Rightarrow> unit \<Rightarrow> (u32 \<times> bytes \<times> unit) option" where
  "handle_bigrep len r s = (if sint len < 0 then None else Some (0, replicate (unat len) (of_char CHR ''x''), s))"

abbreviation h_22 :: "unit handler" where
  "h_22 \<equiv> handler2 (unmarshall_string []) (unmarshall_string []) marshall_string [] handle_22"

abbreviation h_int :: "(u32 \<Rightarrow> u32 \<Rightarrow> unit \<Rightarrow> (u32 \<times> u32 \<times> unit) option) \<Rightarrow> u32 \<Rightarrow> unit handler" where
  "h_int meth ri \<equiv> handler1 unmarshall_int marshall_int ri meth"

abbreviation h_bigrep :: "unit handler" where
  "h_bigrep \<equiv> handler1 unmarshall_int marshall_string [] handle_bigrep"

text \<open>\<open>rnd\<close> is the nonce of the server, \<open>ri\<close> the uninitialised result of the handlers with an \<open>int\<close> result.\<close>

definition startserver :: "u32 \<Rightarrow> u32 \<Rightarrow> unit rpcs option" where
  "startserver rnd ri = do {
     s \<leftarrow> rpcs_new rnd 0 ();
     s \<leftarrow> reg1 s 22 h_22;
     s \<leftarrow> reg1 s 23 (h_int handle_fast ri);
     s \<leftarrow> reg1 s 24 (h_int handle_slow ri);
     reg1 s 25 h_bigrep
   }"

section \<open>The client\<close>

text \<open>\<open>rpcc::call\<close> with one and with two arguments; \<open>r\<close> is the result variable.\<close>

definition rpc_call1 ::
  "(marshall \<Rightarrow> 'a \<Rightarrow> marshall option) \<Rightarrow> (unmarshall \<Rightarrow> ('r \<times> unmarshall) option) \<Rightarrow> u32 \<Rightarrow> 'a \<Rightarrow> 'r \<Rightarrow> 's net \<Rightarrow>
   ((u32 \<times> 'r) \<times> 's net) option" where
  "rpc_call1 put get proc a r w = do {
     m \<leftarrow> call_req1 put a;
     (res, w) \<leftarrow> net_call proc m w;
     ret \<leftarrow> call_m_result get r res;
     Some (ret, w)
   }"

definition rpc_call2 ::
  "(marshall \<Rightarrow> 'a \<Rightarrow> marshall option) \<Rightarrow> (marshall \<Rightarrow> 'b \<Rightarrow> marshall option) \<Rightarrow>
   (unmarshall \<Rightarrow> ('r \<times> unmarshall) option) \<Rightarrow> u32 \<Rightarrow> 'a \<Rightarrow> 'b \<Rightarrow> 'r \<Rightarrow> 's net \<Rightarrow> ((u32 \<times> 'r) \<times> 's net) option" where
  "rpc_call2 putA putB get proc a b r w = do {
     m \<leftarrow> call_req2 putA putB a b;
     (res, w) \<leftarrow> net_call proc m w;
     ret \<leftarrow> call_m_result get r res;
     Some (ret, w)
   }"

text \<open>A string literal as bytes.\<close>

definition lit :: "string \<Rightarrow> bytes" where
  "lit cs = map of_char cs"

definition call_strings :: "u32 \<Rightarrow> bytes \<Rightarrow> bytes \<Rightarrow> bytes \<Rightarrow> unit net \<Rightarrow> ((u32 \<times> bytes) \<times> unit net) option" where
  "call_strings proc a b rep = rpc_call2 marshall_string marshall_string (unmarshall_string rep) proc a b rep"

text \<open>\<open>simple_tests\<close>; \<open>wrongrep\<close> is the uninitialised variable of that name.\<close>

definition simple_tests :: "u32 \<Rightarrow> unit net \<Rightarrow> unit net option" where
  "simple_tests wrongrep w = do {
     ((intret, rep), w) \<leftarrow> call_strings 22 (lit ''hello'') (lit '' goodbye'') [] w;
     assert_that (intret = 0);
     assert_that (rep = lit ''hello goodbye'');
     ((intret, rep), w) \<leftarrow> rpc_call1 marshall_int (unmarshall_string rep) 25 70000 rep w;
     assert_that (intret = 0);
     assert_that (length rep = 70000);
     ((intret, rep), w) \<leftarrow> rpc_call1 marshall_string (unmarshall_string rep) 22 (lit ''just one'') rep w;
     assert_that (sint intret < 0);
     ((intret, rep), w) \<leftarrow> rpc_call2 marshall_int marshall_int (unmarshall_string rep) 23 1001 1002 rep w;
     assert_that (sint intret < 0);
     ((intret, wrongrep), w) \<leftarrow>
       rpc_call2 marshall_string marshall_string unmarshall_int 23 (lit ''hello'') (lit '' goodbye'') wrongrep w;
     assert_that (sint intret < 0);
     ((intret, xx), w) \<leftarrow> rpc_call1 marshall_int unmarshall_int 23 77 0 w;
     assert_that (intret = 0 \<and> xx = 78);
     ((intret', rep'), w) \<leftarrow> call_strings 22 (replicate 1000 (of_char CHR ''x'')) (lit ''x'') [] w;
     assert_that (length rep' = 1001);
     ((intret, rep), w) \<leftarrow> call_strings 22 (replicate 1000000 (of_char CHR ''x'')) (lit ''z'') rep w;
     assert_that (length rep = 1000001);
     Some w
   }"

text \<open>\<open>client1\<close>: the random arguments of the first loop, and of the second with the choice of the handler.
  \<open>r1\<close> is the uninitialised \<open>int rep\<close>.\<close>

definition big_round :: "u32 \<Rightarrow> unit net \<Rightarrow> unit net option" where
  "big_round arg w = do {
     ((ret, rep), w) \<leftarrow> rpc_call1 marshall_int (unmarshall_string []) 25 arg [] w;
     assert_that (ret = 0);
     assert_that (of_nat (length rep) = arg);
     Some w
   }"

definition mixed_round :: "u32 \<Rightarrow> bool \<times> u32 \<Rightarrow> unit net \<Rightarrow> unit net option" where
  "mixed_round r1 wa w = (case wa of (which, arg) \<Rightarrow> do {
     ((ret, rep), w) \<leftarrow> rpc_call1 marshall_int unmarshall_int (if which then 23 else 24) arg r1 w;
     assert_that (ret = 0);
     assert_that (rep = (if which then arg + 1 else arg + 2));
     Some w
   })"

fun client1_big :: "u32 list \<Rightarrow> unit net \<Rightarrow> unit net option" where
  "client1_big [] w = Some w"
| "client1_big (arg # args) w = do { w \<leftarrow> big_round arg w; client1_big args w }"

fun client1_mixed :: "u32 \<Rightarrow> (bool \<times> u32) list \<Rightarrow> unit net \<Rightarrow> unit net option" where
  "client1_mixed r1 [] w = Some w"
| "client1_mixed r1 (wa # args) w = do { w \<leftarrow> mixed_round r1 wa w; client1_mixed r1 args w }"

definition client1 :: "u32 \<Rightarrow> u32 list \<Rightarrow> (bool \<times> u32) list \<Rightarrow> unit net \<Rightarrow> unit net option" where
  "client1 r1 args1 args2 w = do {
     w \<leftarrow> client1_big args1 w;
     client1_mixed r1 args2 w
   }"

text \<open>\<open>testmarshall\<close>. The bytes of the buffer that were never written are read as zeros.\<close>

definition testmarshall :: "unit option" where
  "testmarshall = do {
     let rh = \<lparr>rq_xid = 1, rq_proc = 2, rq_clt_nonce = 3, rq_srv_nonce = 4, rq_xid_rep = 5\<rparr>;
     m \<leftarrow> pack_req_header marshall_new rh;
     assert_that (m_ind m = RPC_HEADER_SZ);
     let i = 12345;
     let l = 1223344455;
     let s = lit ''hallo....'';
     m \<leftarrow> marshall_int m i;
     m \<leftarrow> marshall_ulonglong m l;
     m \<leftarrow> marshall_string m s;
     let (b, m) = marshall_take_buf m;
     let sz = length b;
     assert_that (sz = RPC_HEADER_SZ + 4 + 8 + length s + 4);
     let un = unmarshall_of (fill b) sz;
     (rh1, un) \<leftarrow> unpack_req_header un;
     assert_that (rh1 = rh);
     (i1, un) \<leftarrow> unmarshall_int un;
     (l1, un) \<leftarrow> unmarshall_ulonglong un;
     (s1, un) \<leftarrow> unmarshall_string [] un;
     assert_that (okdone un);
     assert_that (i1 = i \<and> l1 = l \<and> s1 = s)
   }"

section \<open>Calls that the server cannot unmarshal\<close>

lemma net_call_bad_args:
  assumes rdy: "net_ready (Suc n) w" and proc: "proc \<noteq> rpc_bind"
    and h: "rs_procs (nt_srv w) proc = Some (handler1 geta putr rv meth)"
    and req: "marsh_wf req" "m_contents req = replicate 24 None @ map Some args" "length args + 24 < MARSH_LIMIT"
    and bad: "\<And>u. unm_wf u \<Longrightarrow> u_ok u \<Longrightarrow> u_rest u = args \<Longrightarrow> u_ind u \<le> u_sz u \<Longrightarrow>
      \<exists>x u'. geta u = Some (x, u') \<and> \<not> okdone u'"
  shows "\<exists>ret w'. net_call proc req w = Some (ret, w') \<and> call_m_result getr r1 ret = Some (unmarshal_args_failure, r1) \<and>
    rs_app (nt_srv w') = rs_app (nt_srv w) \<and> net_ready n w' \<and> rs_procs (nt_srv w') = rs_procs (nt_srv w)"
proof -
  have l: "linked (Suc n) (nt_clt w) (nt_srv w) (nt_conn w)" "may_call (nt_clt w) proc" "rc_bind_done (nt_clt w)"
    using rdy proc by (simp_all add: net_ready_def may_call_def)
  have "call_yields (nt_clt w) s1 (nt_conn w) proc req getr r1 (unmarshal_args_failure, r1) (rs_app (nt_srv w))"
    if s1: "call_ready A (nt_clt w) s1 (nt_conn w) proc" "rs_procs s1 = rs_procs (nt_srv w)"
      "rs_app s1 = rs_app (nt_srv w)" for A s1
  proof (rule call_yieldsI [OF s1(1) _ req, where body = "[]" and f = "handler1 geta putr rv meth"])
    fix u assume "unm_wf u" "u_ok u" "u_rest u = args" "u_ind u \<le> u_sz u"
    then obtain x u' where "geta u = Some (x, u')" "\<not> okdone u'" using bad by blast
    then show "\<exists>rep. handler1 geta putr rv meth u marshall_new (rs_app s1) =
        Some (unmarshal_args_failure, rep, rs_app (nt_srv w)) \<and> marsh_wf rep \<and>
        m_contents rep = replicate 24 None @ map Some []"
      using s1(3) by (simp add: handler1_def marsh_wf_new m_contents_new)
  qed (use s1 h in \<open>simp_all add: call_m_result_def\<close>)
  note yields = this
  have "\<exists>ret w'. net_call proc req w = Some (ret, w') \<and>
    call_m_result getr r1 ret = Some (unmarshal_args_failure, r1) \<and>
    rs_app (nt_srv w') = rs_app (nt_srv w) \<and> linked n (nt_clt w') (nt_srv w') (nt_conn w') \<and>
    rc_bind_done (nt_clt w') = rc_bind_done (nt_clt w) \<and> rs_nonce (nt_srv w') = rs_nonce (nt_srv w) \<and>
    rs_procs (nt_srv w') = rs_procs (nt_srv w)"
    by (rule net_call_yields [OF l(1,2)]) (rule yields)
  with l(3) show ?thesis by (auto simp: net_ready_def)
qed

lemma int_bad:
  assumes "unm_wf u" and "u_ok u" and "u_ind u \<le> u_sz u" and "length (u_rest u) \<noteq> 4"
  shows "\<exists>x u'. unmarshall_int u = Some (x, u') \<and> \<not> okdone u'"
proof -
  obtain x where "unmarshall_uint u = Some (x, adv 4 u)" using assms(1) by (rule unmarshall_uint_adv)
  then show ?thesis using okdone_adv [OF assms(2,3,1), of 4] assms(4) by (simp add: unmarshall_int_def)
qed

lemma two_strings_bad:
  assumes u: "unm_wf u" "u_ok u" "u_rest u = enc_string s" "u_ind u \<le> u_sz u" and s: "short_list s"
  shows "\<exists>x u'. get_pair (unmarshall_string a) (unmarshall_string b) u = Some (x, u') \<and> \<not> okdone u'"
proof -
  let ?v = "u\<lparr>u_ind := u_ind u + length (enc_string s)\<rparr>"
  have v: "unmarshall_string a u = Some (s, ?v)"
    using get_okD [OF c_string.get_enc [OF s] u(1,2), of "[]"] u(3) by simp
  have "length (u_rest u) = u_sz u - u_ind u" using u(1) by (rule length_u_rest)
  then have at_end: "u_ind ?v = u_sz ?v" using u(3,4) by simp
  have "unm_wf ?v" using u(1) by (simp add: unm_wf_def)
  then obtain x where "unmarshall_uint ?v = Some (x, adv 4 ?v)" by (rule unmarshall_uint_adv)
  moreover have "\<not> u_ok (adv 4 ?v)" using at_end by (simp add: adv_def)
  ultimately have "unmarshall_string b ?v = Some (b, adv 4 ?v)" by (simp add: unmarshall_string_def)
  with v \<open>\<not> u_ok (adv 4 ?v)\<close> show ?thesis by (simp add: get_pair_def okdone_def)
qed

section \<open>The handlers over the network\<close>

interpretation c_strpair: codec_pair marshall_string "unmarshall_string s0" enc_string short_list
  marshall_string "unmarshall_string s1" enc_string short_list for s0 s1
  by unfold_locales

interpretation c_intpair: codec_pair marshall_int unmarshall_int be32 "\<lambda>_. True" marshall_int unmarshall_int be32 "\<lambda>_. True"
  by unfold_locales

interpretation m_22: rpc_method "put_pair marshall_string marshall_string"
  "get_pair (unmarshall_string []) (unmarshall_string [])" "enc_pair enc_string enc_string"
  "\<lambda>ab. short_list (fst ab) \<and> short_list (snd ab)"
  marshall_string "unmarshall_string rep" enc_string short_list "\<lambda>(a, b). handle_22 a b" "[]" for rep
  by unfold_locales

interpretation m_int: rpc_method marshall_int unmarshall_int be32 "\<lambda>_. True"
  marshall_int unmarshall_int be32 "\<lambda>_. True" meth ri for meth :: "u32 \<Rightarrow> u32 \<Rightarrow> unit \<Rightarrow> (u32 \<times> u32 \<times> unit) option" and ri
  by unfold_locales

interpretation m_bigrep: rpc_method marshall_int unmarshall_int be32 "\<lambda>_. True"
  marshall_string "unmarshall_string rep" enc_string short_list handle_bigrep "[]" for rep
  by unfold_locales

definition test_ready :: "nat \<Rightarrow> u32 \<Rightarrow> unit net \<Rightarrow> bool" where
  "test_ready n ri w \<longleftrightarrow> net_ready n w \<and>
     rs_procs (nt_srv w) 22 = Some h_22 \<and> rs_procs (nt_srv w) 23 = Some (h_int handle_fast ri) \<and>
     rs_procs (nt_srv w) 24 = Some (h_int handle_slow ri) \<and> rs_procs (nt_srv w) 25 = Some h_bigrep"

lemma call_22:
  assumes "test_ready (Suc n) ri w" and "length a + length b + 32 < MARSH_LIMIT"
  shows "\<exists>w'. call_strings 22 a b rep w = Some ((0, a @ b), w') \<and> test_ready n ri w'"
proof -
  have "\<exists>req ret w'. call_req1 (put_pair marshall_string marshall_string) (a, b) = Some req \<and>
    net_call 22 req w = Some (ret, w') \<and> call_m_result (unmarshall_string rep) rep ret = Some (0, a @ b) \<and>
    rs_app (nt_srv w') = () \<and> net_ready n w' \<and> rs_procs (nt_srv w') = rs_procs (nt_srv w)"
    by (rule m_22.net_call_method)
      (use assms in \<open>simp_all add: test_ready_def handler_tuple handle_22_def enc_pair_def enc_string_def short_list_def\<close>)
  with assms(1) show ?thesis
    by (auto simp: call_strings_def rpc_call2_def call_req_tuple test_ready_def)
qed

lemma call_int:
  assumes "test_ready (Suc n) ri w" and "proc \<noteq> rpc_bind" and "rs_procs (nt_srv w) proc = Some (h_int meth ri)"
    and "meth a ri () = Some (0, b, ())"
  shows "\<exists>w'. rpc_call1 marshall_int unmarshall_int proc a r1 w = Some ((0, b), w') \<and> test_ready n ri w'"
  using m_int.net_call_method [of n w proc ri meth a 0 b "()" r1] assms
  by (auto simp: rpc_call1_def test_ready_def)

lemma call_bigrep:
  assumes "test_ready (Suc n) ri w" and "unat len + 28 < MARSH_LIMIT"
  shows "\<exists>w'. rpc_call1 marshall_int (unmarshall_string rep) 25 len rep w =
    Some ((0, replicate (unat len) (of_char CHR ''x'')), w') \<and> test_ready n ri w'"
proof -
  have "sint (of_nat (unat len) :: u32) = int (unat len)"
    by (rule sint_of_nat_u32) (use assms(2) in simp)
  then have "sint len \<ge> 0" by simp
  then have "\<exists>req ret w'. call_req1 marshall_int len = Some req \<and> net_call 25 req w = Some (ret, w') \<and>
    call_m_result (unmarshall_string rep) rep ret = Some (0, replicate (unat len) (of_char CHR ''x'')) \<and>
    rs_app (nt_srv w') = () \<and> net_ready n w' \<and> rs_procs (nt_srv w') = rs_procs (nt_srv w)"
    by (intro m_bigrep.net_call_method)
      (use assms in \<open>simp_all add: test_ready_def handle_bigrep_def enc_string_def short_list_def\<close>)
  with assms(1) show ?thesis by (auto simp: rpc_call1_def test_ready_def)
qed

lemma call_just_one:
  assumes "test_ready (Suc n) ri w" and "length a + 28 < MARSH_LIMIT"
  shows "\<exists>w'. rpc_call1 marshall_string (unmarshall_string rep) 22 a rep w = Some ((unmarshal_args_failure, rep), w') \<and>
    test_ready n ri w'"
proof -
  have a: "short_list a" "length (enc_string a) + 24 < MARSH_LIMIT"
    using assms(2) by (simp_all add: short_list_def enc_string_def)
  have "m_ind marshall_new + length (enc_string a) < MARSH_LIMIT" using a(2) by (simp add: marshall_new_def)
  with c_string.put_enc [OF a(1)] marsh_wf_new obtain m where m: "marshall_string marshall_new a = Some m" "marsh_wf m"
    "m_contents m = m_contents marshall_new @ map Some (enc_string a)" by (rule put_okD)
  have "\<exists>ret w'. net_call 22 m w = Some (ret, w') \<and>
    call_m_result (unmarshall_string rep) rep ret = Some (unmarshal_args_failure, rep) \<and>
    rs_app (nt_srv w') = rs_app (nt_srv w) \<and> net_ready n w' \<and> rs_procs (nt_srv w') = rs_procs (nt_srv w)"
    by (rule net_call_bad_args [where args = "enc_string a" and rv = "[]" and putr = marshall_string
          and geta = "get_pair (unmarshall_string []) (unmarshall_string [])" and meth = "\<lambda>(a, b). handle_22 a b"])
      (use assms(1) a m two_strings_bad [OF _ _ _ _ a(1)] in \<open>simp_all add: test_ready_def handler_tuple m_contents_new\<close>)
  with m(1) assms(1) show ?thesis by (auto simp: rpc_call1_def call_req1_def test_ready_def)
qed

text \<open>Two arguments for the handler of one \<open>int\<close>, whatever their types.\<close>

lemma call_two_for_one:
  assumes "test_ready (Suc n) ri w"
    and put: "put_ok (\<lambda>m. do { m \<leftarrow> putA m a; putB m b }) args" "length args + 24 < MARSH_LIMIT" "length args \<noteq> 4"
  shows "\<exists>w'. rpc_call2 putA putB getr 23 a b r1 w = Some ((unmarshal_args_failure, r1), w') \<and> test_ready n ri w'"
proof -
  have "m_ind marshall_new + length args < MARSH_LIMIT" using put(2) by (simp add: marshall_new_def)
  with put(1) marsh_wf_new obtain m where m: "(do { m \<leftarrow> putA marshall_new a; putB m b }) = Some m" "marsh_wf m"
    "m_contents m = m_contents marshall_new @ map Some args" by (rule put_okD)
  have "\<exists>ret w'. net_call 23 m w = Some (ret, w') \<and> call_m_result getr r1 ret = Some (unmarshal_args_failure, r1) \<and>
    rs_app (nt_srv w') = rs_app (nt_srv w) \<and> net_ready n w' \<and> rs_procs (nt_srv w') = rs_procs (nt_srv w)"
    by (rule net_call_bad_args [where args = args and rv = ri and putr = marshall_int
          and geta = unmarshall_int and meth = handle_fast])
      (use assms(1) put m int_bad in \<open>simp_all add: test_ready_def m_contents_new\<close>)
  with m(1) assms(1) show ?thesis by (auto simp: rpc_call2_def call_req2_def test_ready_def)
qed

text \<open>A call concerns no other client of the server.\<close>

lemma call_alone:
  assumes "test_ready (Suc n) ri w" and "put_ok put args" and "length args + 24 < MARSH_LIMIT"
    and "put marshall_new = Some m" and "net_call proc m w = Some (ret, w')"
  shows "alone w w'"
proof -
  have "m_ind marshall_new + length args < MARSH_LIMIT" using assms(3) by (simp add: marshall_new_def)
  with assms(2) marsh_wf_new assms(4) have "marsh_wf m" "m_contents m = m_contents marshall_new @ map Some args"
    by (auto elim!: put_okD)
  then show ?thesis using assms(1,3,5) by (auto simp: m_contents_new test_ready_def intro: net_call_alone)
qed

lemma rpc_call1_alone:
  assumes "rpc_call1 put get proc a r w = Some (x, w')" and "test_ready (Suc n) ri w"
    and "put_ok (\<lambda>m. put m a) args" and "length args + 24 < MARSH_LIMIT"
  shows "alone w w'"
  using assms(1) call_alone [OF assms(2-4)] by (auto simp: rpc_call1_def call_req1_def elim!: bind_SomeE)

lemma rpc_call2_alone:
  assumes "rpc_call2 putA putB get proc a b r w = Some (x, w')" and "test_ready (Suc n) ri w"
    and "put_ok (\<lambda>m. do { m \<leftarrow> putA m a; putB m b }) args" and "length args + 24 < MARSH_LIMIT"
  shows "alone w w'"
  using assms(1) call_alone [OF assms(2-4)] by (auto simp: rpc_call2_def call_req2_def elim!: bind_SomeE)

lemma rpc_call1_int_alone:
  "rpc_call1 marshall_int get proc a r w = Some (x, w') \<Longrightarrow> test_ready (Suc n) ri w \<Longrightarrow> alone w w'"
  by (rule rpc_call1_alone [OF _ _ c_int.put_enc]) simp_all

lemma put_two_ints: "put_ok (\<lambda>m. do { m \<leftarrow> marshall_int m a; marshall_int m b }) (be32 a @ be32 b)"
  using c_intpair.put_enc [of "(a, b)"] by (simp add: put_pair_def enc_pair_def)

lemma put_two_strings:
  "short_list a \<Longrightarrow> short_list b \<Longrightarrow>
   put_ok (\<lambda>m. do { m \<leftarrow> marshall_string m a; marshall_string m b }) (enc_string a @ enc_string b)"
  using c_strpair.put_enc [of "(a, b)"] by (simp add: put_pair_def enc_pair_def)

lemma call_strings_alone:
  assumes "call_strings proc a b rep w = Some (x, w')" and "test_ready (Suc n) ri w" and "length a + length b + 32 < MARSH_LIMIT"
  shows "alone w w'"
  by (rule rpc_call2_alone [OF assms(1) [unfolded call_strings_def] assms(2) put_two_strings])
    (use assms(3) in \<open>simp_all add: short_list_def enc_string_def\<close>)

section \<open>The tests pass\<close>

lemma lit_simps [simp]: "length (lit cs) = length cs" "lit (as @ bs) = lit as @ lit bs"
  by (simp_all add: lit_def)

lemma big_round_ok:
  assumes "test_ready (Suc n) ri w" and "unat a + 28 < MARSH_LIMIT"
  shows "\<exists>w'. big_round a w = Some w' \<and> test_ready n ri w'"
  using call_bigrep [OF assms, of "[]"] by (auto simp: big_round_def)

lemma mixed_round_ok:
  assumes t: "test_ready (Suc n) ri w"
  shows "\<exists>w'. mixed_round r1 wa w = Some w' \<and> test_ready n ri w'"
proof -
  obtain which a where wa: "wa = (which, a)" by (cases wa)
  have procs: "rs_procs (nt_srv w) 23 = Some (h_int handle_fast ri)" "rs_procs (nt_srv w) 24 = Some (h_int handle_slow ri)"
    using t by (simp_all add: test_ready_def)
  have "\<exists>w1. rpc_call1 marshall_int unmarshall_int (if which then 23 else 24) a r1 w =
       Some ((0, if which then a + 1 else a + 2), w1) \<and> test_ready n ri w1"
    using call_int [OF t _ procs(1), of a "a + 1" r1] call_int [OF t _ procs(2), of a "a + 2" r1]
    by (cases which) (simp_all add: handle_fast_def handle_slow_def)
  then show ?thesis by (auto simp: mixed_round_def wa)
qed

lemma short_reply: "a < 252000 \<Longrightarrow> unat (a :: u32) + 28 < MARSH_LIMIT"
proof -
  assume "a < 252000"
  then have "unat a < unat (252000 :: u32)" by (simp add: word_less_nat_alt)
  then show ?thesis by simp
qed

lemma client1_big_ok:
  "test_ready (length args + n) ri w \<Longrightarrow> \<forall>a\<in>set args. a < 252000 \<Longrightarrow>
   \<exists>w'. client1_big args w = Some w' \<and> test_ready n ri w'"
proof (induction args arbitrary: w)
  case (Cons a args)
  then obtain w1 where "big_round a w = Some w1" "test_ready (length args + n) ri w1"
    using big_round_ok [of "length args + n" ri w a] short_reply by auto
  with Cons show ?case by simp
qed simp

lemma client1_mixed_ok:
  "test_ready (length args + n) ri w \<Longrightarrow> \<exists>w'. client1_mixed r1 args w = Some w' \<and> test_ready n ri w'"
proof (induction args arbitrary: w)
  case (Cons wa args)
  then obtain w1 where "mixed_round r1 wa w = Some w1" "test_ready (length args + n) ri w1"
    using mixed_round_ok [of "length args + n" ri w r1 wa] by auto
  with Cons show ?case by simp
qed simp

text \<open>Writing and reading one value, at the given position of a message.\<close>

lemma fill_cells: "fill (replicate k None @ map Some bs) = replicate k 0 @ bs"
  by (simp add: fill_def comp_def)

lemma testmarshall_passes: "testmarshall = Some ()"
proof -
  let ?rh = "\<lparr>rq_xid = 1, rq_proc = 2, rq_clt_nonce = 3, rq_srv_nonce = 4, rq_xid_rep = 5\<rparr>"
  let ?s = "lit ''hallo....''" and ?i = "12345 :: u32" and ?l = "1223344455 :: u64"
  have ind0: "m_ind marshall_new = 24" by (simp add: marshall_new_def)
  obtain m1 where m1: "pack_req_header marshall_new ?rh = Some m1" "marsh_wf m1" "m_ind m1 = 24"
    "m_contents m1 = replicate 4 None @ map Some (enc_req ?rh)"
    using pack_req_header_contents [OF marsh_wf_new, of ?rh] by (auto simp: ind0 m_contents_new)
  obtain m2 where m2: "marshall_int m1 ?i = Some m2" "marsh_wf m2" "m_ind m2 = 28"
    "m_contents m2 = m_contents m1 @ map Some (be32 ?i)"
    using put_okD [OF c_int.put_enc [OF TrueI] m1(2), of ?i] m1(3) by auto
  obtain m3 where m3: "marshall_ulonglong m2 ?l = Some m3" "marsh_wf m3" "m_ind m3 = 36"
    "m_contents m3 = m_contents m2 @ map Some (be64 ?l)"
    using put_okD [OF c_ulonglong.put_enc [OF TrueI] m2(2), of ?l] m2(3) by auto
  have s: "short_list ?s" "length (enc_string ?s) = 13" by (simp_all add: short_list_def enc_string_def)
  obtain m4 where m4: "marshall_string m3 ?s = Some m4" "m_contents m4 = m_contents m3 @ map Some (enc_string ?s)"
    using put_okD [OF c_string.put_enc [OF s(1)] m3(2)] m3(3) s(2) by auto
  let ?body = "be32 ?i @ be64 ?l @ enc_string ?s"
  let ?b = "replicate 4 0 @ enc_req ?rh @ ?body"
  have cells: "m_contents m4 = replicate 4 None @ map Some (enc_req ?rh @ ?body)" by (simp add: m4(2) m3(4) m2(4) m1(4))
  have buf: "fill (m_contents m4) = ?b" "length (m_contents m4) = 49" "length ?b = 49"
    unfolding cells fill_cells using s(2) by (simp_all add: enc_req_def)
  let ?v = "\<lambda>k. (unmarshall_of ?b 49)\<lparr>u_ind := k\<rparr>"
  have v: "unm_wf (?v k)" "u_ok (?v k)" "u_rest (?v k) = drop k ?b" for k
    using buf(3) by (simp_all add: unm_wf_def unmarshall_of_def u_rest_def del: append_assoc)
  have hdr: "unpack_req_header (unmarshall_of ?b 49) = Some (?rh, ?v 24)"
    by (rule unpack_req_header_wire [OF _ _ refl]) (use buf(3) s(2) in simp_all)
  have rest: "u_rest (?v 24) = be32 ?i @ (be64 ?l @ enc_string ?s)" "u_rest (?v 28) = be64 ?l @ enc_string ?s"
    "u_rest (?v 36) = enc_string ?s @ []" unfolding v(3) by (simp_all add: enc_req_def)
  have "unmarshall_int (?v 24) = Some (?i, (?v 24)\<lparr>u_ind := u_ind (?v 24) + length (be32 ?i)\<rparr>)"
    by (rule get_okD [OF c_int.get_enc [OF TrueI] v(1,2) rest(1)])
  moreover have "unmarshall_ulonglong (?v 28) = Some (?l, (?v 28)\<lparr>u_ind := u_ind (?v 28) + length (be64 ?l)\<rparr>)"
    by (rule get_okD [OF c_ulonglong.get_enc [OF TrueI] v(1,2) rest(2)])
  moreover have "unmarshall_string [] (?v 36) = Some (?s, (?v 36)\<lparr>u_ind := u_ind (?v 36) + length (enc_string ?s)\<rparr>)"
    by (rule get_okD [OF c_string.get_enc [OF s(1)] v(1,2) rest(3)])
  moreover have "okdone (?v 49)" by (simp add: okdone_def unmarshall_of_def)
  ultimately show ?thesis
    unfolding testmarshall_def using m1(1,3) m2(1) m3(1) m4(1) hdr buf s(2)
    by (simp add: marshall_take_buf_def)
qed

text \<open>The program with its own server and a bound client: \<open>main\<close> up to the tests.\<close>

definition rpctest_start :: "u32 \<Rightarrow> u32 \<Rightarrow> u32 \<Rightarrow> u32 \<Rightarrow> u32 \<Rightarrow> cid \<Rightarrow> connection \<Rightarrow> unit net option" where
  "rpctest_start srv_rnd ri r1 clt_rnd lossy k kn = do {
     testmarshall;
     s \<leftarrow> startserver srv_rnd ri;
     (ret, w) \<leftarrow> net_bind r1 (net_new clt_rnd lossy k kn s);
     assert_that (ret = 0);
     Some w
   }"

lemma rpctest_started:
  assumes "\<not> c_dead kn" and "1 \<le> c_refno kn"
  shows "\<exists>w. rpctest_start srv_rnd ri r1 clt_rnd lossy k kn = Some w \<and> test_ready 4294967293 ri w"
proof -
  obtain s where s: "startserver srv_rnd ri = Some s" "rs_nonce s = srv_rnd" "rs_reply_window s = Map.empty"
     "rs_conns s = Map.empty"
     "rs_procs s = [rpc_bind \<mapsto> handler1 unmarshall_int marshall_int 0 (rpcbind srv_rnd), 22 \<mapsto> h_22,
       23 \<mapsto> h_int handle_fast ri, 24 \<mapsto> h_int handle_slow ri, 25 \<mapsto> h_bigrep]"
    by (simp add: startserver_def rpcs_new_def reg1_def)
  from net_started [OF assms s(3,4), of 0 r1 clt_rnd lossy k] s obtain w where
    "net_bind r1 (net_new clt_rnd lossy k kn s) = Some (0, w)" "net_ready 4294967293 w" "rs_procs (nt_srv w) = rs_procs s"
    by auto
  then show ?thesis using s by (auto simp: rpctest_start_def testmarshall_passes test_ready_def)
qed

lemma test_ready_mono: "test_ready n ri w \<Longrightarrow> m \<le> n \<Longrightarrow> test_ready m ri w"
  by (auto simp: test_ready_def net_ready_def linked_def)

lemma sample_test_ready: "n \<le> 4294967293 \<Longrightarrow> \<exists>w. test_ready n ri w"
  using rpctest_started [of "fst (connection_new 3 0)" 9 ri 0 5 0 0]
  by (auto simp: connection_new_def intro: test_ready_mono)

text \<open>
  The first client thread of the concurrent test passes for all random numbers it may draw (they are
  below 2000): the
  long replies have the length asked for, and the two integer handlers answer with their sums.
\<close>

lemma client1_passes:
  assumes "test_ready (length args1 + (length args2 + n)) ri w" and "\<forall>a\<in>set args1. a < 252000"
  shows "\<exists>w'. client1 r1 args1 args2 w = Some w' \<and> test_ready n ri w'"
proof -
  obtain w1 where "client1_big args1 w = Some w1" "test_ready (length args2 + n) ri w1"
    using client1_big_ok [OF assms] by blast
  with client1_mixed_ok show ?thesis by (auto simp: client1_def)
qed

text \<open>
  \<open>simple_tests\<close> passes, over eight calls: both strings come back concatenated, also when they have a
  million bytes; a short request gets a long reply; the calls with too few and with too many
  arguments return a negative code and leave the result variables as they were.
\<close>

lemma simple_tests_pass:
  assumes "test_ready (8 + n) ri w"
  shows "\<exists>w'. simple_tests wrongrep w = Some w' \<and> test_ready n ri w' \<and> alone w w'"
proof -
  have t8: "test_ready (Suc (Suc (Suc (Suc (Suc (Suc (Suc (Suc n)))))))) ri w" using assms by (simp add: eval_nat_numeral)
  from call_22 [OF t8, of "lit ''hello''" "lit '' goodbye''" "[]"] obtain w1 where
    1: "call_strings 22 (lit ''hello'') (lit '' goodbye'') [] w = Some ((0, lit ''hello goodbye''), w1)"
       "test_ready (Suc (Suc (Suc (Suc (Suc (Suc (Suc n))))))) ri w1" by (auto simp: lit_def)
  let ?rep = "replicate (unat (70000 :: u32)) (of_char CHR ''x'') :: bytes"
  from call_bigrep [OF 1(2), of 70000 "lit ''hello goodbye''"] obtain w2 where
    2: "rpc_call1 marshall_int (unmarshall_string (lit ''hello goodbye'')) 25 70000 (lit ''hello goodbye'') w1 = Some ((0, ?rep), w2)"
       "test_ready (Suc (Suc (Suc (Suc (Suc (Suc n)))))) ri w2" by auto
  from call_just_one [OF 2(2), of "lit ''just one''" ?rep] obtain w3 where
    3: "rpc_call1 marshall_string (unmarshall_string ?rep) 22 (lit ''just one'') ?rep w2 = Some ((unmarshal_args_failure, ?rep), w3)"
       "test_ready (Suc (Suc (Suc (Suc (Suc n))))) ri w3" by auto
  from call_two_for_one [OF 3(2), of marshall_int 1001 marshall_int 1002 _ "unmarshall_string ?rep" ?rep, OF put_two_ints] obtain w4 where
    4: "rpc_call2 marshall_int marshall_int (unmarshall_string ?rep) 23 1001 1002 ?rep w3 = Some ((unmarshal_args_failure, ?rep), w4)"
       "test_ready (Suc (Suc (Suc (Suc n)))) ri w4" by auto
  from call_two_for_one [OF 4(2), of marshall_string "lit ''hello''" marshall_string "lit '' goodbye''" _ unmarshall_int wrongrep,
      OF put_two_strings] obtain w5 where
    5: "rpc_call2 marshall_string marshall_string unmarshall_int 23 (lit ''hello'') (lit '' goodbye'') wrongrep w4 =
         Some ((unmarshal_args_failure, wrongrep), w5)"
       "test_ready (Suc (Suc (Suc n))) ri w5" by (auto simp: short_list_def enc_string_def)
  have "rs_procs (nt_srv w5) 23 = Some (h_int handle_fast ri)" using 5(2) by (simp add: test_ready_def)
  from call_int [OF 5(2) _ this, of 77 78 0] obtain w6 where
    6: "rpc_call1 marshall_int unmarshall_int 23 77 0 w5 = Some ((0, 78), w6)" "test_ready (Suc (Suc n)) ri w6"
    by (auto simp: handle_fast_def)
  let ?x = "\<lambda>k. replicate k (of_char CHR ''x'') :: bytes"
  from call_22 [OF 6(2), of "?x 1000" "lit ''x''" "[]"] obtain w7 where
    7: "call_strings 22 (?x 1000) (lit ''x'') [] w6 = Some ((0, ?x 1000 @ lit ''x''), w7)" "test_ready (Suc n) ri w7"
    by auto
  from call_22 [OF 7(2), of "?x 1000000" "lit ''z''" ?rep] obtain w8 where
    8: "call_strings 22 (?x 1000000) (lit ''z'') ?rep w7 = Some ((0, ?x 1000000 @ lit ''z''), w8)" "test_ready n ri w8"
    by auto
  have "alone w w1" using 1(1) t8 by (rule call_strings_alone) simp
  also have "alone w1 w2" using 2(1) 1(2) by (rule rpc_call1_int_alone)
  also have "alone w2 w3" using 3(1) 2(2) by (rule rpc_call1_alone [OF _ _ c_string.put_enc]) (simp_all add: short_list_def enc_string_def)
  also have "alone w3 w4" using 4(1) 3(2) by (rule rpc_call2_alone [OF _ _ put_two_ints]) simp
  also have "alone w4 w5" using 5(1) [folded call_strings_def] 4(2)
    by (rule rpc_call2_alone [OF _ _ put_two_strings]) (simp_all add: short_list_def enc_string_def)
  also have "alone w5 w6" using 6(1) 5(2) by (rule rpc_call1_int_alone)
  also have "alone w6 w7" using 7(1) 6(2) by (rule call_strings_alone) simp
  also have "alone w7 w8" using 8(1) 7(2) by (rule call_strings_alone) simp
  finally have "alone w w8" .
  then show ?thesis unfolding simple_tests_def
    using 1(1) 2(1) 3(1) 4(1) 5(1) 6(1) 7(1) 8 by simp
qed

end
