(* ===== verification/Lossy.thy ===== *)
theory Lossy
  imports Clients Verdicts
begin

text \<open>
  Calls over connections that are lost. With \<open>RPC_LOSSY\<close> set, \<open>connection::send\<close> shuts the socket down before some
  of its PDUs, on either side; \<open>rpcc::call1\<close> notices that its connection is dead and sends the request again on a new
  one, until a reply comes or the deadline has passed. The theory \<open>Retry\<close> has the loop of \<open>call1\<close> with its clock and
  its channel; here the transmissions of a call meet the server, which dispatches one PDU at a time. The result: the
  handler of a call runs once if one of its requests arrives and not at all otherwise, however often the request is
  sent; the reply that comes back is the one of that run; and a call that times out leaves client and server ready
  for the next one.
\<close>

section \<open>Transmissions\<close>

text \<open>The fate of a transmission: the reply comes back, the request is lost, or it is dispatched and the reply is lost.
  Each comes with the connection that replaces the one that was lost: its name at the server and its descriptor.\<close>

datatype fate = Arrives | Request_lost | Reply_lost

type_synonym tx = "fate \<times> cid \<times> nat"

definition conn_dies :: "'s rpcs \<Rightarrow> cid \<Rightarrow> 's rpcs" where
  "conn_dies s k = s\<lparr>rs_heap := (rs_heap s)(k := map_option (\<lambda>kn. kn\<lparr>c_dead := True\<rparr>) (rs_heap s k))\<rparr>"

definition conn_accepted :: "'s rpcs \<Rightarrow> cid \<Rightarrow> nat \<Rightarrow> int \<Rightarrow> 's rpcs" where
  "conn_accepted s k fd lossy = s\<lparr>rs_heap := (rs_heap s)(k \<mapsto> fst (connection_new fd lossy))\<rparr>"

text \<open>The request \<open>b\<close> is sent until its reply has come or the transmissions that the deadline allows are over. The
  result has the connection that is in use then.\<close>

fun lossy_sends :: "int \<Rightarrow> tx list \<Rightarrow> bytes \<Rightarrow> rpcc \<Rightarrow> 's rpcs \<Rightarrow> cid \<Rightarrow> (rpcc \<times> 's rpcs \<times> cid) option" where
  "lossy_sends lossy [] b c s k = Some (c, s, k)"
| "lossy_sends lossy ((fate, k', fd) # txs) b c s k =
     (case fate of
        Arrives \<Rightarrow> do {
          s1 \<leftarrow> c_incref s k;
          s' \<leftarrow> dispatch s1 k b (length b);
          c \<leftarrow> (if rs_outbox s' = rs_outbox s then Some c
               else let r = fill (snd (last (rs_outbox s'))) in got_pdu c r (length r));
          Some (c, s', k)
        }
      | Request_lost \<Rightarrow> lossy_sends lossy txs b c (conn_accepted (conn_dies s k) k' fd lossy) k'
      | Reply_lost \<Rightarrow> do {
          s \<leftarrow> c_incref s k;
          s \<leftarrow> dispatch s k b (length b);
          lossy_sends lossy txs b c (conn_accepted (conn_dies s k) k' fd lossy) k'
        })"

definition lossy_call :: "int \<Rightarrow> tx list \<Rightarrow> u32 \<Rightarrow> marshall \<Rightarrow> 's net \<Rightarrow> ((u32 \<times> unmarshall) \<times> 's net) option" where
  "lossy_call lossy txs proc req w = do {
     (st, c) \<leftarrow> call1_enter (nt_clt w) proc req;
     (case st of
        Call_refused e \<Rightarrow> Some ((e, unmarshall_new), w\<lparr>nt_clt := c\<rparr>)
      | Call_sent xid m \<Rightarrow> do {
          (c, s, k) \<leftarrow> lossy_sends lossy txs (fill (m_contents m)) c (nt_srv w) (nt_conn w);
          (ret, c) \<leftarrow> call1_leave c xid;
          Some (ret, \<lparr>nt_clt = c, nt_srv = s, nt_conn = k\<rparr>)
        })
   }"

text \<open>Without losses this is the call of \<open>Net\<close>.\<close>

lemma lossy_call_net: "lossy_call lossy [(Arrives, k', fd)] proc req w = net_call proc req w"
  by (cases w) (simp add: lossy_call_def net_call_def Let_def case_prod_unfold cong: call1_start.case_cong)

text \<open>Each connection that is accepted differs from the one before.\<close>

fun new_conns :: "cid \<Rightarrow> tx list \<Rightarrow> bool" where
  "new_conns k [] = True"
| "new_conns k ((fate, k', fd) # txs) = (k' \<noteq> k \<and> new_conns k' txs)"

abbreviation answered_by :: "tx list \<Rightarrow> bool" where
  "answered_by txs \<equiv> Arrives \<in> fst ` set txs"

abbreviation reached_by :: "tx list \<Rightarrow> bool" where
  "reached_by txs \<equiv> \<exists>t \<in> set txs. fst t \<noteq> Request_lost"

section \<open>Connections that come and go\<close>

definition usable :: "conn_heap \<Rightarrow> cid \<Rightarrow> bool" where
  "usable H d \<longleftrightarrow> (\<exists>dn. H d = Some dn \<and> 1 \<le> c_refno dn \<and> cb_buf (c_wpdu dn) = None)"

definition channel_ok :: "'s rpcs \<Rightarrow> u32 \<Rightarrow> cid \<Rightarrow> bool" where
  "channel_ok s n k \<longleftrightarrow> usable (rs_heap s) k \<and> isdead (rs_heap s) k = Some False \<and>
     rs_conns s n \<noteq> Some None \<and> (\<forall>d. rs_conns s n = Some (Some d) \<longrightarrow> usable (rs_heap s) d)"

lemma usable_decref: "usable H d \<Longrightarrow> \<exists>H'. decref H d = Some H'"
  by (auto simp: usable_def decref_def delete_conn_def Let_def)

lemma channel_replaceable: "channel_ok s n k \<Longrightarrow> replaceable s n k"
  unfolding channel_ok_def replaceable_def by (metis not_None_eq usable_decref)

lemma channel_reconnect:
  assumes "channel_ok s n k" and "k' \<noteq> k"
  shows "channel_ok (conn_accepted (conn_dies s k) k' fd lossy) n k'"
  using assms
  by (auto simp: channel_ok_def conn_accepted_def conn_dies_def usable_def isdead_def connection_new_def charbuf_new_def)

text \<open>The poll thread takes a reference for the PDU.\<close>

lemma channel_incref:
  assumes "channel_ok s n k"
  obtains s1 kn where "c_incref s k = Some s1" and "rs_heap s1 k = Some kn" and "\<not> c_dead kn" and "2 \<le> c_refno kn"
    and "cb_buf (c_wpdu kn) = None" and "channel_ok s1 n k" and "\<exists>H. s1 = s\<lparr>rs_heap := H\<rparr>"
proof -
  obtain kn where kn: "rs_heap s k = Some kn" "1 \<le> c_refno kn" "cb_buf (c_wpdu kn) = None" "\<not> c_dead kn"
    using assms by (auto simp: channel_ok_def usable_def isdead_def)
  let ?s1 = "s\<lparr>rs_heap := (rs_heap s)(k \<mapsto> kn\<lparr>c_refno := c_refno kn + 1\<rparr>)\<rparr>"
  have "channel_ok ?s1 n k" using assms kn by (auto simp: channel_ok_def usable_def isdead_def)
  then show ?thesis
    by (intro that [of ?s1 "kn\<lparr>c_refno := c_refno kn + 1\<rparr>"] c_incref_ok kn(1) exI [of _ "rs_heap ?s1"]) (use kn in simp_all)
qed

section \<open>The server while a request is sent again and again\<close>

text \<open>\<open>s\<close> comes from \<open>s0\<close> by transmissions of the request with header \<open>h\<close>: none of them has reached the server, or the
  handler has run once, from \<open>app\<close> to \<open>app'\<close>, and its reply is stored.\<close>

definition call_state :: "req_header \<Rightarrow> cells \<Rightarrow> 's \<Rightarrow> 's \<Rightarrow> 's rpcs \<Rightarrow> bool \<Rightarrow> 's rpcs \<Rightarrow> cid \<Rightarrow> bool" where
  "call_state h rep app app' s0 reached s k \<longleftrightarrow>
     rs_nonce s = rs_nonce s0 \<and> rs_procs s = rs_procs s0 \<and> channel_ok s (rq_clt_nonce h) k \<and>
     win_xids (rs_reply_window s) (rq_clt_nonce h) \<subseteq> insert (rq_xid h) (win_xids (rs_reply_window s0) (rq_clt_nonce h)) \<and>
     (if reached then rs_app s = app' \<and> holds_reply (rs_reply_window s) (rq_clt_nonce h) (rq_xid h) rep
      else rs_app s = app \<and> rq_xid h \<notin> win_xids (rs_reply_window s) (rq_clt_nonce h))"

lemma call_state_reconnect:
  "call_state h rep app app' s0 r s k \<Longrightarrow> k' \<noteq> k \<Longrightarrow>
   call_state h rep app app' s0 r (conn_accepted (conn_dies s k) k' fd lossy) k'"
  using channel_reconnect [of s "rq_clt_nonce h" k k' fd lossy]
  by (simp add: call_state_def conn_accepted_def conn_dies_def)

text \<open>What the server needs to know of the request and of its handler.\<close>

definition request_of :: "bytes \<Rightarrow> req_header \<Rightarrow> cells \<Rightarrow> 's \<Rightarrow> 's \<Rightarrow> 's rpcs \<Rightarrow> bool" where
  "request_of b h rep app app' s0 \<longleftrightarrow>
     rq_clt_nonce h \<noteq> 0 \<and> rq_srv_nonce h \<in> {0, rs_nonce s0} \<and> rq_xid_rep h < rq_xid h \<and>
     (\<exists>u f ret rm body. unpack_req_header (unmarshall_of b (length b)) = Some (h, u) \<and> u_ok u \<and>
        rs_procs s0 (rq_proc h) = Some f \<and> f u marshall_new app = Some (ret, rm, app') \<and>
        (0 \<le> sint ret \<or> ret = unmarshal_args_failure) \<and> marsh_wf rm \<and>
        m_contents rm = replicate 24 None @ map Some body \<and> rep = reply_cells (rq_xid h) ret body)"

lemma serve_first:
  assumes q: "request_of b h rep app app' s0" and st: "call_state h rep app app' s0 False s k"
  shows "\<exists>s1 s'. c_incref s k = Some s1 \<and> dispatch s1 k b (length b) = Some s' \<and>
    rs_outbox s' = rs_outbox s @ [(k, rep)] \<and> call_state h rep app app' s0 True s' k"
proof -
  let ?n = "rq_clt_nonce h"
  from q obtain u f ret rm body where hdr: "unpack_req_header (unmarshall_of b (length b)) = Some (h, u)" "u_ok u"
    and f: "rs_procs s0 (rq_proc h) = Some f" "f u marshall_new app = Some (ret, rm, app')"
    and ret: "0 \<le> sint ret \<or> ret = unmarshal_args_failure"
    and rm: "marsh_wf rm" "m_contents rm = replicate 24 None @ map Some body" "rep = reply_cells (rq_xid h) ret body"
    by (auto simp: request_of_def)
  have "channel_ok s ?n k" using st by (simp add: call_state_def)
  then obtain s1 kn where s1: "c_incref s k = Some s1" "rs_heap s1 k = Some kn" "\<not> c_dead kn" "2 \<le> c_refno kn"
    "cb_buf (c_wpdu kn) = None" "channel_ok s1 ?n k" "\<exists>H. s1 = s\<lparr>rs_heap := H\<rparr>"
    by (rule channel_incref)
  have same: "rs_app s1 = rs_app s" "rs_procs s1 = rs_procs s" "rs_nonce s1 = rs_nonce s" "rs_outbox s1 = rs_outbox s"
    "rs_reply_window s1 = rs_reply_window s"
    using s1(7) by auto
  have "accepts s1 k h"
    using st q s1(2-4) channel_replaceable [OF s1(6)] same by (auto simp: accepts_def call_state_def request_of_def)
  from dispatch_new [OF hdr this _ _ ret rm(1,2), of f app'] st f same rm(3) obtain s'
    where s': "dispatch s1 k b (length b) = Some s'" "rs_app s' = app'" "rs_outbox s' = rs_outbox s @ [(k, rep)]"
      "served ?n (rq_xid h) k s1 s'" "?n \<noteq> 0 \<longrightarrow> holds_reply (rs_reply_window s') ?n (rq_xid h) rep"
    by (auto simp: call_state_def)
  have "?n \<noteq> 0" using q by (simp add: request_of_def)
  then have "channel_ok s' ?n k" using s'(4) s1(2-5) by (auto simp: channel_ok_def served_def usable_def isdead_def)
  then have "call_state h rep app app' s0 True s' k"
    using st s' same \<open>?n \<noteq> 0\<close> by (auto simp: call_state_def served_def)
  then show ?thesis using s1(1) s' by blast
qed

lemma serve_again:
  assumes q: "request_of b h rep app app' s0" and st: "call_state h rep app app' s0 True s k"
  shows "\<exists>s1 s'. c_incref s k = Some s1 \<and> dispatch s1 k b (length b) = Some s' \<and>
    rs_outbox s' = rs_outbox s @ [(k, rep)] \<and> call_state h rep app app' s0 True s' k"
proof -
  let ?n = "rq_clt_nonce h" and ?x = "rq_xid h"
  from q obtain u f where hdr: "unpack_req_header (unmarshall_of b (length b)) = Some (h, u)" "u_ok u"
    and f: "rs_procs s0 (rq_proc h) = Some f" by (auto simp: request_of_def)
  have n: "?n \<noteq> 0" "rq_xid_rep h < ?x" using q by (auto simp: request_of_def)
  have "channel_ok s ?n k" using st by (simp add: call_state_def)
  then obtain s1 kn where s1: "c_incref s k = Some s1" "rs_heap s1 k = Some kn" "\<not> c_dead kn" "2 \<le> c_refno kn"
    "cb_buf (c_wpdu kn) = None" "channel_ok s1 ?n k" "\<exists>H. s1 = s\<lparr>rs_heap := H\<rparr>"
    by (rule channel_incref)
  have same: "rs_app s1 = rs_app s" "rs_procs s1 = rs_procs s" "rs_nonce s1 = rs_nonce s" "rs_outbox s1 = rs_outbox s"
    "rs_reply_window s1 = rs_reply_window s"
    using s1(7) by auto
  have holds: "holds_reply (rs_reply_window s1) ?n ?x rep" using st same by (simp add: call_state_def)
  then obtain l it where l: "rs_reply_window s1 ?n = Some l" "List.find (\<lambda>i. r_xid i = ?x) l = Some it"
    "r_cb_present it" "r_buf it = Some rep" by (auto simp: holds_reply_def)
  from find_DONE [OF l(2,3) n(2)] l(4) obtain l' where l': "checkduplicate_loop ?x (rq_xid_rep h) l = (Some (DONE, Some rep), l')"
    by auto
  obtain s2 kn2 where s2: "save_conn s1 ?n k = Some s2" "rs_heap s2 k = Some kn2" "c_dead kn2 = c_dead kn"
    "c_wpdu kn2 = c_wpdu kn" "c_refno kn \<le> c_refno kn2" "rs_app s2 = rs_app s1" "rs_outbox s2 = rs_outbox s1"
    "rs_procs s2 = rs_procs s1" "rs_nonce s2 = rs_nonce s1" "rs_conns s2 ?n = Some (Some k)"
    using save_conn_ok [OF s1(2) channel_replaceable [OF s1(6)]] by blast
  have win: "rs_reply_window s2 = rs_reply_window s1" using s2(1) by (rule save_conn_window)
  let ?s3 = "s2\<lparr>rs_reply_window := (rs_reply_window s2)(?n \<mapsto> l')\<rparr>"
  let ?j = "\<lparr>dj_hdr = h, dj_req = u, dj_fn = f, dj_stat = DONE, dj_buf = Some rep\<rparr>"
  let ?s4 = "?s3\<lparr>rs_outbox := rs_outbox s2 @ [(k, rep)], rs_heap := (rs_heap s2)(k \<mapsto> kn2\<lparr>c_refno := c_refno kn2 - 1\<rparr>)\<rparr>"
  have "\<not> (rq_srv_nonce h \<noteq> 0 \<and> rq_srv_nonce h \<noteq> rs_nonce s1)" "rs_procs s1 (rq_proc h) = Some f"
    using q st same f by (auto simp: request_of_def call_state_def)
  then have "dispatch_enter s1 k b (length b) = Some (Some ?j, ?s3)"
    using hdr n(1) l(1) s2(1) l' win by (auto simp: dispatch_enter_def checkduplicate_and_update_def)
  moreover have "c_decref (c_send ?s3 k rep) k = Some ?s4"
    using s2(2,3,5) s1(3,4) c_decref_alive [of "c_send ?s3 k rep" k kn2] by (simp add: c_send_def)
  ultimately have d: "dispatch s1 k b (length b) = Some ?s4" by (simp add: dispatch_def dispatch_switch_def)
  have "channel_ok ?s4 ?n k" using s2(2-5,10) s1(3-5) by (simp add: channel_ok_def usable_def isdead_def)
  moreover have "holds_reply (rs_reply_window ?s4) ?n ?x rep"
    using find_checkduplicate_loop [OF l' n(2)] l by (simp add: holds_reply_def)
  moreover have "win_xids (rs_reply_window ?s4) ?n \<subseteq> win_xids (rs_reply_window s) ?n"
    using checkduplicate_loop_subset [OF l'] l(1) same by (simp add: win_xids_def)
  ultimately have "call_state h rep app app' s0 True ?s4 k"
    using st same s2(6,8,9) by (auto simp: call_state_def)
  moreover have "rs_outbox ?s4 = rs_outbox s @ [(k, rep)]" using same s2(7) by simp
  ultimately show ?thesis using s1(1) d by blast
qed

lemma serve:
  "request_of b h rep app app' s0 \<Longrightarrow> call_state h rep app app' s0 r s k \<Longrightarrow>
   \<exists>s1 s'. c_incref s k = Some s1 \<and> dispatch s1 k b (length b) = Some s' \<and>
     rs_outbox s' = rs_outbox s @ [(k, rep)] \<and> call_state h rep app app' s0 True s' k"
  by (metis (full_types) serve_first serve_again)

lemma lossy_sends_serve:
  assumes q: "request_of b h rep app app' s0"
    and got: "got_pdu c (fill rep) (length (fill rep)) = Some c2"
  shows "call_state h rep app app' s0 r s k \<Longrightarrow> new_conns k txs \<Longrightarrow>
    \<exists>s' k'. lossy_sends lossy txs b c s k = Some (if answered_by txs then c2 else c, s', k') \<and>
      call_state h rep app app' s0 (r \<or> reached_by txs) s' k'"
proof (induction txs arbitrary: s k r)
  case (Cons t txs)
  obtain f k1 fd where t: "t = (f, k1, fd)" by (cases t)
  from serve [OF q Cons.prems(1)] obtain s1 s' where s': "c_incref s k = Some s1" "dispatch s1 k b (length b) = Some s'"
    "rs_outbox s' = rs_outbox s @ [(k, rep)]" "call_state h rep app app' s0 True s' k" by blast
  have new: "k1 \<noteq> k" "new_conns k1 txs" using Cons.prems(2) t by simp_all
  show ?case
  proof (cases f)
    case Arrives
    then show ?thesis using s' got t by (simp add: Let_def)
  next
    case Request_lost
    from Cons.IH [OF call_state_reconnect [OF Cons.prems(1) new(1)] new(2), of fd lossy]
    show ?thesis using Request_lost t by simp
  next
    case Reply_lost
    from Cons.IH [OF call_state_reconnect [OF s'(4) new(1)] new(2), of fd lossy]
    show ?thesis using Reply_lost t s'(1,2) by simp
  qed
qed simp

section \<open>A call\<close>

text \<open>When client and server are ready for \<open>n\<close> calls over connections that may be lost; \<open>linked\<close> of \<open>Net\<close> is the case
  of a connection that stays.\<close>

definition lossy_linked :: "nat \<Rightarrow> rpcc \<Rightarrow> 's rpcs \<Rightarrow> cid \<Rightarrow> bool" where
  "lossy_linked n c s k \<longleftrightarrow>
     (\<exists>A. client_inv A c) \<and> unat (rc_xid c) + n < 4294967296 \<and> rc_srv_nonce c \<in> {0, rs_nonce s} \<and>
     rc_clt_nonce c \<noteq> 0 \<and> channel_ok s (rc_clt_nonce c) k \<and>
     (\<forall>x \<in> win_xids (rs_reply_window s) (rc_clt_nonce c). x < rc_xid c)"

abbreviation lossy_ready :: "nat \<Rightarrow> 's net \<Rightarrow> bool" where
  "lossy_ready n w \<equiv> lossy_linked n (nt_clt w) (nt_srv w) (nt_conn w)"

lemma linked_lossy:
  assumes "linked n c s k" and "rc_clt_nonce c \<noteq> 0" and "usable (rs_heap s) k"
  shows "lossy_linked n c s k"
  using assms by (auto simp: linked_def lossy_linked_def channel_ok_def isdead_def)

lemma lossy_linked_mono: "lossy_linked (Suc n) c s k \<Longrightarrow> lossy_linked n c s k"
  by (simp add: lossy_linked_def)

text \<open>What another client does over its connections \<open>K\<close> does not matter.\<close>

lemma lossy_linked_other:
  assumes "lossy_linked n c s k" and "only_of m K s s'" and "rc_clt_nonce c \<noteq> m" and "k \<notin> K"
    and "conns_of s (rc_clt_nonce c) \<inter> K = {}"
  shows "lossy_linked n c s' k"
  using assms by (auto simp: lossy_linked_def channel_ok_def usable_def isdead_def only_of_def win_xids_def conns_of_def)

lemma client_window_unacked:
  assumes "client_inv A c" and "rc_xid c \<noteq> - 1"
  shows "hd (rc_window c) < rc_xid c"
proof (rule ccontr)
  assume "\<not> hd (rc_window c) < rc_xid c"
  moreover have "acked_upto A (hd (rc_window c))" using assms(1) by (simp add: client_inv_def win_inv_def win_cover_def)
  moreover have "0 < rc_xid c" using assms(1) by (simp add: client_inv_def)
  ultimately have "rc_xid c \<in> A" by (simp add: acked_upto_def)
  then show False using assms(1) by (auto simp: client_inv_def)
qed

text \<open>The request as the server sees it.\<close>

lemma lossy_request:
  assumes rdy: "lossy_ready (Suc n) w" and proc: "may_call (nt_clt w) proc" "rs_procs (nt_srv w) proc = Some f"
    and req: "marsh_wf req" "m_contents req = replicate 24 None @ map Some abody" "length abody + 24 < MARSH_LIMIT"
    and run: "\<And>u. unm_wf u \<Longrightarrow> u_ok u \<Longrightarrow> u_rest u = abody \<Longrightarrow> u_ind u \<le> u_sz u \<Longrightarrow>
        \<exists>rep. f u marshall_new (rs_app (nt_srv w)) = Some (ret, rep, app') \<and> marsh_wf rep \<and>
          m_contents rep = replicate 24 None @ map Some body"
    and ret: "0 \<le> sint ret \<or> ret = unmarshal_args_failure"
  obtains m A where "call1_enter (nt_clt w) proc req = Some (Call_sent (rc_xid (nt_clt w)) m,
      (nt_clt w)\<lparr>rc_xid := rc_xid (nt_clt w) + 1, rc_calls := (rc_calls (nt_clt w))(rc_xid (nt_clt w) \<mapsto> caller_new)\<rparr>)"
    and "client_inv A ((nt_clt w)\<lparr>rc_xid := rc_xid (nt_clt w) + 1,
      rc_calls := (rc_calls (nt_clt w))(rc_xid (nt_clt w) \<mapsto> caller_new)\<rparr>)"
    and "request_of (fill (m_contents m)) (next_header (nt_clt w) proc) (reply_cells (rc_xid (nt_clt w)) ret body)
      (rs_app (nt_srv w)) app' (nt_srv w)"
proof -
  let ?c = "nt_clt w" and ?s = "nt_srv w" and ?h = "next_header (nt_clt w) proc" and ?x = "rc_xid (nt_clt w)"
  obtain A where inv: "client_inv A ?c" using rdy by (auto simp: lossy_linked_def)
  have nw: "?x \<noteq> - 1" using rdy unat_Suc_u32 [of ?x] by (simp add: lossy_linked_def)
  obtain m where m: "call1_enter ?c proc req = Some (Call_sent ?x m,
      ?c\<lparr>rc_xid := ?x + 1, rc_calls := (rc_calls ?c)(?x \<mapsto> caller_new)\<rparr>)" "m_contents m = request_cells ?h abody"
    using call1_enter_sent [OF proc(1) client_inv_window [OF inv] req(1,2)] by blast
  let ?b = "fill (m_contents m)"
  let ?u = "(unmarshall_of ?b (length ?b))\<lparr>u_ind := RPC_HEADER_SZ\<rparr>"
  have b: "unpack_req_header (unmarshall_of ?b (length ?b)) = Some (?h, ?u)" "u_rest ?u = abody" "length ?b = 24 + length abody"
    using wire_request [of ?h abody ?b] wire_of_fill [of "m_contents m"] m(2) req(3) by simp_all
  have u: "unm_wf ?u" "u_ok ?u" "u_ind ?u \<le> u_sz ?u" using b(3) req(3) by (simp_all add: unm_wf_def unmarshall_of_def)
  from run [OF u(1,2) b(2) u(3)] obtain rm where "f ?u marshall_new (rs_app ?s) = Some (ret, rm, app')" "marsh_wf rm"
    "m_contents rm = replicate 24 None @ map Some body" by blast
  then have "request_of ?b ?h (reply_cells ?x ret body) (rs_app ?s) app' ?s"
    using rdy b(1) u(2) proc(2) ret client_window_unacked [OF inv nw]
    by (auto simp: request_of_def next_header_def lossy_linked_def)
  then show ?thesis using that m(1) call1_enter_inv [OF inv nw m(1)] by blast
qed

text \<open>Afterwards both are ready for the next call.\<close>

lemma lossy_ready_after:
  assumes rdy: "lossy_ready (Suc n) w" and d: "client_inv B d" "same_client ((nt_clt w)\<lparr>rc_xid := rc_xid (nt_clt w) + 1\<rparr>) d"
    and st: "call_state (next_header (nt_clt w) proc) rep app app' (nt_srv w) r s k"
  shows "lossy_linked n d s k"
proof -
  let ?c = "nt_clt w" and ?x = "rc_xid (nt_clt w)"
  have nw: "?x \<noteq> - 1" "unat (?x + 1) = unat ?x + 1"
    using rdy unat_Suc_u32 [of ?x] by (simp_all add: lossy_linked_def)
  have "x < ?x + 1" if x: "x \<in> win_xids (rs_reply_window s) (rc_clt_nonce ?c)" for x
  proof -
    have "x = ?x \<or> x \<in> win_xids (rs_reply_window (nt_srv w)) (rc_clt_nonce ?c)"
      using st x by (auto simp: call_state_def next_header_def)
    then have "x \<le> ?x" using rdy by (auto simp: lossy_linked_def less_imp_le)
    then show ?thesis using nw(1) by (rule u32_less_Suc)
  qed
  then show ?thesis
    using rdy d st nw(2) by (auto simp: lossy_linked_def same_client_def call_state_def next_header_def)
qed

lemma lossy_call_serves:
  assumes rdy: "lossy_ready (Suc n) w" and proc: "may_call (nt_clt w) proc" "rs_procs (nt_srv w) proc = Some f"
    and req: "marsh_wf req" "m_contents req = replicate 24 None @ map Some abody" "length abody + 24 < MARSH_LIMIT"
    and run: "\<And>u. unm_wf u \<Longrightarrow> u_ok u \<Longrightarrow> u_rest u = abody \<Longrightarrow> u_ind u \<le> u_sz u \<Longrightarrow>
        \<exists>rep. f u marshall_new (rs_app (nt_srv w)) = Some (ret, rep, app') \<and> marsh_wf rep \<and>
          m_contents rep = replicate 24 None @ map Some body"
    and ret: "0 \<le> sint ret \<or> ret = unmarshal_args_failure" and body: "length body + 24 < MARSH_LIMIT"
    and new: "new_conns (nt_conn w) txs"
  shows "\<exists>intret u w'. lossy_call lossy txs proc req w = Some ((intret, u), w') \<and> lossy_ready n w' \<and>
    same_client ((nt_clt w)\<lparr>rc_xid := rc_xid (nt_clt w) + 1\<rparr>) (nt_clt w') \<and>
    rs_nonce (nt_srv w') = rs_nonce (nt_srv w) \<and> rs_procs (nt_srv w') = rs_procs (nt_srv w) \<and>
    rs_app (nt_srv w') = (if reached_by txs then app' else rs_app (nt_srv w)) \<and>
    (if answered_by txs then intret = ret \<and> unm_wf u \<and> u_ok u \<and> u_rest u = body \<and> u_ind u + length body = u_sz u
     else intret = timeout_failure)"
proof -
  let ?c = "nt_clt w" and ?s = "nt_srv w" and ?h = "next_header (nt_clt w) proc" and ?x = "rc_xid (nt_clt w)"
  let ?c1 = "?c\<lparr>rc_xid := ?x + 1, rc_calls := (rc_calls ?c)(?x \<mapsto> caller_new)\<rparr>"
  let ?rep = "reply_cells ?x ret body"
  obtain m A where m: "call1_enter ?c proc req = Some (Call_sent ?x m, ?c1)" and inv: "client_inv A ?c1"
    and q: "request_of (fill (m_contents m)) ?h ?rep (rs_app ?s) app' ?s"
    using rdy proc req run ret by (rule lossy_request)
  have st: "call_state ?h ?rep (rs_app ?s) app' ?s False ?s (nt_conn w)"
    using rdy by (auto simp: call_state_def next_header_def lossy_linked_def)
  let ?r = "fill ?rep" and ?v = "\<lparr>u_buf = fill ?rep, u_sz = length (fill ?rep), u_ind = 24, u_ok = True\<rparr>"
  have r: "wire_of ?rep ?r" by (rule wire_of_fill)
  obtain c2 c3 where c3: "got_pdu ?c1 ?r (length ?r) = Some c2" "call1_leave c2 ?x = Some ((ret, ?v), c3)"
    "client_inv (insert ?x A) c3" "same_client ?c1 c3"
    using reply_completes_call [OF inv _ r] body by auto
  obtain c4 v where c4: "call1_leave ?c1 ?x = Some ((timeout_failure, v), c4)"
    using call1_leave_total [OF inv, of ?x caller_new] by (auto simp: caller_new_def)
  obtain s' k' where s': "lossy_sends lossy txs (fill (m_contents m)) ?c1 ?s (nt_conn w) =
      Some (if answered_by txs then c2 else ?c1, s', k')"
    "call_state ?h ?rep (rs_app ?s) app' ?s (reached_by txs) s' k'"
    using lossy_sends_serve [OF q c3(1) st new, of lossy] unfolding simp_thms by blast
  have keep: "rs_nonce s' = rs_nonce ?s" "rs_procs s' = rs_procs ?s" "rs_app s' = (if reached_by txs then app' else rs_app ?s)"
    using s'(2) by (auto simp: call_state_def)
  show ?thesis
  proof (cases "answered_by txs")
    case True
    have len: "length ?r = 24 + length body" "drop 24 ?r = body" using wire_reply [OF r] body by simp_all
    have "unm_wf ?v" "u_rest ?v = body" using len body by (simp_all add: unm_wf_def u_rest_def)
    moreover have same: "same_client (?c\<lparr>rc_xid := ?x + 1\<rparr>) c3" using c3(4) by (simp add: same_client_def)
    moreover have "lossy_linked n c3 s' k'" by (rule lossy_ready_after [OF rdy c3(3) same s'(2)])
    ultimately show ?thesis using True m s'(1) c3(2) keep len(1) by (simp add: lossy_call_def)
  next
    case False
    have same: "same_client (?c\<lparr>rc_xid := ?x + 1\<rparr>) c4" using call1_leave_same [OF c4] by (simp add: same_client_def)
    moreover have "lossy_linked n c4 s' k'" by (rule lossy_ready_after [OF rdy call1_leave_inv [OF inv c4] same s'(2)])
    ultimately show ?thesis using False m s'(1) c4 keep by (simp add: lossy_call_def)
  qed
qed


text \<open>The counting server of \<open>AtMostOnce\<close>, and four transmissions of which the last gets its reply back.\<close>

definition sample_counter :: "nat net" where
  "sample_counter = \<lparr>nt_clt = (rpcc_new True 5 5)\<lparr>rc_bind_done := True\<rparr>,
     nt_srv = sample_server, nt_conn = 0\<rparr>"

lemma sample_counter_ready: "lossy_ready 3 sample_counter"
proof -
  have "client_inv {} ((rpcc_new True 5 5)\<lparr>rc_bind_done := True\<rparr>)"
    using client_inv_new [of True 5 5] by (simp add: client_inv_def)
  then show ?thesis
    by (auto simp: sample_counter_def lossy_linked_def channel_ok_def usable_def isdead_def sample_server_def rpcc_new_def
        connection_new_def charbuf_new_def win_xids_def)
qed


section \<open>The connection after a call\<close>

fun last_conn :: "cid \<Rightarrow> tx list \<Rightarrow> cid" where
  "last_conn k [] = k"
| "last_conn k ((fate, k', fd) # txs) = (if fate = Arrives then k else last_conn k' txs)"

lemma lossy_sends_conn: "lossy_sends lossy txs b c s k = Some (c', s', k') \<Longrightarrow> k' = last_conn k txs"
proof (induction txs arbitrary: s k)
  case (Cons t txs)
  obtain f k1 fd where "t = (f, k1, fd)" by (cases t)
  then show ?case using Cons by (cases f) (auto elim!: bind_SomeE)
qed simp

lemma lossy_call_conn:
  assumes "may_call (nt_clt w) proc" and "lossy_call lossy txs proc req w = Some (ret, w')"
  shows "nt_conn w' = last_conn (nt_conn w) txs"
  using assms lossy_sends_conn
  by (fastforce simp: lossy_call_def call1_enter_def may_call_def Let_def elim!: bind_SomeE split: if_splits list.splits)

section \<open>What a call leaves alone\<close>

lemma lossy_sends_only:
  assumes hdr: "unpack_req_header (unmarshall_of b (length b)) = Some (h, u)"
  shows "lossy_sends lossy txs b c s k = Some (c', s', k') \<Longrightarrow> conns_of s (rq_clt_nonce h) \<subseteq> K \<Longrightarrow> k \<in> K \<Longrightarrow>
    (fst \<circ> snd) ` set txs \<subseteq> K \<Longrightarrow> only_of (rq_clt_nonce h) K s s' \<and> k' \<in> K"
proof (induction txs arbitrary: s k)
  case (Cons t txs)
  let ?n = "rq_clt_nonce h"
  obtain f k1 fd where t: "t = (f, k1, fd)" by (cases t)
  have k1: "k1 \<in> K" "(fst \<circ> snd) ` set txs \<subseteq> K" using Cons.prems(4) t by auto
  have d: "only_of ?n K s t2" if "c_incref s k = Some t1" "dispatch t1 k b (length b) = Some t2" for t1 t2
  proof -
    have 1: "only_of ?n K s t1" using that(1) Cons.prems(3) by (rule c_incref_only)
    then have "conns_of t1 ?n \<subseteq> K" using Cons.prems(2) by (simp add: only_of_def)
    from only_of_trans [OF 1 dispatch_only [OF hdr this Cons.prems(3) that(2)]] show ?thesis .
  qed
  have re: "only_of ?n K x (conn_accepted (conn_dies x k) k1 fd lossy)" for x
    using Cons.prems(3) k1(1) by (simp add: only_of_def conns_of_def conn_accepted_def conn_dies_def)
  have go: "only_of ?n K s s' \<and> k' \<in> K"
    if x: "only_of ?n K s x" "lossy_sends lossy txs b c (conn_accepted (conn_dies x k) k1 fd lossy) k1 = Some (c', s', k')" for x
  proof -
    have y: "only_of ?n K s (conn_accepted (conn_dies x k) k1 fd lossy)" using x(1) re by (rule only_of_trans)
    then have "conns_of (conn_accepted (conn_dies x k) k1 fd lossy) ?n \<subseteq> K" using Cons.prems(2) by (simp add: only_of_def)
    from Cons.IH [OF x(2) this k1] y only_of_trans show ?thesis by blast
  qed
  show ?case
  proof (cases f)
    case Arrives
    then show ?thesis using Cons.prems(1,3) t d by (auto elim!: bind_SomeE)
  next
    case Request_lost
    then show ?thesis using Cons.prems(1) t go [of s] by simp
  next
    case Reply_lost
    then show ?thesis using Cons.prems(1) t d go by (auto elim!: bind_SomeE)
  qed
qed simp

lemma lossy_call_only:
  assumes l: "lossy_ready (Suc n) w" and may: "may_call (nt_clt w) proc"
    and req: "marsh_wf req" "m_contents req = replicate 24 None @ map Some args" "length args + 24 < MARSH_LIMIT"
    and K: "conns_of (nt_srv w) (rc_clt_nonce (nt_clt w)) \<subseteq> K" "nt_conn w \<in> K" "(fst \<circ> snd) ` set txs \<subseteq> K"
    and call: "lossy_call lossy txs proc req w = Some (ret, w')"
  shows "only_of (rc_clt_nonce (nt_clt w)) K (nt_srv w) (nt_srv w') \<and> nt_conn w' \<in> K"
proof -
  let ?c = "nt_clt w" and ?h = "next_header (nt_clt w) proc"
  from l obtain A where A: "client_inv A ?c" by (auto simp: lossy_linked_def)
  obtain m c1 where m: "call1_enter ?c proc req = Some (Call_sent (rc_xid ?c) m, c1)" "m_contents m = request_cells ?h args"
    using call1_enter_sent [OF may client_inv_window [OF A] req(1,2)] by blast
  let ?b = "fill (m_contents m)"
  have hdr: "unpack_req_header (unmarshall_of ?b (length ?b)) = Some (?h, (unmarshall_of ?b (length ?b))\<lparr>u_ind := RPC_HEADER_SZ\<rparr>)"
    using wire_request(1) [of ?h args ?b] wire_of_fill m(2) req(3) by simp
  have n: "rq_clt_nonce ?h = rc_clt_nonce ?c" by (simp add: next_header_def)
  from call m(1) obtain c' where "lossy_sends lossy txs ?b c1 (nt_srv w) (nt_conn w) = Some (c', nt_srv w', nt_conn w')"
    by (auto simp: lossy_call_def elim!: bind_SomeE)
  from lossy_sends_only [OF hdr this _ K(2,3)] K(1) n show ?thesis by simp
qed

section \<open>Methods\<close>

context rpc_method
begin

lemma lossy_call_method:
  assumes rdy: "lossy_ready (Suc n) w" and proc: "may_call (nt_clt w) proc"
    and h: "rs_procs (nt_srv w) proc = Some (handler1 geta putr r0 meth)"
    and a: "valida a" "length (enca a) + 24 < MARSH_LIMIT"
    and local: "meth a r0 (rs_app (nt_srv w)) = Some (b, r, app')" "0 \<le> sint b"
    and r: "validr r" "length (encr r) + 24 < MARSH_LIMIT"
    and txs: "new_conns (nt_conn w) txs" "answered_by txs"
    and K: "conns_of (nt_srv w) (rc_clt_nonce (nt_clt w)) \<subseteq> K" "nt_conn w \<in> K" "(fst \<circ> snd) ` set txs \<subseteq> K"
  shows "\<exists>req ret w'. call_req1 puta a = Some req \<and> lossy_call lossy txs proc req w = Some (ret, w') \<and>
    call_m_result getr r1 ret = Some (b, r) \<and> rs_app (nt_srv w') = app' \<and> lossy_ready n w' \<and>
    same_client ((nt_clt w)\<lparr>rc_xid := rc_xid (nt_clt w) + 1\<rparr>) (nt_clt w') \<and>
    rs_nonce (nt_srv w') = rs_nonce (nt_srv w) \<and> rs_procs (nt_srv w') = rs_procs (nt_srv w) \<and>
    only_of (rc_clt_nonce (nt_clt w)) K (nt_srv w) (nt_srv w') \<and> nt_conn w' \<in> K"
proof -
  obtain req where req: "call_req1 puta a = Some req" "marsh_wf req"
    "m_contents req = replicate 24 None @ map Some (enca a)" using a by (rule request_built)
  have reached: "reached_by txs" using txs(2) by force
  have ret: "0 \<le> sint b \<or> b = unmarshal_args_failure" using local(2) by simp
  from lossy_call_serves [OF rdy proc h req(2,3) a(2) handler_answers [OF a(1) local(1) r] ret r(2) txs(1), of lossy]
  obtain u w' where w': "lossy_call lossy txs proc req w = Some ((b, u), w')" "lossy_ready n w'"
    "same_client ((nt_clt w)\<lparr>rc_xid := rc_xid (nt_clt w) + 1\<rparr>) (nt_clt w')" "rs_nonce (nt_srv w') = rs_nonce (nt_srv w)"
    "rs_procs (nt_srv w') = rs_procs (nt_srv w)" "rs_app (nt_srv w') = app'"
    "unm_wf u" "u_ok u" "u_rest u = encr r" "u_ind u + length (encr r) = u_sz u"
    unfolding if_P [OF txs(2)] if_P [OF reached] by blast
  have "call_m_result getr r1 (b, u) = Some (b, r)" using r(1) local(2) w'(7-10) by (rule result_decoded)
  with req(1) w'(1-6) lossy_call_only [OF rdy proc req(2,3) a(2) K w'(1)] show ?thesis by blast
qed

end

end
