(* ===== verification/RpcFailures.thy ===== *)
theory RpcFailures
  imports RpcTest Lossy
begin

text \<open>
  The tests of \<open>rpc/rpctest.cc\<close> with several threads, several clients and a server that fails: \<open>client1\<close>, \<open>client3\<close>,
  \<open>client4\<close>, \<open>concurrent_test\<close> and \<open>failure_test\<close>. Threads call in any order (\<open>run_schedule\<close> of \<open>Clients\<close>); a call of
  a thread is one step. A server that is not there answers nothing; one that has been started again has another
  nonce and no memory of its clients, and its clients reach it over new connections.
\<close>

section \<open>Calls to a server that is not there\<close>

text \<open>\<open>call1\<close> when nothing comes back before the timeout.\<close>

definition dead_call :: "u32 \<Rightarrow> marshall \<Rightarrow> rpcc \<Rightarrow> ((u32 \<times> unmarshall) \<times> rpcc) option" where
  "dead_call proc req c = do {
     (st, c) \<leftarrow> call1_enter c proc req;
     (case st of
        Call_refused e \<Rightarrow> Some ((e, unmarshall_new), c)
      | Call_sent xid m \<Rightarrow> call1_leave c xid)
   }"

definition dead_bind :: "u32 \<Rightarrow> rpcc \<Rightarrow> (u32 \<times> rpcc) option" where
  "dead_bind r1 c = do {
     req \<leftarrow> call_req1 marshall_int 0;
     (res, c) \<leftarrow> dead_call rpc_bind req c;
     ret \<leftarrow> call_m_result unmarshall_int r1 res;
     Some (bind_finish c ret)
   }"

lemma int_request:
  obtains m where "call_req1 marshall_int a = Some m" "marsh_wf m" "m_contents m = replicate 24 None @ map Some (be32 a)"
  using m_int.request_built [of a] by auto

lemma dead_bind_times_out:
  "\<exists>c. dead_bind r1 (rpcc_new retrans rnd lossy) = Some (timeout_failure, c) \<and> \<not> rc_bind_done c"
proof -
  let ?c = "rpcc_new retrans rnd lossy"
  obtain m where m: "call_req1 marshall_int 0 = Some m" "marsh_wf m" "m_contents m = replicate 24 None @ map Some (be32 0)"
    by (rule int_request)
  have inv: "client_inv {} ?c" by (rule client_inv_new)
  have may: "may_call ?c rpc_bind" by (simp add: may_call_def rpcc_new_def)
  let ?c1 = "?c\<lparr>rc_xid := rc_xid ?c + 1, rc_calls := (rc_calls ?c)(rc_xid ?c \<mapsto> caller_new)\<rparr>"
  obtain m' where e: "call1_enter ?c rpc_bind m = Some (Call_sent (rc_xid ?c) m', ?c1)"
    using call1_enter_sent [OF may client_inv_window [OF inv] m(2,3)] by blast
  have "client_inv {} ?c1" by (rule call1_enter_inv [OF inv _ e]) (simp add: rpcc_new_def)
  from call1_leave_total [OF this, of "rc_xid ?c" caller_new] obtain c2
    where c2: "call1_leave ?c1 (rc_xid ?c) = Some ((timeout_failure, ca_un caller_new), c2)"
    by (auto simp: caller_new_def)
  have "\<not> rc_bind_done c2" using call1_leave_same [OF c2] by (simp add: same_client_def rpcc_new_def)
  then show ?thesis
    using m(1) e c2 by (auto simp: dead_bind_def dead_call_def call_m_result_def bind_finish_def)
qed

section \<open>Calls to a server that was started again\<close>

text \<open>The server answers a request for another instance with \<open>oldsrv_failure\<close>, and keeps the reference of the job.\<close>

definition old_request :: "bytes \<Rightarrow> req_header \<Rightarrow> u32 \<Rightarrow> bool" where
  "old_request b h nonce \<longleftrightarrow>
     unpack_req_header (unmarshall_of b (length b)) = Some (h, (unmarshall_of b (length b))\<lparr>u_ind := RPC_HEADER_SZ\<rparr>) \<and>
     rq_srv_nonce h \<noteq> 0 \<and> rq_srv_nonce h \<noteq> nonce"

abbreviation oldsrv_reply :: "u32 \<Rightarrow> cells" where
  "oldsrv_reply xid \<equiv> reply_cells xid oldsrv_failure []"

lemma dispatch_oldsrv:
  "old_request b h (rs_nonce s) \<Longrightarrow>
   dispatch s k b (length b) = Some (s\<lparr>rs_outbox := rs_outbox s @ [(k, oldsrv_reply (rq_xid h))]\<rparr>)"
  by (simp add: old_request_def dispatch_def dispatch_enter_def error_reply_cells c_send_def unmarshall_of_def)

text \<open>What the client sends, and what it makes of the reply.\<close>

lemma old_client_call:
  assumes inv: "client_inv A c" "rc_xid c \<noteq> - 1" and may: "may_call c proc" and old: "rc_srv_nonce c \<noteq> 0" "rc_srv_nonce c \<noteq> nonce"
    and req: "marsh_wf req" "m_contents req = replicate 24 None @ map Some args" "length args < MARSH_LIMIT"
  obtains m c1 c2 c3 u r where "call1_enter c proc req = Some (Call_sent (rc_xid c) m, c1)"
    and "old_request (fill (m_contents m)) (next_header c proc) nonce" and "r = fill (oldsrv_reply (rc_xid c))"
    and "got_pdu c1 r (length r) = Some c2" and "call1_leave c2 (rc_xid c) = Some ((oldsrv_failure, u), c3)"
proof -
  let ?h = "next_header c proc" and ?r = "fill (oldsrv_reply (rc_xid c))"
  let ?c1 = "c\<lparr>rc_xid := rc_xid c + 1, rc_calls := (rc_calls c)(rc_xid c \<mapsto> caller_new)\<rparr>"
  obtain m where m: "call1_enter c proc req = Some (Call_sent (rc_xid c) m, ?c1)" "m_contents m = request_cells ?h args"
    using call1_enter_sent [OF may client_inv_window [OF inv(1)] req(1,2)] by blast
  have inv1: "client_inv A ?c1" by (rule call1_enter_inv [OF inv m(1)])
  have "old_request (fill (m_contents m)) ?h nonce"
    using wire_request(1) [of ?h args "fill (m_contents m)"] wire_of_fill m(2) req(3) old
    by (simp add: old_request_def next_header_def)
  moreover from reply_completes_call [of A ?c1 "rc_xid c" oldsrv_failure "[]" ?r] inv1 wire_of_fill obtain c2 c3 u where
    "got_pdu ?c1 ?r (length ?r) = Some c2" "call1_leave c2 (rc_xid c) = Some ((oldsrv_failure, u), c3)" by auto
  ultimately show ?thesis using that m(1) by blast
qed

lemma net_call_oldsrv:
  assumes inv: "client_inv A (nt_clt w)" "rc_xid (nt_clt w) \<noteq> - 1" and may: "may_call (nt_clt w) proc"
    and old: "rc_srv_nonce (nt_clt w) \<noteq> 0" "rc_srv_nonce (nt_clt w) \<noteq> rs_nonce (nt_srv w)"
    and kn: "rs_heap (nt_srv w) (nt_conn w) = Some kn"
    and req: "marsh_wf req" "m_contents req = replicate 24 None @ map Some args" "length args < MARSH_LIMIT"
  shows "\<exists>u w'. net_call proc req w = Some ((oldsrv_failure, u), w') \<and> rs_app (nt_srv w') = rs_app (nt_srv w) \<and>
    rs_conns (nt_srv w') = rs_conns (nt_srv w) \<and> rs_reply_window (nt_srv w') = rs_reply_window (nt_srv w) \<and>
    rs_heap (nt_srv w') = (rs_heap (nt_srv w))(nt_conn w \<mapsto> kn\<lparr>c_refno := c_refno kn + 1\<rparr>)"
proof -
  let ?c = "nt_clt w"
  obtain m c1 c2 c3 u r where c: "call1_enter ?c proc req = Some (Call_sent (rc_xid ?c) m, c1)"
    "old_request (fill (m_contents m)) (next_header ?c proc) (rs_nonce (nt_srv w))" "r = fill (oldsrv_reply (rc_xid ?c))"
    "got_pdu c1 r (length r) = Some c2" "call1_leave c2 (rc_xid ?c) = Some ((oldsrv_failure, u), c3)"
    by (rule old_client_call [OF inv may old req])
  let ?s1 = "(nt_srv w)\<lparr>rs_heap := (rs_heap (nt_srv w))(nt_conn w \<mapsto> kn\<lparr>c_refno := c_refno kn + 1\<rparr>)\<rparr>"
  have "dispatch ?s1 (nt_conn w) (fill (m_contents m)) (length (fill (m_contents m))) =
      Some (?s1\<lparr>rs_outbox := rs_outbox ?s1 @ [(nt_conn w, oldsrv_reply (rc_xid ?c))]\<rparr>)"
    using dispatch_oldsrv [of _ "next_header ?c proc" ?s1] c(2) by (simp add: next_header_def)
  then have "net_call proc req w = Some ((oldsrv_failure, u),
      w\<lparr>nt_clt := c3, nt_srv := ?s1\<lparr>rs_outbox := rs_outbox ?s1 @ [(nt_conn w, oldsrv_reply (rc_xid ?c))]\<rparr>\<rparr>)"
    using c c_incref_ok [OF kn] by (simp add: net_call_def)
  then show ?thesis by simp
qed

text \<open>The same over connections that are lost: the server keeps nothing of the client but connections.\<close>

definition conns_only :: "cid set \<Rightarrow> 's rpcs \<Rightarrow> 's rpcs \<Rightarrow> bool" where
  "conns_only K s s' \<longleftrightarrow> rs_app s' = rs_app s \<and> rs_procs s' = rs_procs s \<and> rs_nonce s' = rs_nonce s \<and>
     rs_conns s' = rs_conns s \<and> rs_reply_window s' = rs_reply_window s \<and> (\<forall>l. l \<notin> K \<longrightarrow> rs_heap s' l = rs_heap s l)"

lemma lossy_sends_oldsrv:
  assumes "old_request b h (rs_nonce s)" and "rs_heap s k \<noteq> None" and "answered_by txs" and "r = fill (oldsrv_reply (rq_xid h))"
    and "got_pdu c r (length r) = Some c2" and "k \<in> K" and "(fst \<circ> snd) ` set txs \<subseteq> K"
  shows "\<exists>s' k'. lossy_sends lossy txs b c s k = Some (c2, s', k') \<and> conns_only K s s'"
  using assms(1-3,6,7)
proof (induction txs arbitrary: s k)
  case (Cons t txs)
  obtain f k1 fd where t: "t = (f, k1, fd)" by (cases t)
  obtain kn where kn: "rs_heap s k = Some kn" using Cons.prems(2) by auto
  let ?s1 = "s\<lparr>rs_heap := (rs_heap s)(k \<mapsto> kn\<lparr>c_refno := c_refno kn + 1\<rparr>)\<rparr>"
  let ?s2 = "?s1\<lparr>rs_outbox := rs_outbox s @ [(k, oldsrv_reply (rq_xid h))]\<rparr>"
  have d: "c_incref s k = Some ?s1" "dispatch ?s1 k b (length b) = Some ?s2"
    using c_incref_ok [OF kn] dispatch_oldsrv [of b h ?s1 k] Cons.prems(1) by simp_all
  have again: "\<exists>s' k'. lossy_sends lossy txs b c (conn_accepted (conn_dies x k) k1 fd lossy) k1 = Some (c2, s', k') \<and> conns_only K s s'"
    if "f \<noteq> Arrives" "conns_only K s x" for x
  proof -
    let ?x = "conn_accepted (conn_dies x k) k1 fd lossy"
    have 1: "conns_only K s ?x" using that(2) Cons.prems(4,5) t by (auto simp: conns_only_def conn_accepted_def conn_dies_def)
    then have "old_request b h (rs_nonce ?x)" using Cons.prems(1) by (simp add: conns_only_def)
    moreover have "rs_heap ?x k1 \<noteq> None" by (simp add: conn_accepted_def)
    moreover have "answered_by txs" "k1 \<in> K" "(fst \<circ> snd) ` set txs \<subseteq> K" using Cons.prems(3,5) t that(1) by auto
    ultimately obtain s' k' where "lossy_sends lossy txs b c ?x k1 = Some (c2, s', k')" "conns_only K ?x s'"
      using Cons.IH by blast
    then show ?thesis using 1 by (auto simp: conns_only_def)
  qed
  have "conns_only K s s" "conns_only K s ?s2" using Cons.prems(4) by (auto simp: conns_only_def)
  then show ?case using again d assms(4,5) t by (cases f) (simp_all add: Let_def)
qed simp

lemma lossy_call_oldsrv:
  assumes inv: "client_inv A (nt_clt w)" "rc_xid (nt_clt w) \<noteq> - 1" and may: "may_call (nt_clt w) proc"
    and old: "rc_srv_nonce (nt_clt w) \<noteq> 0" "rc_srv_nonce (nt_clt w) \<noteq> rs_nonce (nt_srv w)"
    and req: "marsh_wf req" "m_contents req = replicate 24 None @ map Some args" "length args < MARSH_LIMIT"
    and txs: "answered_by txs" "rs_heap (nt_srv w) (nt_conn w) \<noteq> None"
  shows "\<exists>u w'. lossy_call lossy txs proc req w = Some ((oldsrv_failure, u), w') \<and>
    conns_only (insert (nt_conn w) ((fst \<circ> snd) ` set txs)) (nt_srv w) (nt_srv w')"
proof -
  let ?c = "nt_clt w"
  obtain m c1 c2 c3 u r where c: "call1_enter ?c proc req = Some (Call_sent (rc_xid ?c) m, c1)"
    "old_request (fill (m_contents m)) (next_header ?c proc) (rs_nonce (nt_srv w))" "r = fill (oldsrv_reply (rc_xid ?c))"
    "got_pdu c1 r (length r) = Some c2" "call1_leave c2 (rc_xid ?c) = Some ((oldsrv_failure, u), c3)"
    by (rule old_client_call [OF inv may old req])
  have "rq_xid (next_header ?c proc) = rc_xid ?c" by (simp add: next_header_def)
  with lossy_sends_oldsrv [OF c(2) txs(2,1) _ c(4)] c(3) obtain s' k' where
    "lossy_sends lossy txs (fill (m_contents m)) c1 (nt_srv w) (nt_conn w) = Some (c2, s', k')"
    "conns_only (insert (nt_conn w) ((fst \<circ> snd) ` set txs)) (nt_srv w) s'" by (metis insertI1 subset_insertI)
  then show ?thesis using c(1,5) by (simp add: lossy_call_def)
qed

section \<open>The threads\<close>

text \<open>\<open>client1\<close> and \<open>client4\<close> check the code and the length of the reply (\<open>big_round\<close>), \<open>client3\<close> the sum unless the call
  timed out. \<open>r1\<close> is the uninitialised \<open>int rep\<close>.\<close>

definition client3_round :: "u32 \<Rightarrow> u32 \<Rightarrow> unit net \<Rightarrow> unit net option" where
  "client3_round r1 i w = do {
     ((ret, rep), w) \<leftarrow> rpc_call1 marshall_int unmarshall_int 24 i r1 w;
     assert_that (ret = timeout_failure \<or> rep = i + 2);
     Some w
   }"

definition client3 :: "u32 \<Rightarrow> (unit net \<Rightarrow> unit net option) list" where
  "client3 r1 = map (client3_round r1) [0, 1, 2, 3]"

text \<open>The threads of \<open>concurrent_test\<close>: number \<open>i\<close> uses the client \<open>i % NUM_CL\<close>, with random numbers of its own.\<close>

abbreviation (input) NUM_CL :: nat where "NUM_CL \<equiv> 2"

definition client1_thread :: "u32 \<Rightarrow> nat \<Rightarrow> u32 list \<times> (bool \<times> u32) list \<Rightarrow> (unit nets \<Rightarrow> unit nets option) list" where
  "client1_thread r1 i rnds =
     map (\<lambda>a. on_client (i mod NUM_CL) (big_round a)) (fst rnds) @
     map (\<lambda>a. on_client (i mod NUM_CL) (mixed_round r1 a)) (snd rnds)"

definition concurrent_test ::
  "u32 \<Rightarrow> (u32 list \<times> (bool \<times> u32) list) list \<Rightarrow> nat list \<Rightarrow> unit nets \<Rightarrow>
   (unit nets \<times> (unit nets \<Rightarrow> unit nets option) list list) option" where
  "concurrent_test r1 rnds sched N =
     run_schedule sched (map (\<lambda>(i, rs). client1_thread r1 i rs) (zip [0..<length rnds] rnds)) N"

text \<open>\<open>client4\<close>: five times a hundred long replies, with the memory in use after each hundred (\<open>process_mem_usage\<close>, in
  kilobytes) in the list; then the growth is checked.\<close>

fun client4_calls :: "(u32 list \<times> int) list \<Rightarrow> unit net \<Rightarrow> unit net option" where
  "client4_calls [] w = Some w"
| "client4_calls ((args, rss) # js) w = do { w \<leftarrow> client1_big args w; client4_calls js w }"

definition client4 :: "int \<Rightarrow> (u32 list \<times> int) list \<Rightarrow> unit net \<Rightarrow> unit net option" where
  "client4 initial js w = do {
     w \<leftarrow> client4_calls js w;
     assert_that (js \<noteq> [] \<and> snd (last js) - initial < 3000);
     Some w
   }"

section \<open>failure\_test\<close>

text \<open>What the test draws or gets from the system: the nonces of the clients and of the two new servers, the
  connections, the uninitialised variables and the schedules.\<close>

record failure_env =
  fe_srv1 :: u32
  fe_srv2 :: u32
  fe_clt0 :: u32
  fe_clt1 :: u32
  fe_clt2 :: u32
  fe_ri :: u32
  fe_r :: u32
  fe_k :: cid
  fe_k1 :: cid
  fe_kn :: connection
  fe_txs :: "tx list"
  fe_sched1 :: "nat list"
  fe_sched2 :: "nat list"

definition failure_test :: "failure_env \<Rightarrow> unit net \<Rightarrow> unit net option" where
  "failure_test e w = do {
     (ret, client1) \<leftarrow> dead_bind (fe_r e) (rpcc_new True (fe_clt0 e) 0);
     assert_that (sint ret < 0);
     s \<leftarrow> startserver (fe_srv1 e) (fe_ri e);
     let w = \<lparr>nt_clt = nt_clt w, nt_srv = s\<lparr>rs_heap := [fe_k e \<mapsto> fe_kn e]\<rparr>, nt_conn = fe_k e\<rparr>;
     m \<leftarrow> call_req2 marshall_string marshall_string (lit ''hello'') (lit '' goodbye'');
     (res, w) \<leftarrow> lossy_call 0 (fe_txs e) 22 m w;
     (intret, rep) \<leftarrow> call_m_result (unmarshall_string []) [] res;
     assert_that (intret = oldsrv_failure);
     let w = \<lparr>nt_clt = rpcc_new True (fe_clt1 e) 0,
       nt_srv = (nt_srv w)\<lparr>rs_heap := (rs_heap (nt_srv w))(fe_k1 e \<mapsto> fe_kn e)\<rparr>, nt_conn = fe_k1 e\<rparr>;
     (ret, w) \<leftarrow> net_bind (fe_r e) w;
     assert_that (0 \<le> sint ret);
     (ret, w) \<leftarrow> net_bind (fe_r e) w;
     assert_that (sint ret < 0);
     ((intret, rep), w) \<leftarrow> call_strings 22 (lit ''hello'') (lit '' goodbye'') rep w;
     assert_that (intret = 0);
     assert_that (rep = lit ''hello goodbye'');
     (w, ts) \<leftarrow> run_schedule (fe_sched1 e) (replicate 10 (client3 (fe_r e))) w;
     assert_that (list_all (\<lambda>t. t = []) ts);
     s \<leftarrow> startserver (fe_srv2 e) (fe_ri e);
     (ret, w) \<leftarrow> net_bind (fe_r e) (net_new (fe_clt2 e) 0 (fe_k e) (fe_kn e) s);
     assert_that (0 \<le> sint ret);
     (w, ts) \<leftarrow> run_schedule (fe_sched2 e) (replicate 10 (client3 (fe_r e))) w;
     assert_that (list_all (\<lambda>t. t = []) ts);
     Some w
   }"

section \<open>The rounds are calls of one client\<close>

definition test_procs :: "u32 \<Rightarrow> unit rpcs \<Rightarrow> bool" where
  "test_procs ri s \<longleftrightarrow> rs_procs s 22 = Some h_22 \<and> rs_procs s 23 = Some (h_int handle_fast ri) \<and>
     rs_procs s 24 = Some (h_int handle_slow ri) \<and> rs_procs s 25 = Some h_bigrep"

lemma test_ready_procs: "test_ready n ri w \<longleftrightarrow> net_ready n w \<and> test_procs ri (nt_srv w)"
  by (auto simp: test_ready_def test_procs_def)

lemma one_callI:
  assumes "\<And>n w. test_ready (Suc n) ri w \<Longrightarrow> \<exists>w'. f w = Some w' \<and> test_ready n ri w'"
    and "\<And>n w w'. f w = Some w' \<Longrightarrow> test_ready (Suc n) ri w \<Longrightarrow> alone w w'"
  shows "makes_calls (test_procs ri) 1 f"
  using assms by (fastforce simp: makes_calls_def test_ready_procs)

lemma big_round_one_call: "a < 252000 \<Longrightarrow> makes_calls (test_procs ri) 1 (big_round a)"
  by (rule one_callI, rule big_round_ok)
    (auto simp: big_round_def assert_that_def short_reply elim!: bind_SomeE split: if_splits intro: rpc_call1_int_alone)

lemma mixed_round_one_call: "makes_calls (test_procs ri) 1 (mixed_round r1 wa)"
  by (rule one_callI, rule mixed_round_ok)
    (auto simp: mixed_round_def assert_that_def elim!: bind_SomeE split: if_splits prod.splits intro: rpc_call1_int_alone)

section \<open>The tests pass\<close>

text \<open>
  \<open>concurrent_test\<close> passes. However the calls of its threads interleave, through two clients of one server, each
  thread gets the replies to its own calls: no assertion fails; each thread has made as many calls as it had turns; when
  every thread has had enough of them all have finished; and both clients are ready for the next test.
\<close>

lemma concurrent_test_ok:
  assumes rdy: "nets_ready (test_procs ri) (calls + n) N" and two: "length (ns_clts N) = NUM_CL"
    and calls: "calls = (\<Sum>rs\<leftarrow>rnds. length (fst rs) + length (snd rs))"
    and small: "\<forall>rs \<in> set rnds. \<forall>a \<in> set (fst rs). a < 252000"
  shows "\<exists>N' ts. concurrent_test r1 rnds sched N = Some (N', ts) \<and> nets_ready (test_procs ri) (steps_left ts + n) N' \<and>
    length (ns_clts N') = NUM_CL \<and> length ts = length rnds \<and>
    (\<forall>i < length rnds. length (ts ! i) = length (fst (rnds ! i)) + length (snd (rnds ! i)) - count_list sched i)"
proof -
  let ?ts = "map (\<lambda>(i, rs). client1_thread r1 i rs) (zip [0..<length rnds] rnds)"
  let ?R = "\<lambda>m N. nets_ready (test_procs ri) m N \<and> length (ns_clts N) = NUM_CL"
  have nth: "?ts ! i = client1_thread r1 i (rnds ! i)" if "i < length rnds" for i using that by simp
  have "map length ?ts = map (\<lambda>rs. length (fst rs) + length (snd rs)) rnds"
    by (rule nth_equalityI) (simp_all add: client1_thread_def)
  then have left: "steps_left ?ts = calls" by (simp only: steps_left_def calls)
  have "steps_work ?R ?ts"
    unfolding steps_work_def
  proof (intro ballI allI impI)
    fix t f m N
    assume "t \<in> set ?ts" and f: "f \<in> set t" and R: "?R (Suc m) N"
    then obtain i where i: "i < length rnds" "t = client1_thread r1 i (rnds ! i)" by (auto simp: set_zip)
    then obtain g where g: "f = on_client (i mod NUM_CL) g" "makes_calls (test_procs ri) 1 g"
      using f small nth_mem [OF i(1)] big_round_one_call mixed_round_one_call by (fastforce simp: client1_thread_def)
    from on_client_ready [OF _ _ g(2), of m N "i mod NUM_CL"] R show "\<exists>N'. f N = Some N' \<and> ?R m N'" by (auto simp: g(1))
  qed
  from run_schedule_ok [OF this, of n N sched] rdy two left obtain N' ts where
    r: "run_schedule sched ?ts N = Some (N', ts)" "?R (steps_left ts + n) N'" "length ts = length ?ts"
      "\<forall>i < length ?ts. length (ts ! i) = length (?ts ! i) - count_list sched i" by auto
  have "length (ts ! i) = length (fst (rnds ! i)) + length (snd (rnds ! i)) - count_list sched i" if "i < length rnds" for i
    using r(4) that nth [OF that] by (simp add: client1_thread_def)
  then show ?thesis using r(1-3) by (auto simp: concurrent_test_def)
qed

text \<open>When each thread has had its turns all of them can be joined.\<close>

lemma concurrent_test_joined:
  assumes "nets_ready (test_procs ri) (calls + n) N" and "length (ns_clts N) = NUM_CL"
    and "calls = (\<Sum>rs\<leftarrow>rnds. length (fst rs) + length (snd rs))" and "\<forall>rs \<in> set rnds. \<forall>a \<in> set (fst rs). a < 252000"
    and turns: "\<forall>i < length rnds. length (fst (rnds ! i)) + length (snd (rnds ! i)) \<le> count_list sched i"
  shows "\<exists>N' ts. concurrent_test r1 rnds sched N = Some (N', ts) \<and> list_all (\<lambda>t. t = []) ts \<and>
    nets_ready (test_procs ri) n N' \<and> length (ns_clts N') = NUM_CL"
proof -
  from concurrent_test_ok [OF assms(1-4), of r1 sched] obtain N' ts where
    N': "concurrent_test r1 rnds sched N = Some (N', ts)" "nets_ready (test_procs ri) (steps_left ts + n) N'"
      "length (ns_clts N') = NUM_CL" "length ts = length rnds"
      "\<forall>i < length rnds. length (ts ! i) = length (fst (rnds ! i)) + length (snd (rnds ! i)) - count_list sched i"
    by blast
  have joined: "list_all (\<lambda>t. t = []) ts" unfolding list_all_length using N'(4,5) turns by simp
  then have "steps_left ts = 0" by (induction ts) (auto simp: steps_left_def)
  then show ?thesis using N' joined by auto
qed

section \<open>Starting\<close>

text \<open>The loop of \<open>main\<close> that makes the clients and binds them, each over a connection of its own.\<close>

fun start_clients :: "u32 \<Rightarrow> (u32 \<times> cid \<times> connection) list \<Rightarrow> 's nets \<Rightarrow> 's nets option" where
  "start_clients r1 [] N = Some N"
| "start_clients r1 ((rnd, k, kn) # cs) N = do {
     (ret, w) \<leftarrow> net_bind r1 \<lparr>nt_clt = rpcc_new True rnd 0, nt_srv = (ns_srv N)\<lparr>rs_heap := (rs_heap (ns_srv N))(k \<mapsto> kn)\<rparr>, nt_conn = k\<rparr>;
     assert_that (ret = 0);
     start_clients r1 cs \<lparr>ns_srv = nt_srv w, ns_clts = ns_clts N @ [(nt_clt w, nt_conn w)]\<rparr>
   }"

definition rpctest_begin :: "u32 \<Rightarrow> u32 \<Rightarrow> u32 \<Rightarrow> (u32 \<times> cid \<times> connection) list \<Rightarrow> unit nets option" where
  "rpctest_begin srv_rnd ri r1 cs = do {
     testmarshall;
     s \<leftarrow> startserver srv_rnd ri;
     start_clients r1 cs \<lparr>ns_srv = s, ns_clts = []\<rparr>
   }"

text \<open>A client that the server does not know yet, and its connection.\<close>

definition fresh_client :: "'s rpcs \<Rightarrow> u32 \<times> cid \<times> connection \<Rightarrow> bool" where
  "fresh_client s c \<longleftrightarrow> (case c of (rnd, k, kn) \<Rightarrow> rnd \<noteq> 0 \<and> rs_conns s rnd = None \<and> rs_reply_window s rnd = None \<and>
     rs_heap s k = None \<and> \<not> c_dead kn \<and> 1 \<le> c_refno kn)"

lemma fresh_client_only: "fresh_client s (m, j, jn) \<Longrightarrow> only_of n {k} s s' \<Longrightarrow> m \<noteq> n \<Longrightarrow> j \<noteq> k \<Longrightarrow> fresh_client s' (m, j, jn)"
  by (auto simp: fresh_client_def only_of_def)

lemma bind_fresh:
  assumes f: "fresh_client s (rnd, k, kn)" and p: "rs_procs s rpc_bind = Some (handler1 unmarshall_int marshall_int r0 (rpcbind (rs_nonce s)))"
  shows "\<exists>w. net_bind r1 \<lparr>nt_clt = rpcc_new True rnd 0, nt_srv = s\<lparr>rs_heap := (rs_heap s)(k \<mapsto> kn)\<rparr>, nt_conn = k\<rparr> = Some (0, w) \<and>
    net_ready 4294967293 w \<and> rc_clt_nonce (nt_clt w) = rnd \<and> nt_conn w = k \<and> rs_procs (nt_srv w) = rs_procs s \<and>
    only_of rnd {k} s (nt_srv w)"
proof -
  let ?s = "s\<lparr>rs_heap := (rs_heap s)(k \<mapsto> kn)\<rparr>"
  let ?w = "\<lparr>nt_clt = rpcc_new True rnd 0, nt_srv = ?s, nt_conn = k\<rparr>"
  have "linked 4294967294 (rpcc_new True rnd 0) ?s k"
    using f client_inv_new [of True rnd 0] by (auto simp: linked_def rpcc_new_def win_xids_def fresh_client_def)
  then have "linked (Suc 4294967293) (rpcc_new True rnd 0) ?s k" by (simp only: Suc_numeral) simp
  then have l: "linked (Suc 4294967293) (nt_clt ?w) (nt_srv ?w) (nt_conn ?w)" by simp
  have "\<not> rc_bind_done (nt_clt ?w)" by (simp add: rpcc_new_def)
  from net_bind_ok [OF l this, of r0 r1] p obtain w where w: "net_bind r1 ?w = Some (0, w)" "net_ready 4294967293 w"
    "rs_procs (nt_srv w) = rs_procs s" by auto
  from w(1) obtain req ret w1 where w1: "call_req1 marshall_int 0 = Some req" "net_call rpc_bind req ?w = Some (ret, w1)"
    "nt_srv w = nt_srv w1" "nt_conn w = nt_conn w1" "rc_clt_nonce (nt_clt w) = rc_clt_nonce (nt_clt w1)"
    by (auto simp: net_bind_def bind_finish_def Let_def elim!: bind_SomeE split: prod.splits if_splits)
  have m: "marsh_wf req" "m_contents req = replicate 24 None @ map Some (be32 0)"
    using int_request [of 0] w1(1) by (metis option.inject)+
  have amo: "rc_clt_nonce (nt_clt ?w) \<noteq> 0" using f by (simp add: fresh_client_def rpcc_new_def)
  have "length (be32 0) < MARSH_LIMIT" by simp
  from net_call_only [OF l amo m this w1(2)] net_call_nonce [OF w1(2)] have
    "only_of rnd {k} ?s (nt_srv w1)" "nt_conn w1 = k" "rc_clt_nonce (nt_clt w1) = rnd" by (simp_all add: rpcc_new_def)
  moreover have "only_of rnd {k} s ?s" by (simp add: only_of_def conns_of_def)
  ultimately show ?thesis using w w1 only_of_trans by auto
qed

lemma nets_ready_add:
  assumes N: "nets_ready (test_procs ri) n N" and w: "net_ready n w" "rc_clt_nonce (nt_clt w) = rnd" "rnd \<noteq> 0" "nt_conn w = k"
      "rs_procs (nt_srv w) = rs_procs (ns_srv N)" "only_of rnd {k} (ns_srv N) (nt_srv w)"
    and new: "rnd \<notin> rc_clt_nonce ` fst ` set (ns_clts N)" "k \<notin> snd ` set (ns_clts N)"
  shows "nets_ready (test_procs ri) n \<lparr>ns_srv = nt_srv w, ns_clts = ns_clts N @ [(nt_clt w, k)]\<rparr>"
proof -
  have "linked n c (nt_srv w) l" if "(c, l) \<in> set (ns_clts N)" for c l
  proof -
    have "linked n c (ns_srv N) l" using N that by (auto simp: nets_ready_def)
    then show ?thesis using w(6) by (rule linked_other) (use new that in force)+
  qed
  moreover have "test_procs ri (nt_srv w)" using N w(5) by (simp add: nets_ready_def test_procs_def)
  ultimately show ?thesis using N w(1-4) new by (auto simp: nets_ready_def net_ready_def image_image)
qed

lemma start_clients_ok:
  assumes "nets_ready (test_procs ri) 4294967293 N"
    and "rs_procs (ns_srv N) rpc_bind = Some (handler1 unmarshall_int marshall_int r0 (rpcbind (rs_nonce (ns_srv N))))"
    and "list_all (fresh_client (ns_srv N)) cs" and "distinct (map fst cs)" and "distinct (map (fst \<circ> snd) cs)"
    and "fst ` set cs \<inter> rc_clt_nonce ` fst ` set (ns_clts N) = {}" and "(fst \<circ> snd) ` set cs \<inter> snd ` set (ns_clts N) = {}"
  shows "\<exists>N'. start_clients r1 cs N = Some N' \<and> nets_ready (test_procs ri) 4294967293 N' \<and>
    length (ns_clts N') = length (ns_clts N) + length cs"
  using assms
proof (induction cs arbitrary: N)
  case (Cons c cs)
  obtain rnd k kn where c: "c = (rnd, k, kn)" by (cases c) auto
  have f: "fresh_client (ns_srv N) (rnd, k, kn)" and rest: "list_all (fresh_client (ns_srv N)) cs" using Cons.prems(3) c by simp_all
  from bind_fresh [OF f Cons.prems(2), of r1] obtain w
    where b: "net_bind r1 \<lparr>nt_clt = rpcc_new True rnd 0, nt_srv = (ns_srv N)\<lparr>rs_heap := (rs_heap (ns_srv N))(k \<mapsto> kn)\<rparr>, nt_conn = k\<rparr> = Some (0, w)"
      and w: "net_ready 4294967293 w" "rc_clt_nonce (nt_clt w) = rnd" "nt_conn w = k" "rs_procs (nt_srv w) = rs_procs (ns_srv N)"
        "only_of rnd {k} (ns_srv N) (nt_srv w)" by blast
  let ?N = "\<lparr>ns_srv = nt_srv w, ns_clts = ns_clts N @ [(nt_clt w, k)]\<rparr>"
  have nz: "rnd \<noteq> 0" using f by (simp add: fresh_client_def)
  have new: "rnd \<notin> rc_clt_nonce ` fst ` set (ns_clts N)" "k \<notin> snd ` set (ns_clts N)" using Cons.prems(6,7) c by auto
  have 1: "nets_ready (test_procs ri) 4294967293 ?N" by (rule nets_ready_add [OF Cons.prems(1) w(1,2) nz w(3,4,5) new])
  have 2: "rs_procs (ns_srv ?N) rpc_bind = Some (handler1 unmarshall_int marshall_int r0 (rpcbind (rs_nonce (ns_srv ?N))))"
    using Cons.prems(2) w(4,5) by (simp add: only_of_def)
  have 3: "list_all (fresh_client (ns_srv ?N)) cs"
    unfolding list_all_iff
  proof
    fix d assume d: "d \<in> set cs"
    obtain m j jn where mj: "d = (m, j, jn)" by (cases d) auto
    have "m \<noteq> rnd" "j \<noteq> k" using Cons.prems(4,5) d c mj by force+
    then show "fresh_client (ns_srv ?N) d" using fresh_client_only [OF _ w(5)] rest d mj by (auto simp: list_all_iff)
  qed
  have 4: "fst ` set cs \<inter> rc_clt_nonce ` fst ` set (ns_clts ?N) = {}" "(fst \<circ> snd) ` set cs \<inter> snd ` set (ns_clts ?N) = {}"
    using Cons.prems(4-7) c w(2) by auto
  from Cons.IH [OF 1 2 3 _ _ 4] Cons.prems(4,5) obtain N' where "start_clients r1 cs ?N = Some N'"
    "nets_ready (test_procs ri) 4294967293 N'" "length (ns_clts N') = length (ns_clts ?N) + length cs" by auto
  then show ?case using b w(3) c by auto
qed simp

lemma startserver_ok:
  "\<exists>s. startserver rnd ri = Some s \<and> rs_nonce s = rnd \<and> rs_reply_window s = Map.empty \<and> rs_conns s = Map.empty \<and>
     rs_heap s = Map.empty \<and> test_procs ri s \<and>
     rs_procs s rpc_bind = Some (handler1 unmarshall_int marshall_int 0 (rpcbind rnd))"
  by (simp add: startserver_def rpcs_new_def reg1_def test_procs_def)

lemma rpctest_begins:
  assumes "distinct (map fst cs)" and "distinct (map (fst \<circ> snd) cs)"
    and "list_all (\<lambda>(rnd, k, kn). rnd \<noteq> 0 \<and> \<not> c_dead kn \<and> 1 \<le> c_refno kn) cs"
  shows "\<exists>N. rpctest_begin srv_rnd ri r1 cs = Some N \<and> nets_ready (test_procs ri) 4294967293 N \<and> length (ns_clts N) = length cs"
proof -
  obtain s where s: "startserver srv_rnd ri = Some s" "rs_nonce s = srv_rnd" "rs_reply_window s = Map.empty" "rs_conns s = Map.empty"
     "rs_heap s = Map.empty" "test_procs ri s"
     "rs_procs s rpc_bind = Some (handler1 unmarshall_int marshall_int 0 (rpcbind srv_rnd))" using startserver_ok by blast
  have "nets_ready (test_procs ri) 4294967293 \<lparr>ns_srv = s, ns_clts = []\<rparr>" using s(6) by (simp add: nets_ready_def)
  moreover have "list_all (fresh_client s) cs" using assms(3) s by (auto simp: list_all_iff fresh_client_def)
  ultimately show ?thesis
    using start_clients_ok [of ri "\<lparr>ns_srv = s, ns_clts = []\<rparr>" 0 cs r1] assms(1,2) s
    by (auto simp: rpctest_begin_def testmarshall_passes)
qed

lemma net_bind_twice: "rc_bind_done (nt_clt w) \<Longrightarrow> net_bind r1 w = Some (bind_failure, w)"
proof -
  assume "rc_bind_done (nt_clt w)"
  then have "net_call rpc_bind req w = Some ((bind_failure, unmarshall_new), w)" for req
    by (simp add: net_call_def call1_enter_def)
  moreover obtain m where "call_req1 marshall_int 0 = Some m" by (rule int_request)
  ultimately show ?thesis by (simp add: net_bind_def call_m_result_def bind_finish_def)
qed

lemma client3_round_ok: "test_ready (Suc n) ri w \<Longrightarrow> \<exists>w'. client3_round r1 i w = Some w' \<and> test_ready n ri w'"
  using call_int [of n ri w 24 handle_slow i "i + 2" r1] by (auto simp: client3_round_def test_ready_def handle_slow_def)

text \<open>The ten threads of \<open>client3\<close>, on a schedule in which each of them has at least four turns.\<close>

lemma client3_threads:
  assumes "test_ready (40 + n) ri w" and "\<forall>i < 10. 4 \<le> count_list sched i"
  shows "\<exists>w' ts. run_schedule sched (replicate 10 (client3 r1)) w = Some (w', ts) \<and> list_all (\<lambda>t. t = []) ts \<and> test_ready n ri w'"
proof -
  let ?ts = "replicate 10 (client3 r1)"
  have work: "steps_work (\<lambda>n. test_ready n ri) ?ts"
    using client3_round_ok by (auto simp: steps_work_def client3_def)
  have left: "steps_left ?ts = 40" by (simp add: steps_left_def client3_def sum_list_replicate)
  from run_schedule_ok [OF work, of n w sched] assms(1) left obtain w' ts where
    r: "run_schedule sched ?ts w = Some (w', ts)" "test_ready (steps_left ts + n) ri w'" "length ts = 10"
      "\<forall>i < 10. length (ts ! i) = length (?ts ! i) - count_list sched i" by auto
  have "ts ! i = []" if "i < 10" for i
  proof -
    have "length (client3 r1) = 4" by (simp add: client3_def)
    then have "length (ts ! i) = 4 - count_list sched i" "4 \<le> count_list sched i" using r(4) assms(2) that by simp_all
    then show ?thesis by simp
  qed
  then have "list_all (\<lambda>t. t = []) ts" using r(3) by (auto simp: list_all_length)
  moreover from this have "steps_left ts = 0" by (induction ts) (auto simp: steps_left_def)
  ultimately show ?thesis using r(1,2) by auto
qed

lemma call_strings_oldsrv:
  assumes w: "client_inv A (nt_clt w)" "rc_xid (nt_clt w) \<noteq> - 1" "rc_bind_done (nt_clt w)"
    and old: "rc_srv_nonce (nt_clt w) \<noteq> 0" "rc_srv_nonce (nt_clt w) \<noteq> rs_nonce (nt_srv w)" and proc: "proc \<noteq> rpc_bind"
    and len: "length a + length b + 32 < MARSH_LIMIT" and txs: "answered_by txs" "rs_heap (nt_srv w) (nt_conn w) \<noteq> None"
  shows "\<exists>m res w'. call_req2 marshall_string marshall_string a b = Some m \<and> lossy_call lossy txs proc m w = Some (res, w') \<and>
    call_m_result (unmarshall_string rep) rep res = Some (oldsrv_failure, rep) \<and>
    conns_only (insert (nt_conn w) ((fst \<circ> snd) ` set txs)) (nt_srv w) (nt_srv w')"
proof -
  let ?args = "enc_string a @ enc_string b"
  have short: "short_list a" "short_list b" using len by (simp_all add: short_list_def)
  have l: "length ?args < MARSH_LIMIT" "m_ind marshall_new + length ?args < MARSH_LIMIT"
    using len by (simp_all add: enc_string_def marshall_new_def)
  from put_two_strings [OF short] marsh_wf_new l(2) obtain m where m: "call_req2 marshall_string marshall_string a b = Some m"
    "marsh_wf m" "m_contents m = replicate 24 None @ map Some ?args" by (rule put_okD) (auto simp: call_req2_def m_contents_new)
  have may: "may_call (nt_clt w) proc" using w(3) proc by (simp add: may_call_def)
  from lossy_call_oldsrv [OF w(1,2) may old m(2,3) l(1) txs] m(1) show ?thesis
    by (fastforce simp: call_m_result_def)
qed

lemma test_ready_bound:
  assumes "fresh_client s (rnd, k, kn)" and "test_procs ri s"
    and "rs_procs s rpc_bind = Some (handler1 unmarshall_int marshall_int 0 (rpcbind (rs_nonce s)))"
  shows "\<exists>w. net_bind r1 \<lparr>nt_clt = rpcc_new True rnd 0, nt_srv = s\<lparr>rs_heap := (rs_heap s)(k \<mapsto> kn)\<rparr>, nt_conn = k\<rparr> = Some (0, w) \<and>
    test_ready 4294967293 ri w"
  using bind_fresh [OF assms(1,3), of r1] assms(2) by (auto simp: test_ready_procs test_procs_def)

text \<open>What the test takes for granted: the connections are alive, the nonces are not zero, each of the ten threads gets its
  turns, and the server that is started again draws another nonce than the one the old client knows.\<close>

definition failure_env_ok :: "failure_env \<Rightarrow> u32 \<Rightarrow> bool" where
  "failure_env_ok e old \<longleftrightarrow> \<not> c_dead (fe_kn e) \<and> 1 \<le> c_refno (fe_kn e) \<and> fe_clt1 e \<noteq> 0 \<and>
     answered_by (fe_txs e) \<and> fe_k1 e \<notin> insert (fe_k e) ((fst \<circ> snd) ` set (fe_txs e)) \<and>
     old \<noteq> 0 \<and> old \<noteq> fe_srv1 e \<and> (\<forall>i < 10. 4 \<le> count_list (fe_sched1 e) i) \<and> (\<forall>i < 10. 4 \<le> count_list (fe_sched2 e) i)"

text \<open>
  \<open>failure_test\<close> passes. A client cannot bind to a server that is not there. A server that was started again refuses
  the client of the old one with \<open>oldsrv_failure\<close>; a new client binds, once, and its calls succeed; ten threads then call
  through it in any order, and do so again with a new client and a new server. Of the world before the test only the old
  client matters.
\<close>

lemma failure_test_ok:
  assumes A: "client_inv A (nt_clt w)" "rc_bind_done (nt_clt w)" "rc_xid (nt_clt w) \<noteq> - 1"
    and e: "failure_env_ok e (rc_srv_nonce (nt_clt w))"
  shows "\<exists>w'. failure_test e w = Some w' \<and> test_ready 4294967253 (fe_ri e) w'"
proof -
  obtain c0 where c0: "dead_bind (fe_r e) (rpcc_new True (fe_clt0 e) 0) = Some (timeout_failure, c0)" using dead_bind_times_out by blast
  obtain s where s: "startserver (fe_srv1 e) (fe_ri e) = Some s" "rs_nonce s = fe_srv1 e" "rs_reply_window s = Map.empty"
     "rs_conns s = Map.empty" "test_procs (fe_ri e) s"
     "rs_procs s rpc_bind = Some (handler1 unmarshall_int marshall_int 0 (rpcbind (fe_srv1 e)))" using startserver_ok by blast
  let ?w1 = "\<lparr>nt_clt = nt_clt w, nt_srv = s\<lparr>rs_heap := [fe_k e \<mapsto> fe_kn e]\<rparr>, nt_conn = fe_k e\<rparr>"
  from call_strings_oldsrv [of A ?w1 22 "lit ''hello''" "lit '' goodbye''" "fe_txs e" 0 "[]"] A e s obtain m res w2 where
    w2: "call_req2 marshall_string marshall_string (lit ''hello'') (lit '' goodbye'') = Some m"
      "lossy_call 0 (fe_txs e) 22 m ?w1 = Some (res, w2)" "call_m_result (unmarshall_string []) [] res = Some (oldsrv_failure, [])"
      "conns_only (insert (fe_k e) ((fst \<circ> snd) ` set (fe_txs e))) (nt_srv ?w1) (nt_srv w2)"
    by (auto simp: failure_env_ok_def)
  have same: "rs_procs (nt_srv w2) = rs_procs s" "rs_nonce (nt_srv w2) = fe_srv1 e" "rs_conns (nt_srv w2) = Map.empty"
    "rs_reply_window (nt_srv w2) = Map.empty" "rs_heap (nt_srv w2) (fe_k1 e) = None"
    using w2(4) s(2-4) e by (auto simp: conns_only_def failure_env_ok_def)
  have "fresh_client (nt_srv w2) (fe_clt1 e, fe_k1 e, fe_kn e)" using e same by (simp add: fresh_client_def failure_env_ok_def)
  moreover have "test_procs (fe_ri e) (nt_srv w2)" using s(5) same(1) by (simp add: test_procs_def)
  ultimately obtain w3 where w3: "net_bind (fe_r e) \<lparr>nt_clt = rpcc_new True (fe_clt1 e) 0,
       nt_srv = (nt_srv w2)\<lparr>rs_heap := (rs_heap (nt_srv w2))(fe_k1 e \<mapsto> fe_kn e)\<rparr>, nt_conn = fe_k1 e\<rparr> = Some (0, w3)"
     "test_ready 4294967293 (fe_ri e) w3"
    using test_ready_bound [of "nt_srv w2" "fe_clt1 e" "fe_k1 e" "fe_kn e" "fe_ri e" "fe_r e"] same(1,2) s(6) by auto
  have again: "net_bind (fe_r e) w3 = Some (bind_failure, w3)"
    using w3(2) by (intro net_bind_twice) (simp add: test_ready_def net_ready_def)
  have "test_ready (Suc 40) (fe_ri e) w3" by (rule test_ready_mono [OF w3(2)]) simp
  from call_22 [OF this, of "lit ''hello''" "lit '' goodbye''" "[]"] obtain w4 where
    w4: "call_strings 22 (lit ''hello'') (lit '' goodbye'') [] w3 = Some ((0, lit ''hello goodbye''), w4)" "test_ready (40 + 0) (fe_ri e) w4"
    by (auto simp: lit_def)
  obtain w5 ts where w5: "run_schedule (fe_sched1 e) (replicate 10 (client3 (fe_r e))) w4 = Some (w5, ts)" "list_all (\<lambda>t. t = []) ts"
    using client3_threads [OF w4(2)] e unfolding failure_env_ok_def by blast
  obtain s' where s': "startserver (fe_srv2 e) (fe_ri e) = Some s'" "rs_nonce s' = fe_srv2 e" "rs_reply_window s' = Map.empty"
     "rs_conns s' = Map.empty" "test_procs (fe_ri e) s'"
     "rs_procs s' rpc_bind = Some (handler1 unmarshall_int marshall_int 0 (rpcbind (fe_srv2 e)))" using startserver_ok by blast
  from net_started [of "fe_kn e" s' 0 "fe_r e" "fe_clt2 e" 0 "fe_k e"] e s' obtain w6 where
    w6: "net_bind (fe_r e) (net_new (fe_clt2 e) 0 (fe_k e) (fe_kn e) s') = Some (0, w6)" "test_ready 4294967293 (fe_ri e) w6"
    by (auto simp: failure_env_ok_def test_ready_procs test_procs_def)
  have "test_ready (40 + 4294967253) (fe_ri e) w6" using w6(2) by simp
  then obtain w7 us where w7: "run_schedule (fe_sched2 e) (replicate 10 (client3 (fe_r e))) w6 = Some (w7, us)"
    "list_all (\<lambda>t. t = []) us" "test_ready 4294967253 (fe_ri e) w7"
    using client3_threads e unfolding failure_env_ok_def by blast
  have "failure_test e w = Some w7"
    unfolding failure_test_def using c0 s(1) w2(1-3) w3(1) again w4(1) w5 s'(1) w6(1) w7(1,2) by (simp add: Let_def)
  then show ?thesis using w7(3) by blast
qed

definition sample_failure_env :: failure_env where
  "sample_failure_env = \<lparr>fe_srv1 = 10, fe_srv2 = 11, fe_clt0 = 1, fe_clt1 = 2, fe_clt2 = 3, fe_ri = 0, fe_r = 0, fe_k = 0, fe_k1 = 1,
     fe_kn = fst (connection_new 3 0), fe_txs = [(Request_lost, 2, 4), (Arrives, 0, 0)], fe_sched1 = concat (replicate 4 [0, 1, 2, 3, 4, 5, 6, 7, 8, 9]),
     fe_sched2 = concat (replicate 4 [9, 8, 7, 6, 5, 4, 3, 2, 1, 0])\<rparr>"

lemma sample_bound:
  "\<exists>w :: unit net. net_ready 4294967293 w \<and> rc_srv_nonce (nt_clt w) = 9 \<and> (\<exists>kn. rs_heap (nt_srv w) (nt_conn w) = Some kn)"
proof -
  obtain s where s: "startserver 9 0 = Some s" "rs_nonce s = 9" "rs_reply_window s = Map.empty" "rs_conns s = Map.empty"
     "rs_procs s rpc_bind = Some (handler1 unmarshall_int marshall_int 0 (rpcbind 9))" using startserver_ok by blast
  let ?w = "net_new 5 0 0 (fst (connection_new 3 0)) s"
  have "linked (Suc 4294967293) (nt_clt ?w) (nt_srv ?w) (nt_conn ?w)"
    using linked_new [of "nt_srv ?w" 0 "fst (connection_new 3 0)" True 5 0] s by (simp add: net_new_def connection_new_def)
  moreover have "\<not> rc_bind_done (nt_clt ?w)" by (simp add: net_new_def rpcc_new_def)
  ultimately obtain w' :: "unit net" where "net_ready 4294967293 w'" "rc_srv_nonce (nt_clt w') = 9"
    using net_bind_ok [of 4294967293 ?w 0 0] s by (auto simp: net_new_def)
  then show ?thesis by (auto simp: net_ready_def linked_def)
qed

lemma sample_schedules:
  "\<forall>i < 10. 4 \<le> count_list (concat (replicate 4 [0, 1, 2, 3, 4, 5, 6, 7, 8, 9])) (i :: nat)"
  "\<forall>i < 10. 4 \<le> count_list (concat (replicate 4 [9, 8, 7, 6, 5, 4, 3, 2, 1, 0])) (i :: nat)"
  by (simp_all add: eval_nat_numeral All_less_Suc)

text \<open>
  C40: A server that was started again refuses every call of a client that is bound to the earlier instance: the call
  returns \<open>oldsrv_failure\<close> and leaves the result variable alone, no handler runs, and the server keeps nothing of the
  client; only the reference that \<open>got_pdu\<close> took on the connection is never given back.
\<close>

theorem old_client_refused:
  assumes inv: "client_inv A (nt_clt w)" "rc_xid (nt_clt w) \<noteq> - 1" "rc_bind_done (nt_clt w)" and proc: "proc \<noteq> rpc_bind"
    and old: "rc_srv_nonce (nt_clt w) \<noteq> 0" "rc_srv_nonce (nt_clt w) \<noteq> rs_nonce (nt_srv w)"
    and kn: "rs_heap (nt_srv w) (nt_conn w) = Some kn"
    and req: "marsh_wf req" "m_contents req = replicate 24 None @ map Some args" "length args < MARSH_LIMIT"
  shows "\<exists>res w'. net_call proc req w = Some (res, w') \<and> call_m_result get r1 res = Some (oldsrv_failure, r1) \<and>
    rs_app (nt_srv w') = rs_app (nt_srv w) \<and> rs_conns (nt_srv w') = rs_conns (nt_srv w) \<and>
    rs_reply_window (nt_srv w') = rs_reply_window (nt_srv w) \<and>
    rs_heap (nt_srv w') = (rs_heap (nt_srv w))(nt_conn w \<mapsto> kn\<lparr>c_refno := c_refno kn + 1\<rparr>)"
proof -
  have "may_call (nt_clt w) proc" using inv(3) proc by (simp add: may_call_def)
  moreover have "call_m_result get r1 (oldsrv_failure, u) = Some (oldsrv_failure, r1)" for u by (simp add: call_m_result_def)
  ultimately show ?thesis using net_call_oldsrv [OF inv(1,2) _ old kn req, of proc] by metis
qed

theorem old_client_refused_witness:
  "\<exists>(w :: unit net) req res w'. net_call 22 req w = Some (res, w') \<and> call_m_result unmarshall_int 7 res = Some (oldsrv_failure, 7)"
proof -
  obtain w :: "unit net" and kn where w: "net_ready 4294967293 w" "rc_srv_nonce (nt_clt w) = 9"
    "rs_heap (nt_srv w) (nt_conn w) = Some kn" using sample_bound by blast
  obtain A where A: "client_inv A (nt_clt w)" "rc_bind_done (nt_clt w)" "rc_xid (nt_clt w) \<noteq> - 1"
    using w(1) unat_Suc_u32 [of "rc_xid (nt_clt w)"] by (auto simp: net_ready_def linked_def)
  obtain m where m: "marsh_wf m" "m_contents m = replicate 24 None @ map Some (be32 0)" by (rule int_request [of 0])
  let ?w = "w\<lparr>nt_srv := (nt_srv w)\<lparr>rs_nonce := 10\<rparr>\<rparr>"
  have "\<exists>res w'. net_call 22 m ?w = Some (res, w') \<and> call_m_result unmarshall_int 7 res = Some (oldsrv_failure, 7)"
    using old_client_refused [of A ?w 22 kn m "be32 0" unmarshall_int 7] A w m by fastforce
  then show ?thesis by blast
qed

text \<open>The calls of \<open>client4\<close> pass as well.\<close>

lemma client4_passes:
  assumes "test_ready ((\<Sum>j\<leftarrow>js. length (fst j)) + n) ri w" and "\<forall>(args, rss) \<in> set js. \<forall>a \<in> set args. a < 252000"
  shows "\<exists>w'. client4_calls js w = Some w' \<and> test_ready n ri w' \<and>
    client4 initial js w = (if js \<noteq> [] \<and> snd (last js) - initial < 3000 then Some w' else None)"
proof -
  have "\<exists>w'. client4_calls js w = Some w' \<and> test_ready n ri w'" using assms
  proof (induction js arbitrary: w)
    case (Cons j js)
    obtain args rss where j: "j = (args, rss)" by (cases j)
    from client1_big_ok [of args "(\<Sum>j\<leftarrow>js. length (fst j)) + n" ri w] Cons.prems obtain w1 where
      "client1_big args w = Some w1" "test_ready ((\<Sum>j\<leftarrow>js. length (fst j)) + n) ri w1" by (auto simp: j add.assoc)
    then show ?case using Cons.IH [of w1] Cons.prems(2) by (auto simp: j)
  qed simp
  then show ?thesis by (auto simp: client4_def assert_that_def)
qed

end
