(* ===== verification/LossyTest.thy ===== *)
theory LossyTest
  imports RpcFailures
begin

text \<open>
  \<open>client2\<close> and \<open>lossy_test\<close> of \<open>rpc/rpctest.cc\<close>: calls over connections that both sides shut down at random (theory
  \<open>Lossy\<close>). The random choices of the losses are the transmissions of each call. The test passes if each call gets a
  reply back before its deadline: the server executes it once, and the other clients see nothing of it.
\<close>

section \<open>lossy\_test\<close>

text \<open>\<open>rpcc::bind\<close> over connections that may be lost; \<open>r1\<close> is the uninitialised \<open>int r\<close>.\<close>

definition lossy_bind :: "int \<Rightarrow> tx list \<Rightarrow> u32 \<Rightarrow> 's net \<Rightarrow> (u32 \<times> 's net) option" where
  "lossy_bind lossy txs r1 w = do {
     req \<leftarrow> call_req1 marshall_int 0;
     (res, w) \<leftarrow> lossy_call lossy txs rpc_bind req w;
     ret \<leftarrow> call_m_result unmarshall_int r1 res;
     let (r, c) = bind_finish (nt_clt w) ret;
     Some (r, w\<lparr>nt_clt := c\<rparr>)
   }"

text \<open>The clients of the test: nonce, first connection with its descriptor, and the transmissions of \<open>bind\<close>.\<close>

fun lossy_clients :: "int \<Rightarrow> u32 \<Rightarrow> (u32 \<times> cid \<times> nat \<times> tx list) list \<Rightarrow> 's nets \<Rightarrow> 's nets option" where
  "lossy_clients lossy r1 [] N = Some N"
| "lossy_clients lossy r1 ((rnd, k, fd, txs) # cs) N = do {
     (ret, w) \<leftarrow> lossy_bind lossy txs r1
       \<lparr>nt_clt = rpcc_new True rnd (of_int lossy), nt_srv = conn_accepted (ns_srv N) k fd lossy, nt_conn = k\<rparr>;
     assert_that (ret = 0);
     lossy_clients lossy r1 cs \<lparr>ns_srv = nt_srv w, ns_clts = ns_clts N @ [(nt_clt w, nt_conn w)]\<rparr>
   }"

text \<open>\<open>client2\<close> goes on until ten seconds have passed: the list has the times that \<open>time(0)\<close> gives, with the argument drawn
  for the round and the transmissions of its call; \<open>None\<close> when the clock stops before. Only the length of the reply is
  checked.\<close>

definition client2_round :: "int \<Rightarrow> tx list \<Rightarrow> u32 \<Rightarrow> unit net \<Rightarrow> unit net option" where
  "client2_round lossy txs arg w = do {
     m \<leftarrow> call_req1 marshall_int arg;
     (res, w) \<leftarrow> lossy_call lossy txs 25 m w;
     (ret, rep) \<leftarrow> call_m_result (unmarshall_string []) [] res;
     assert_that (of_nat (length rep) = arg);
     Some w
   }"

fun client2 :: "int \<Rightarrow> int \<Rightarrow> (int \<times> u32 \<times> tx list) list \<Rightarrow> unit net \<Rightarrow> unit net option" where
  "client2 lossy t1 [] w = None"
| "client2 lossy t1 ((now, arg, txs) # clock) w =
     (if now - t1 < 10 then do { w \<leftarrow> client2_round lossy txs arg w; client2 lossy t1 clock w } else Some w)"

text \<open>The environment variable \<open>RPC_LOSSY\<close> is 5. If the process has a server it is replaced by a new one, with nonce
  \<open>rnd\<close>; otherwise the clients go on with the server \<open>other\<close>. The only thread, number 0, uses the client 0.\<close>

definition lossy_test ::
  "bool \<Rightarrow> unit rpcs \<Rightarrow> u32 \<Rightarrow> u32 \<Rightarrow> u32 \<Rightarrow> (u32 \<times> cid \<times> nat \<times> tx list) list \<Rightarrow> int \<Rightarrow> (int \<times> u32 \<times> tx list) list \<Rightarrow> unit nets option" where
  "lossy_test server other rnd ri r1 cs t1 clock = do {
     s \<leftarrow> (if server then startserver rnd ri else Some other);
     N \<leftarrow> lossy_clients 5 r1 cs \<lparr>ns_srv = s, ns_clts = []\<rparr>;
     on_client 0 (client2 5 t1 clock) N
   }"

section \<open>One client\<close>

text \<open>Client \<open>w\<close> is bound and uses the connections \<open>K\<close> only.\<close>

definition lossy_client :: "cid set \<Rightarrow> nat \<Rightarrow> rpcc \<Rightarrow> 's rpcs \<Rightarrow> cid \<Rightarrow> bool" where
  "lossy_client K n c s k \<longleftrightarrow> lossy_linked n c s k \<and> rc_bind_done c \<and> rc_srv_nonce c = rs_nonce s \<and>
     conns_of s (rc_clt_nonce c) \<subseteq> K \<and> k \<in> K"

lemma lossy_client_other:
  assumes "lossy_client K n c s k" and "only_of m K' s s'" and "rc_clt_nonce c \<noteq> m" and "K \<inter> K' = {}"
  shows "lossy_client K n c s' k"
proof -
  have "conns_of s' (rc_clt_nonce c) = conns_of s (rc_clt_nonce c)" "rs_nonce s' = rs_nonce s"
    using assms(2,3) by (simp_all add: only_of_def conns_of_def)
  moreover have "k \<notin> K'" "conns_of s (rc_clt_nonce c) \<inter> K' = {}" using assms(1,4) by (auto simp: lossy_client_def)
  ultimately show ?thesis using assms(1) lossy_linked_other [OF _ assms(2,3)] by (simp add: lossy_client_def)
qed

text \<open>A round of \<open>client2\<close>.\<close>

definition txs_ok :: "cid set \<Rightarrow> cid \<Rightarrow> tx list \<Rightarrow> bool" where
  "txs_ok K k txs \<longleftrightarrow> new_conns k txs \<and> answered_by txs \<and> (fst \<circ> snd) ` set txs \<subseteq> K"

lemma client2_round_ok:
  assumes w: "lossy_client K (Suc n) (nt_clt w) (nt_srv w) (nt_conn w)" "test_procs ri (nt_srv w)"
    and arg: "arg < 2000" and txs: "txs_ok K (nt_conn w) txs"
  shows "\<exists>w'. client2_round lossy txs arg w = Some w' \<and> lossy_client K n (nt_clt w') (nt_srv w') (nt_conn w') \<and>
    test_procs ri (nt_srv w') \<and> nt_conn w' = last_conn (nt_conn w) txs \<and> rs_nonce (nt_srv w') = rs_nonce (nt_srv w)"
proof -
  have may: "may_call (nt_clt w) 25" using w(1) by (simp add: lossy_client_def may_call_def)
  have len: "unat arg < 2000" using arg by (simp add: word_less_nat_alt)
  then have "sint (of_nat (unat arg) :: u32) = int (unat arg)" by (intro sint_of_nat_u32) simp
  then have pos: "0 \<le> sint arg" by simp
  have rdy: "lossy_ready (Suc n) w" and K: "conns_of (nt_srv w) (rc_clt_nonce (nt_clt w)) \<subseteq> K" "nt_conn w \<in> K"
    "(fst \<circ> snd) ` set txs \<subseteq> K" using w(1) txs by (simp_all add: lossy_client_def txs_ok_def)
  have h: "rs_procs (nt_srv w) 25 = Some h_bigrep" using w(2) by (simp add: test_procs_def)
  have meth: "handle_bigrep arg [] (rs_app (nt_srv w)) = Some (0, replicate (unat arg) (of_char CHR ''x''), rs_app (nt_srv w))"
    using pos by (simp add: handle_bigrep_def)
  have "new_conns (nt_conn w) txs" "answered_by txs" using txs by (simp_all add: txs_ok_def)
  from rpc_method.lossy_call_method [OF m_bigrep.rpc_method_axioms rdy may h _ _ meth _ _ _ this K, of lossy "[]" "[]"] len obtain req ret w' where
    w': "call_req1 marshall_int arg = Some req" "lossy_call lossy txs 25 req w = Some (ret, w')"
      "call_m_result (unmarshall_string []) [] ret = Some (0, replicate (unat arg) (of_char CHR ''x''))" "lossy_ready n w'"
      "same_client ((nt_clt w)\<lparr>rc_xid := rc_xid (nt_clt w) + 1\<rparr>) (nt_clt w')" "rs_nonce (nt_srv w') = rs_nonce (nt_srv w)"
      "rs_procs (nt_srv w') = rs_procs (nt_srv w)" "only_of (rc_clt_nonce (nt_clt w)) K (nt_srv w) (nt_srv w')" "nt_conn w' \<in> K"
    by (auto simp: short_list_def enc_string_def)
  have "conns_of (nt_srv w') (rc_clt_nonce (nt_clt w)) \<subseteq> K" using w'(8) K(1) by (simp add: only_of_def)
  then have "lossy_client K n (nt_clt w') (nt_srv w') (nt_conn w')"
    using w(1) w' by (simp add: lossy_client_def same_client_def)
  moreover have "client2_round lossy txs arg w = Some w'" using w'(1-3) by (simp add: client2_round_def)
  ultimately show ?thesis using w(2) w'(6,7) lossy_call_conn [OF may w'(2)] by (simp add: test_procs_def)
qed

text \<open>All rounds: each call gets its reply back, and the clock reaches the tenth second.\<close>

fun rounds_ok :: "cid set \<Rightarrow> int \<Rightarrow> cid \<Rightarrow> (int \<times> u32 \<times> tx list) list \<Rightarrow> bool" where
  "rounds_ok K t1 k [] = False"
| "rounds_ok K t1 k ((now, arg, txs) # clock) =
     (now - t1 < 10 \<longrightarrow> arg < 2000 \<and> txs_ok K k txs \<and> rounds_ok K t1 (last_conn k txs) clock)"

lemma lossy_client_mono: "lossy_client K (m + n) c s k \<Longrightarrow> lossy_client K n c s k"
  by (simp add: lossy_client_def lossy_linked_def)

lemma client2_ok:
  assumes "lossy_client K (length clock + n) (nt_clt w) (nt_srv w) (nt_conn w)" and "test_procs ri (nt_srv w)"
    and "rounds_ok K t1 (nt_conn w) clock"
  shows "\<exists>w'. client2 lossy t1 clock w = Some w' \<and> lossy_client K n (nt_clt w') (nt_srv w') (nt_conn w') \<and>
    test_procs ri (nt_srv w') \<and> rs_nonce (nt_srv w') = rs_nonce (nt_srv w)"
  using assms
proof (induction clock arbitrary: w)
  case (Cons r clock)
  obtain now arg txs where r: "r = (now, arg, txs)" by (cases r) auto
  show ?case
  proof (cases "now - t1 < 10")
    case True
    then obtain w1 where w1: "client2_round lossy txs arg w = Some w1"
      "lossy_client K (length clock + n) (nt_clt w1) (nt_srv w1) (nt_conn w1)" "test_procs ri (nt_srv w1)"
      "nt_conn w1 = last_conn (nt_conn w) txs" "rs_nonce (nt_srv w1) = rs_nonce (nt_srv w)"
      using client2_round_ok [of K "length clock + n" w ri arg txs lossy] Cons.prems r by auto
    from Cons.IH [OF w1(2,3)] w1(4) Cons.prems(3) r True obtain w' where "client2 lossy t1 clock w1 = Some w'"
      "lossy_client K n (nt_clt w') (nt_srv w') (nt_conn w')" "test_procs ri (nt_srv w')" "rs_nonce (nt_srv w') = rs_nonce (nt_srv w1)"
      by auto
    then show ?thesis using w1(1,5) r True by simp
  next
    case False
    then show ?thesis using lossy_client_mono [OF Cons.prems(1)] Cons.prems(2) r by simp
  qed
qed simp

section \<open>Several clients\<close>

abbreviation binds :: "u32 \<Rightarrow> 's rpcs \<Rightarrow> bool" where
  "binds r0 s \<equiv> rs_procs s rpc_bind = Some (handler1 unmarshall_int marshall_int r0 (rpcbind (rs_nonce s)))"

text \<open>A new client binds.\<close>

lemma lossy_bind_new:
  assumes s: "rs_conns s rnd = None" "rs_reply_window s rnd = None" "rnd \<noteq> 0" and p: "binds r0 s"
    and txs: "txs_ok K k txs" and k: "k \<in> K"
  shows "\<exists>w. lossy_bind lossy txs r1 \<lparr>nt_clt = rpcc_new True rnd (of_int lossy), nt_srv = conn_accepted s k fd lossy, nt_conn = k\<rparr> =
      Some (0, w) \<and> lossy_client K 4294967293 (nt_clt w) (nt_srv w) (nt_conn w) \<and> rc_clt_nonce (nt_clt w) = rnd \<and>
    nt_conn w = last_conn k txs \<and> rs_procs (nt_srv w) = rs_procs s \<and> rs_nonce (nt_srv w) = rs_nonce s \<and>
    rs_app (nt_srv w) = rs_app s \<and> only_of rnd K s (nt_srv w)"
proof -
  let ?s = "conn_accepted s k fd lossy" and ?c = "rpcc_new True rnd (of_int lossy)"
  let ?w = "\<lparr>nt_clt = ?c, nt_srv = ?s, nt_conn = k\<rparr>"
  have same: "rs_procs ?s = rs_procs s" "rs_nonce ?s = rs_nonce s" "rs_app ?s = rs_app s"
    and f: "only_of rnd K s ?s" and K: "conns_of ?s rnd \<subseteq> K"
    using s(1) k by (auto simp: conn_accepted_def only_of_def conns_of_def)
  have "lossy_linked 4294967294 ?c ?s k"
    using s client_inv_new [of True rnd "of_int lossy"]
    by (auto simp: lossy_linked_def rpcc_new_def win_xids_def channel_ok_def usable_def isdead_def conn_accepted_def
        connection_new_def charbuf_new_def)
  then have "lossy_linked (Suc 4294967293) ?c ?s k" by (simp only: Suc_numeral) simp
  then have rdy: "lossy_ready (Suc 4294967293) ?w" by simp
  have may: "may_call (nt_clt ?w) rpc_bind" and nz: "rc_clt_nonce (nt_clt ?w) = rnd" by (simp_all add: may_call_def rpcc_new_def)
  have h: "rs_procs (nt_srv ?w) rpc_bind = Some (handler1 unmarshall_int marshall_int r0 (rpcbind (rs_nonce s)))" using p same by simp
  have meth: "rpcbind (rs_nonce s) 0 r0 (rs_app (nt_srv ?w)) = Some (0, rs_nonce s, rs_app s)" using same by (simp add: rpcbind_def)
  have t: "new_conns (nt_conn ?w) txs" "answered_by txs" "(fst \<circ> snd) ` set txs \<subseteq> K" using txs by (simp_all add: txs_ok_def)
  have K': "conns_of (nt_srv ?w) (rc_clt_nonce (nt_clt ?w)) \<subseteq> K" "nt_conn ?w \<in> K" using K k nz by simp_all
  from rpc_method.lossy_call_method [OF m_bind.rpc_method_axioms rdy may h _ _ meth _ _ _ t(1,2) K' t(3), of lossy r1]
  obtain req ret w where w: "call_req1 marshall_int 0 = Some req" "lossy_call lossy txs rpc_bind req ?w = Some (ret, w)"
    "call_m_result unmarshall_int r1 ret = Some (0, rs_nonce s)" "lossy_ready 4294967293 w"
    "same_client (?c\<lparr>rc_xid := rc_xid ?c + 1\<rparr>) (nt_clt w)" "rs_nonce (nt_srv w) = rs_nonce s" "rs_procs (nt_srv w) = rs_procs s"
    "only_of rnd K ?s (nt_srv w)" "nt_conn w \<in> K" "rs_app (nt_srv w) = rs_app s" using nz same by auto
  let ?w' = "w\<lparr>nt_clt := (nt_clt w)\<lparr>rc_bind_done := True, rc_srv_nonce := rs_nonce s\<rparr>\<rparr>"
  have "rc_clt_nonce (nt_clt w) = rnd" using w(5) by (simp add: same_client_def rpcc_new_def)
  moreover from this have "lossy_client K 4294967293 (nt_clt ?w') (nt_srv ?w') (nt_conn ?w')"
    using w(4,6,8,9) K by (auto simp: lossy_client_def lossy_linked_def client_inv_def only_of_def)
  moreover have "only_of rnd K s (nt_srv w)" using f w(8) by (rule only_of_trans)
  moreover have "lossy_bind lossy txs r1 ?w = Some (0, ?w')" using w(1-3) by (simp add: lossy_bind_def bind_finish_def)
  ultimately show ?thesis using w(6,7,10) lossy_call_conn [OF may w(2)] by auto
qed

text \<open>\<open>U m\<close> are the connections that the client with nonce \<open>m\<close> uses in the course of the test.\<close>

definition clients_ok :: "(u32 \<Rightarrow> cid set) \<Rightarrow> (u32 \<times> cid \<times> nat \<times> tx list) list \<Rightarrow> bool" where
  "clients_ok U cs \<longleftrightarrow> distinct (map fst cs) \<and> (\<forall>m m'. m \<noteq> m' \<longrightarrow> U m \<inter> U m' = {}) \<and>
     (\<forall>(rnd, k, fd, txs) \<in> set cs. rnd \<noteq> 0 \<and> k \<in> U rnd \<and> txs_ok (U rnd) k txs)"

definition test_server :: "u32 \<Rightarrow> unit rpcs \<Rightarrow> u32 set \<Rightarrow> bool" where
  "test_server ri s R \<longleftrightarrow> test_procs ri s \<and> (\<exists>r0. binds r0 s) \<and> (\<forall>m \<in> R. rs_conns s m = None \<and> rs_reply_window s m = None)"

definition all_lossy :: "(u32 \<Rightarrow> cid set) \<Rightarrow> 's nets \<Rightarrow> bool" where
  "all_lossy U N \<longleftrightarrow> (\<forall>(c, k) \<in> set (ns_clts N). lossy_client (U (rc_clt_nonce c)) 4294967293 c (ns_srv N) k)"

lemma test_server_only:
  assumes "test_server ri s R" and "only_of m K s s'" and "m \<notin> R" and "rs_procs s' = rs_procs s"
  shows "test_server ri s' R"
proof -
  have "rs_conns s' x = None \<and> rs_reply_window s' x = None" if "x \<in> R" for x
    using assms(1-3) that by (auto simp: test_server_def only_of_def)
  then show ?thesis using assms(1,2,4) by (auto simp: test_server_def test_procs_def only_of_def)
qed

lemma test_server_started: "\<exists>s. startserver rnd ri = Some s \<and> test_server ri s R \<and> rs_nonce s = rnd"
proof -
  obtain s where s: "startserver rnd ri = Some s" "rs_nonce s = rnd" "rs_reply_window s = Map.empty" "rs_conns s = Map.empty"
    "test_procs ri s" "rs_procs s rpc_bind = Some (handler1 unmarshall_int marshall_int 0 (rpcbind rnd))"
    using startserver_ok by blast
  then have "test_server ri s R" unfolding test_server_def by auto
  then show ?thesis using s(1,2) by blast
qed

lemma lossy_clients_ok:
  assumes "all_lossy U N" and "test_server ri (ns_srv N) (fst ` set cs)" and "clients_ok U cs"
    and "fst ` set cs \<inter> rc_clt_nonce ` fst ` set (ns_clts N) = {}"
  shows "\<exists>N'. lossy_clients lossy r1 cs N = Some N' \<and> all_lossy U N' \<and> test_procs ri (ns_srv N') \<and>
    rs_nonce (ns_srv N') = rs_nonce (ns_srv N) \<and> map (\<lambda>(c, k). (rc_clt_nonce c, k)) (ns_clts N') =
      map (\<lambda>(c, k). (rc_clt_nonce c, k)) (ns_clts N) @ map (\<lambda>(rnd, k, fd, txs). (rnd, last_conn k txs)) cs"
  using assms
proof (induction cs arbitrary: N)
  case Nil
  then show ?case by (simp add: test_server_def)
next
  case (Cons c cs)
  obtain rnd k fd txs where c: "c = (rnd, k, fd, txs)" by (cases c) auto
  obtain r0 where p: "binds r0 (ns_srv N)" using Cons.prems(2) by (auto simp: test_server_def)
  have r: "rs_conns (ns_srv N) rnd = None" "rs_reply_window (ns_srv N) rnd = None" "rnd \<noteq> 0" "k \<in> U rnd" "txs_ok (U rnd) k txs"
    using Cons.prems(2,3) c by (auto simp: test_server_def clients_ok_def)
  from lossy_bind_new [OF r(1-3) p r(5,4), of lossy r1 fd] obtain w where
    w: "lossy_bind lossy txs r1 \<lparr>nt_clt = rpcc_new True rnd (of_int lossy), nt_srv = conn_accepted (ns_srv N) k fd lossy, nt_conn = k\<rparr> = Some (0, w)"
      "lossy_client (U rnd) 4294967293 (nt_clt w) (nt_srv w) (nt_conn w)" "rc_clt_nonce (nt_clt w) = rnd" "nt_conn w = last_conn k txs"
      "rs_procs (nt_srv w) = rs_procs (ns_srv N)" "rs_nonce (nt_srv w) = rs_nonce (ns_srv N)" "only_of rnd (U rnd) (ns_srv N) (nt_srv w)"
    by blast
  let ?N = "\<lparr>ns_srv = nt_srv w, ns_clts = ns_clts N @ [(nt_clt w, nt_conn w)]\<rparr>"
  have "lossy_client (U (rc_clt_nonce d)) 4294967293 d (nt_srv w) l" if "(d, l) \<in> set (ns_clts N)" for d l
  proof -
    have ne: "rc_clt_nonce d \<noteq> rnd" using Cons.prems(4) that c by force
    then have "U (rc_clt_nonce d) \<inter> U rnd = {}" using Cons.prems(3) by (simp add: clients_ok_def)
    then show ?thesis using Cons.prems(1) that lossy_client_other [OF _ w(7) ne] by (auto simp: all_lossy_def)
  qed
  then have 1: "all_lossy U ?N" using w(2,3) by (auto simp: all_lossy_def)
  have "rnd \<notin> fst ` set cs" using Cons.prems(3) c by (auto simp: clients_ok_def)
  moreover have "test_server ri (ns_srv N) (fst ` set cs)" using Cons.prems(2) by (auto simp: test_server_def)
  ultimately have 2: "test_server ri (ns_srv ?N) (fst ` set cs)" using test_server_only [OF _ w(7)] w(5) by simp
  have 3: "clients_ok U cs" using Cons.prems(3) by (auto simp: clients_ok_def)
  have 4: "fst ` set cs \<inter> rc_clt_nonce ` fst ` set (ns_clts ?N) = {}" using Cons.prems(3,4) w(3) c by (auto simp: clients_ok_def)
  from Cons.IH [OF 1 2 3 4] obtain N' where "lossy_clients lossy r1 cs ?N = Some N'" "all_lossy U N'" "test_procs ri (ns_srv N')"
    "rs_nonce (ns_srv N') = rs_nonce (ns_srv ?N)" "map (\<lambda>(c, k). (rc_clt_nonce c, k)) (ns_clts N') =
      map (\<lambda>(c, k). (rc_clt_nonce c, k)) (ns_clts ?N) @ map (\<lambda>(rnd, k, fd, txs). (rnd, last_conn k txs)) cs" by blast
  then show ?case using w(1,3,4,6) c by simp
qed

text \<open>What the test takes for granted: the server knows none of the new clients, nonces are not zero, and each call has a
  transmission that gets its reply back before the deadline.\<close>

definition lossy_env_ok ::
  "(u32 \<Rightarrow> cid set) \<Rightarrow> (u32 \<times> cid \<times> nat \<times> tx list) list \<Rightarrow> int \<Rightarrow> (int \<times> u32 \<times> tx list) list \<Rightarrow> bool" where
  "lossy_env_ok U cs t1 clock \<longleftrightarrow> clients_ok U cs \<and> length clock < 4294967293 \<and>
     (case cs of [] \<Rightarrow> False | (rnd, k, fd, txs) # _ \<Rightarrow> rounds_ok (U rnd) t1 (last_conn k txs) clock)"

lemma lossy_test_ok:
  assumes e: "lossy_env_ok U cs t1 clock" and other: "\<not> server \<Longrightarrow> test_server ri other (fst ` set cs)"
  shows "\<exists>N c k. lossy_test server other rnd ri r1 cs t1 clock = Some N \<and> ns_clts N \<noteq> [] \<and> hd (ns_clts N) = (c, k) \<and>
    lossy_linked 1 c (ns_srv N) k \<and> rc_bind_done c \<and> rc_srv_nonce c = (if server then rnd else rs_nonce other)"
proof -
  obtain s where s: "(if server then startserver rnd ri else Some other) = Some s" "test_server ri s (fst ` set cs)"
    "rs_nonce s = (if server then rnd else rs_nonce other)"
  proof (cases server)
    case True
    from test_server_started [of rnd ri] obtain s where "startserver rnd ri = Some s" "test_server ri s (fst ` set cs)" "rs_nonce s = rnd"
      by blast
    then show ?thesis using that True by simp
  next
    case False
    then show ?thesis using that [of other] other by simp
  qed
  let ?N = "\<lparr>ns_srv = s, ns_clts = []\<rparr>"
  obtain rnd0 k0 fd0 txs0 cs' where cs: "cs = (rnd0, k0, fd0, txs0) # cs'" "rounds_ok (U rnd0) t1 (last_conn k0 txs0) clock"
    using e by (auto simp: lossy_env_ok_def split: list.splits)
  have "all_lossy U ?N" by (simp add: all_lossy_def)
  from lossy_clients_ok [OF this, of ri cs 5 r1] s(2) e obtain N where
    N: "lossy_clients 5 r1 cs ?N = Some N" "all_lossy U N" "test_procs ri (ns_srv N)" "rs_nonce (ns_srv N) = rs_nonce s"
      "map (\<lambda>(c, k). (rc_clt_nonce c, k)) (ns_clts N) = map (\<lambda>(rnd, k, fd, txs). (rnd, last_conn k txs)) cs"
    by (auto simp: lossy_env_ok_def)
  obtain c k L where L: "ns_clts N = (c, k) # L" using N(5) cs(1) by (cases "ns_clts N") auto
  have ck: "rc_clt_nonce c = rnd0" "k = last_conn k0 txs0" using N(5) cs(1) L by auto
  have len: "length clock + 1 \<le> 4294967293" using e by (simp add: lossy_env_ok_def)
  have "lossy_client (U rnd0) 4294967293 c (ns_srv N) k" using N(2) L ck(1) by (simp add: all_lossy_def)
  then have "lossy_client (U rnd0) (length clock + 1) c (ns_srv N) k"
    using lossy_client_mono [of "U rnd0" "4294967293 - (length clock + 1)" "length clock + 1"] len by simp
  from client2_ok [of "U rnd0" clock 1 "client_net 0 N" ri t1 5] this N(3) cs(2) ck L obtain w where
    w: "client2 5 t1 clock (client_net 0 N) = Some w" "lossy_client (U rnd0) 1 (nt_clt w) (nt_srv w) (nt_conn w)"
      "rs_nonce (nt_srv w) = rs_nonce (ns_srv N)" by (auto simp: client_net_def)
  have "on_client 0 (client2 5 t1 clock) N = Some \<lparr>ns_srv = nt_srv w, ns_clts = (nt_clt w, nt_conn w) # L\<rparr>"
    using w(1) L by (simp add: on_client_def)
  then show ?thesis using s(1,3) N(1,4) w(2,3) by (auto simp: lossy_test_def lossy_client_def)
qed

end
