(* ===== verification/Names.thy ===== *)
theory Names
  imports Yfs Addr
begin

text \<open>
  The conversions between inode numbers and their decimal names, \<open>filename\<close> and \<open>n2i\<close> of \<open>yfs_client.cc\<close>, with
  what they use of the standard streams: \<open>ost << inum\<close> and \<open>ist >> finum\<close> for an \<open>unsigned long long\<close> in the
  classic locale.
\<close>

section \<open>The conversions\<close>

definition filename :: "inum \<Rightarrow> bytes" where
  "filename i = decimal (unat i)"

text \<open>An optional sign.\<close>

fun take_sign :: "bytes \<Rightarrow> bool \<times> bytes" where
  "take_sign (c # s) = (if c = 45 then (True, s) else if c = 43 then (False, s) else (False, c # s))"
| "take_sign [] = (False, [])"

text \<open>The variable after \<open>ist >> v\<close>. White space is skipped; at the end of the input nothing is extracted and \<open>v\<close>
  keeps its value; without a digit \<open>v\<close> becomes zero, and the largest value when the number does not fit; a minus
  sign negates modulo \<open>2 ^ 64\<close>.\<close>

definition extract_ull :: "bytes \<Rightarrow> u64 \<Rightarrow> u64" where
  "extract_ull n v =
     (let s = dropWhile is_space n in
      if s = [] then v
      else (let (neg, s) = take_sign s; ds = takeWhile is_digit s in
        if ds = [] then 0
        else if 2 ^ 64 \<le> digits_value ds then - 1
        else if neg then - of_int (digits_value ds) else of_int (digits_value ds)))"

text \<open>\<open>finum\<close> is the indeterminate value of the local variable.\<close>

definition n2i :: "u64 \<Rightarrow> bytes \<Rightarrow> inum" where
  "n2i finum n = extract_ull n finum"

section \<open>Properties\<close>

lemma is_digit_other: "is_digit c \<Longrightarrow> \<not> is_space c \<and> c \<noteq> 45 \<and> c \<noteq> 43"
  by (auto simp: is_digit_def is_space_def word_le_nat_alt)

lemma extract_digits:
  assumes "list_all is_digit ds" and "ds \<noteq> []" and "rest = [] \<or> \<not> is_digit (hd rest)"
  shows "extract_ull (ds @ rest) v = (if 2 ^ 64 \<le> digits_value ds then - 1 else of_int (digits_value ds))"
proof -
  obtain c s where c: "ds = c # s" "is_digit c" using assms(1,2) by (cases ds) auto
  have "takeWhile is_digit rest = []" using assms(3) by (cases rest) auto
  then have "takeWhile is_digit (ds @ rest) = ds" using assms(1) by (simp add: takeWhile_append2 list_all_iff)
  moreover have "dropWhile is_space (ds @ rest) = ds @ rest" "take_sign (ds @ rest) = (False, ds @ rest)"
    using c is_digit_other [of c] by simp_all
  ultimately show ?thesis using assms(2) by (simp add: extract_ull_def Let_def)
qed

text \<open>
  \<open>n2i\<close> reads back every inode number from the name that \<open>filename\<close> prints for it, also with white space before
  it and anything but a digit behind it; so different inodes have different names. A name of white space only is
  not converted: the result is the indeterminate value of the local variable.
\<close>

lemma names_roundtrip:
  assumes "list_all is_space pre" and "rest = [] \<or> \<not> is_digit (hd rest)"
  shows "n2i v (pre @ filename i @ rest) = i \<and> n2i v pre = v"
proof -
  have drop: "dropWhile is_space (pre @ xs) = dropWhile is_space xs" for xs
    using assms(1) by (induction pre) auto
  have "list_all is_digit (filename i)" using decimal_digits by (auto simp: filename_def list_all_iff)
  moreover have "filename i \<noteq> []" by (simp add: filename_def decimal_nonempty)
  ultimately have "extract_ull (filename i @ rest) v = of_int (digits_value (filename i))"
    using extract_digits [of "filename i" rest v] assms(2) uint_lt2p [of i]
    by (simp add: filename_def decimal_value not_le)
  then have "extract_ull (filename i @ rest) v = i" by (simp add: filename_def decimal_value)
  then show ?thesis using drop [of "filename i @ rest"] drop [of "[]"] by (simp add: n2i_def extract_ull_def)
qed

end
