(* ===== verification/RpctestMain.thy ===== *)
theory RpctestMain
  imports LossyTest Names
begin

text \<open>
  \<open>process_mem_usage\<close>, \<open>garbage_collection_test\<close> and \<open>main\<close> of \<open>rpc/rpctest.cc\<close>, which reads its options and runs all tests one after the
  other, and the debug level of \<open>rpc/jsl_log.cc\<close> that it sets. What the program draws at random and what it gets from the
  system are collected in a record; \<open>None\<close> is a failed assertion.
\<close>

section \<open>The debug level\<close>

definition jsl_set_debug :: "int \<Rightarrow> int \<Rightarrow> int" where
  "jsl_set_debug level JSL_DEBUG_LEVEL = level"

definition jsl_log :: "int \<Rightarrow> int \<Rightarrow> string \<Rightarrow> string list \<Rightarrow> string list" where
  "jsl_log JSL_DEBUG_LEVEL level msg out = (if JSL_DEBUG_LEVEL < \<bar>level\<bar> then out else out @ [msg])"

section \<open>The options\<close>

text \<open>The options as \<open>getopt\<close> returns them, each with \<open>optarg\<close>; \<open>-l\<close> sets \<open>RPC_LOSSY\<close>.\<close>

record rpctest_opts =
  ro_isclient :: bool
  ro_isserver :: bool
  ro_debug_level :: int
  ro_port :: int
  ro_lossy :: bool

fun rpctest_opt :: "char \<times> bytes \<Rightarrow> rpctest_opts \<Rightarrow> rpctest_opts" where
  "rpctest_opt (ch, optarg) ro =
     (if ch = CHR ''c'' then ro\<lparr>ro_isclient := True\<rparr>
      else if ch = CHR ''s'' then ro\<lparr>ro_isserver := True\<rparr>
      else if ch = CHR ''d'' then ro\<lparr>ro_debug_level := atoi optarg\<rparr>
      else if ch = CHR ''p'' then ro\<lparr>ro_port := atoi optarg\<rparr>
      else if ch = CHR ''l'' then ro\<lparr>ro_lossy := True\<rparr>
      else ro)"

definition rpctest_options :: "int \<Rightarrow> (char \<times> bytes) list \<Rightarrow> rpctest_opts" where
  "rpctest_options pid opts =
     (let ro = fold rpctest_opt opts
        \<lparr>ro_isclient = False, ro_isserver = False, ro_debug_level = 0, ro_port = 20000 + pid mod 10000, ro_lossy = False\<rparr>
      in if \<not> ro_isserver ro \<and> \<not> ro_isclient ro then ro\<lparr>ro_isserver := True, ro_isclient := True\<rparr> else ro)"

definition rpctest_debug :: "rpctest_opts \<Rightarrow> int \<Rightarrow> string list \<Rightarrow> int \<times> string list" where
  "rpctest_debug ro dbg out =
     (if ro_debug_level ro > 0
      then let dbg = jsl_set_debug (ro_debug_level ro) dbg in (dbg, jsl_log dbg 1 ''DEBUG LEVEL'' out)
      else (dbg, out))"

text \<open>The program is a client or a server, and both without \<open>-c\<close> and \<open>-s\<close>; a positive debug level is always announced.\<close>

lemma rpctest_opt_mono:
  "ro_isclient ro \<Longrightarrow> ro_isclient (rpctest_opt x ro)" "ro_isserver ro \<Longrightarrow> ro_isserver (rpctest_opt x ro)"
  by (cases x; simp)+

lemma rpctest_options_role:
  "ro_isclient (rpctest_options pid opts) \<or> ro_isserver (rpctest_options pid opts)"
  "fst ` set opts \<inter> {CHR ''c'', CHR ''s''} = {} \<Longrightarrow>
     ro_isclient (rpctest_options pid opts) \<and> ro_isserver (rpctest_options pid opts)"
proof -
  have "\<not> ro_isclient (fold rpctest_opt opts ro) \<and> \<not> ro_isserver (fold rpctest_opt opts ro)"
    if "fst ` set opts \<inter> {CHR ''c'', CHR ''s''} = {}" "\<not> ro_isclient ro \<and> \<not> ro_isserver ro" for ro
    using that
  proof (induction opts arbitrary: ro)
    case (Cons x opts)
    then show ?case by (cases x) auto
  qed simp
  then show "fst ` set opts \<inter> {CHR ''c'', CHR ''s''} = {} \<Longrightarrow>
     ro_isclient (rpctest_options pid opts) \<and> ro_isserver (rpctest_options pid opts)"
    by (simp add: rpctest_options_def Let_def)
qed (simp add: rpctest_options_def Let_def)

lemma rpctest_debug_announced:
  "0 < ro_debug_level ro \<Longrightarrow> rpctest_debug ro dbg out = (ro_debug_level ro, out @ [''DEBUG LEVEL''])"
  by (simp add: rpctest_debug_def jsl_set_debug_def jsl_log_def)

section \<open>The memory in use\<close>

text \<open>\<open>stat_stream >> s\<close> for \<open>k\<close> strings, and the variable \<open>v\<close> after \<open>stat_stream >> v\<close> for a \<open>long\<close>: it keeps its value at
  the end of the input, and is cut off at the ends of the type.\<close>

fun skip_fields :: "nat \<Rightarrow> bytes \<Rightarrow> bytes" where
  "skip_fields 0 s = s"
| "skip_fields (Suc k) s = skip_fields k (dropWhile (\<lambda>c. \<not> is_space c) (dropWhile is_space s))"

definition extract_long :: "bytes \<Rightarrow> int \<Rightarrow> int" where
  "extract_long s v =
     (let s = dropWhile is_space s in
      if s = [] then v
      else (let (neg, s) = take_sign s; ds = takeWhile is_digit s; x = digits_value ds in
        if ds = [] then 0 else max (- (2 ^ 63)) (min (2 ^ 63 - 1) (if neg then - x else x))))"

text \<open>\<open>stat\<close> is the contents of \<open>/proc/self/stat\<close>, \<open>page\<close> the size of a page and \<open>rss\<close> the indeterminate value of the local
  variable; the result, in kilobytes, is exact as a \<open>double\<close> below $2^{53}$.\<close>

definition process_mem_usage :: "bytes \<Rightarrow> int \<Rightarrow> int \<Rightarrow> int" where
  "process_mem_usage stat page rss =
     (let rss = extract_long (skip_fields 23 stat) rss; page_size_kb = page div 1024 in rss * page_size_kb)"

text \<open>The number of pages is found behind 23 fields without white space.\<close>

lemma skip_fields_append:
  assumes "\<forall>f \<in> set fs. f \<noteq> [] \<and> list_all (\<lambda>c. \<not> is_space c) f" and "list_all is_space b"
  shows "\<exists>b'. skip_fields (length fs) (b @ concat (map (\<lambda>f. f @ [32]) fs) @ rest) = b' @ rest \<and> list_all is_space b'"
  using assms
proof (induction fs arbitrary: b)
  case (Cons f fs)
  let ?X = "concat (map (\<lambda>f. f @ [32]) fs) @ rest"
  obtain c f' where f: "f = c # f'" "\<not> is_space c" "list_all (\<lambda>c. \<not> is_space c) f'" using Cons.prems(1) by (cases f) auto
  have sp: "is_space 32" by (simp add: is_space_def)
  have "dropWhile is_space (b @ f @ 32 # ?X) = f @ 32 # ?X"
    using Cons.prems(2) f(2) by (subst dropWhile_append2) (simp_all add: list_all_iff f(1))
  moreover have "dropWhile (\<lambda>c. \<not> is_space c) (f @ 32 # ?X) = [32] @ ?X"
    using f sp by (subst dropWhile_append2) (auto simp: list_all_iff)
  ultimately show ?case using Cons.IH [of "[32]"] Cons.prems(1) sp by simp
qed auto

lemma process_mem_usage_reads:
  assumes "length fs = 23" and "\<forall>f \<in> set fs. f \<noteq> [] \<and> list_all (\<lambda>c. \<not> is_space c) f"
    and "int n < 2 ^ 63" and "rest = [] \<or> \<not> is_digit (hd rest)"
  shows "process_mem_usage (concat (map (\<lambda>f. f @ [32]) fs) @ decimal n @ rest) page rss = int n * (page div 1024)"
proof -
  obtain b where b: "skip_fields 23 (concat (map (\<lambda>f. f @ [32]) fs) @ decimal n @ rest) = b @ decimal n @ rest" "list_all is_space b"
    using skip_fields_append [OF assms(2), of "[]" "decimal n @ rest"] assms(1) by auto
  obtain c r where c: "decimal n = c # r" using decimal_nonempty by (cases "decimal n") auto
  have d: "list_all is_digit (decimal n)" using decimal_digits by (simp add: list_all_iff)
  have "\<not> is_space c" "c \<noteq> 45" "c \<noteq> 43" using d c is_digit_other [of c] by simp_all
  then have "dropWhile is_space (b @ decimal n @ rest) = decimal n @ rest" "take_sign (decimal n @ rest) = (False, decimal n @ rest)"
    using b(2) c by (simp_all add: dropWhile_append2 list_all_iff)
  moreover have "takeWhile is_digit (decimal n @ rest) = decimal n"
    using d assms(4) by (cases rest) (simp_all add: takeWhile_append2 list_all_iff)
  ultimately show ?thesis
    using b(1) c assms(3) decimal_value [of n] by (simp add: process_mem_usage_def extract_long_def Let_def)
qed

section \<open>The tests of main\<close>

text \<open>\<open>simple_tests\<close> to its end: \<open>bind\<close> to a port without a server, with the times before and after it.\<close>

definition simple_tests_all :: "u32 \<Rightarrow> u32 \<Rightarrow> u32 \<Rightarrow> int \<Rightarrow> int \<Rightarrow> unit net \<Rightarrow> unit net option" where
  "simple_tests_all wrongrep rnd r1 t0 t1 w = do {
     w \<leftarrow> simple_tests wrongrep w;
     (intret, c1) \<leftarrow> dead_bind r1 (rpcc_new True rnd 0);
     assert_that (sint intret < 0 \<and> t1 - t0 \<le> 4);
     Some w
   }"

text \<open>\<open>main\<close> calls it with \<open>nt\<close> = 1: one thread, which uses the client 0.\<close>

definition garbage_collection_test :: "int \<Rightarrow> (u32 list \<times> int) list \<Rightarrow> unit nets \<Rightarrow> unit nets option" where
  "garbage_collection_test rss js = on_client 0 (client4 rss js)"

text \<open>What \<open>main\<close> draws at random or gets from the system: the nonces of the servers and clients with their connections,
  the uninitialised variables, the times, the random numbers and the schedule of \<open>concurrent_test\<close>, the losses and the
  clock of \<open>lossy_test\<close>, and the memory in use in \<open>garbage_collection_test\<close>. The program has ten threads in
  \<open>concurrent_test\<close>, and loops of a hundred calls there and in \<open>client4\<close>; here the lists may have any length.\<close>

record main_env =
  me_srv :: u32
  me_ri :: u32
  me_r :: u32
  me_clients :: "(u32 \<times> cid \<times> connection) list"
  me_wrongrep :: u32
  me_dead :: u32
  me_t0 :: int
  me_t1 :: int
  me_rnds :: "(u32 list \<times> (bool \<times> u32) list) list"
  me_sched :: "nat list"
  me_lossy_srv :: u32
  me_lossy :: "(u32 \<times> cid \<times> nat \<times> tx list) list"
  me_begin :: int
  me_clock :: "(int \<times> u32 \<times> tx list) list"
  me_fail :: failure_env
  me_rss :: int
  me_mem :: "(u32 list \<times> int) list"

datatype rpctest_end = Rpctest_OK | Serves_on

text \<open>Without \<open>-l\<close>, so that connections are lost in \<open>lossy_test\<close> only. A program that is not the server uses the one that
  another process has started, \<open>other\<close>.\<close>

definition rpctest_main :: "bool \<Rightarrow> bool \<Rightarrow> unit rpcs \<Rightarrow> main_env \<Rightarrow> rpctest_end option" where
  "rpctest_main isserver isclient other e = do {
     testmarshall;
     s \<leftarrow> (if isserver then startserver (me_srv e) (me_ri e) else Some other);
     if isclient then do {
       N \<leftarrow> start_clients (me_r e) (me_clients e) \<lparr>ns_srv = s, ns_clts = []\<rparr>;
       N \<leftarrow> on_client 0 (simple_tests_all (me_wrongrep e) (me_dead e) (me_r e) (me_t0 e) (me_t1 e)) N;
       (N, ts) \<leftarrow> concurrent_test (me_r e) (me_rnds e) (me_sched e) N;
       assert_that (list_all (\<lambda>t. t = []) ts);
       N \<leftarrow> lossy_test isserver (ns_srv N) (me_lossy_srv e) (me_ri e) (me_r e) (me_lossy e) (me_begin e) (me_clock e);
       (if isserver then do {
          N \<leftarrow> on_client 0 (failure_test (me_fail e)) N;
          N \<leftarrow> garbage_collection_test (me_rss e) (me_mem e) N;
          Some Rpctest_OK
        } else Some Rpctest_OK)
     } else Some Serves_on
   }"

section \<open>The tests pass\<close>

lemma simple_tests_all_calls: "t1 - t0 \<le> 4 \<Longrightarrow> makes_calls (test_procs ri) 8 (simple_tests_all wrongrep rnd r1 t0 t1)"
  unfolding makes_calls_def
proof (intro allI impI)
  fix n w
  assume t: "t1 - t0 \<le> 4" and "test_procs ri (nt_srv w)" "net_ready (8 + n) w"
  then have "test_ready (8 + n) ri w" by (simp add: test_ready_procs)
  from simple_tests_pass [OF this] obtain w' where "simple_tests wrongrep w = Some w'" "test_ready n ri w'" "alone w w'" by blast
  moreover obtain c where "dead_bind r1 (rpcc_new True rnd 0) = Some (timeout_failure, c)" using dead_bind_times_out by blast
  ultimately show "\<exists>w'. simple_tests_all wrongrep rnd r1 t0 t1 w = Some w' \<and> test_procs ri (nt_srv w') \<and> net_ready n w' \<and> alone w w'"
    using t by (simp add: simple_tests_all_def test_ready_procs)
qed

lemma garbage_collection_outcome:
  assumes N: "ns_clts N \<noteq> []" "test_ready ((\<Sum>j\<leftarrow>js. length (fst j)) + n) ri (client_net 0 N)"
    and js: "\<forall>(args, rss) \<in> set js. \<forall>a \<in> set args. a < 252000" "js \<noteq> []"
  shows "garbage_collection_test rss js N \<noteq> None \<longleftrightarrow> snd (last js) - rss < 3000"
  using client4_passes [OF N(2) js(1), of rss] N(1) js(2) by (auto simp: garbage_collection_test_def on_client_def split: if_splits)

text \<open>What the run takes for granted: live connections and distinct nonces, a clock that does not stand still in \<open>bind\<close>,
  threads that get their turns, arguments in the range the program draws them from, and fewer calls than there are
  transaction numbers. The environments of \<open>lossy_test\<close> and \<open>failure_test\<close> have their own conditions.\<close>

definition main_env_ok :: "(u32 \<Rightarrow> cid set) \<Rightarrow> main_env \<Rightarrow> bool" where
  "main_env_ok U e \<longleftrightarrow>
     length (me_clients e) = NUM_CL \<and> distinct (map fst (me_clients e)) \<and> distinct (map (fst \<circ> snd) (me_clients e)) \<and>
     list_all (\<lambda>(rnd, k, kn). rnd \<noteq> 0 \<and> \<not> c_dead kn \<and> 1 \<le> c_refno kn) (me_clients e) \<and> me_t1 e - me_t0 e \<le> 4 \<and>
     8 + (\<Sum>rs\<leftarrow>me_rnds e. length (fst rs) + length (snd rs)) \<le> 4294967293 \<and> (\<forall>rs \<in> set (me_rnds e). \<forall>a \<in> set (fst rs). a < 252000) \<and>
     (\<forall>i < length (me_rnds e). length (fst (me_rnds e ! i)) + length (snd (me_rnds e ! i)) \<le> count_list (me_sched e) i) \<and>
     lossy_env_ok U (me_lossy e) (me_begin e) (me_clock e) \<and> failure_env_ok (me_fail e) (me_lossy_srv e) \<and>
     me_mem e \<noteq> [] \<and> (\<forall>(args, rss) \<in> set (me_mem e). \<forall>a \<in> set args. a < 252000) \<and> (\<Sum>j\<leftarrow>me_mem e. length (fst j)) \<le> 4294967253"

lemma tests_before_losses:
  assumes e: "main_env_ok U e"
  shows "\<exists>s N N' N'' ts. startserver (me_srv e) (me_ri e) = Some s \<and> start_clients (me_r e) (me_clients e) \<lparr>ns_srv = s, ns_clts = []\<rparr> = Some N \<and>
    on_client 0 (simple_tests_all (me_wrongrep e) (me_dead e) (me_r e) (me_t0 e) (me_t1 e)) N = Some N' \<and>
    concurrent_test (me_r e) (me_rnds e) (me_sched e) N' = Some (N'', ts) \<and> list_all (\<lambda>t. t = []) ts"
proof -
  let ?calls = "\<Sum>rs\<leftarrow>me_rnds e. length (fst rs) + length (snd rs)" and ?P = "test_procs (me_ri e)"
  obtain s N where s: "startserver (me_srv e) (me_ri e) = Some s" "start_clients (me_r e) (me_clients e) \<lparr>ns_srv = s, ns_clts = []\<rparr> = Some N"
    and N: "nets_ready ?P 4294967293 N" "length (ns_clts N) = NUM_CL"
    using rpctest_begins [of "me_clients e" "me_srv e" "me_ri e" "me_r e"] e
    by (auto simp: main_env_ok_def rpctest_begin_def testmarshall_passes elim!: bind_SomeE)
  define n where "n = 4294967293 - (8 + ?calls)"
  have "8 + ?calls \<le> 4294967293" using e by (simp only: main_env_ok_def)
  then have "4294967293 = 8 + (?calls + n)" by (simp only: n_def)
  then have "nets_ready ?P (8 + (?calls + n)) N" using N(1) by simp
  moreover have "makes_calls ?P 8 (simple_tests_all (me_wrongrep e) (me_dead e) (me_r e) (me_t0 e) (me_t1 e))"
    using e by (intro simple_tests_all_calls) (simp add: main_env_ok_def)
  ultimately obtain N' where N': "on_client 0 (simple_tests_all (me_wrongrep e) (me_dead e) (me_r e) (me_t0 e) (me_t1 e)) N = Some N'"
    "nets_ready ?P (?calls + n) N'" "length (ns_clts N') = NUM_CL"
    using on_client_ready [of ?P 8 "?calls + n" N 0] N(2) by auto
  from concurrent_test_joined [OF N'(2,3) refl] e obtain N'' ts where
    "concurrent_test (me_r e) (me_rnds e) (me_sched e) N' = Some (N'', ts)" "list_all (\<lambda>t. t = []) ts"
    unfolding main_env_ok_def by blast
  then show ?thesis using s N'(1) by blast
qed


text \<open>A run with two threads, two clients that lose some of their transmissions, and a memory that grows by 100 kB.\<close>

definition sample_main_env :: main_env where
  "sample_main_env = \<lparr>me_srv = 9, me_ri = 0, me_r = 0, me_clients = [(5, 0, fst (connection_new 3 0)), (6, 1, fst (connection_new 4 0))],
     me_wrongrep = 0, me_dead = 4, me_t0 = 100, me_t1 = 103,
     me_rnds = [([100], [(True, 7)]), ([200], [(False, 8)])], me_sched = [0, 1, 1, 0],
     me_lossy_srv = 8, me_lossy = [(7, 700, 5, [(Request_lost, 701, 6), (Arrives, 705, 0)]), (8, 800, 7, [(Reply_lost, 801, 8), (Arrives, 802, 0)])],
     me_begin = 200, me_clock = [(200, 1500, [(Reply_lost, 702, 9), (Request_lost, 703, 10), (Arrives, 704, 0)]), (210, 0, [])],
     me_fail = sample_failure_env, me_rss = 5000, me_mem = [([250000], 5100)]\<rparr>"

lemma sample_env_parts:
  "lossy_env_ok (\<lambda>m. {k. k div 100 = unat m}) (me_lossy sample_main_env) (me_begin sample_main_env) (me_clock sample_main_env)"
  "failure_env_ok sample_failure_env 8"
  "\<forall>i < length (me_rnds sample_main_env). length (fst (me_rnds sample_main_env ! i)) + length (snd (me_rnds sample_main_env ! i)) \<le>
     count_list (me_sched sample_main_env) i"
proof -
  have "unat m = unat m' \<Longrightarrow> m = m'" for m m' :: u32 by (rule word_unat_eq_iff [THEN iffD2])
  then show "lossy_env_ok (\<lambda>m. {k. k div 100 = unat m}) (me_lossy sample_main_env) (me_begin sample_main_env) (me_clock sample_main_env)"
    by (auto simp: sample_main_env_def lossy_env_ok_def clients_ok_def txs_ok_def)
  show "failure_env_ok sample_failure_env 8"
    using sample_schedules by (simp add: failure_env_ok_def sample_failure_env_def connection_new_def)
qed (simp add: sample_main_env_def less_2_cases_iff)


end
