(* ===== verification/LossyFs.thy ===== *)
theory LossyFs
  imports Fuse LossyTest
begin

text \<open>
  The file system over connections that are lost. The theory \<open>Extent\<close> makes a store of extents from anything that
  keeps the contract \<open>transport\<close> of \<open>Net\<close>; here it is the calls of \<open>Lossy\<close>, whose requests are sent again and again on
  new connections until a reply comes back. So the operations of \<open>yfs_client\<close> and of the FUSE server, which are proved
  against the contract of the store, do what they do over a reliable connection: at-most-once execution in the RPC layer
  is what makes a repeated \<open>put\<close> or \<open>createfile\<close> harmless.
\<close>

section \<open>The transport\<close>

text \<open>The world: client, server and connection, and the transmissions of the calls to come.\<close>

type_synonym 's lossy_world = "'s net \<times> tx list list"

definition lossy_caller :: "int \<Rightarrow> u32 \<Rightarrow> marshall \<Rightarrow> 's lossy_world \<Rightarrow> ((u32 \<times> unmarshall) \<times> 's lossy_world) option" where
  "lossy_caller lossy proc req v =
     (case v of
        (w, []) \<Rightarrow> None
      | (w, txs # F) \<Rightarrow> do { (res, w) \<leftarrow> lossy_call lossy txs proc req w; Some (res, (w, F)) })"

text \<open>Each of the next \<open>n\<close> calls has a transmission whose reply comes back.\<close>

fun fates_ok :: "nat \<Rightarrow> cid \<Rightarrow> tx list list \<Rightarrow> bool" where
  "fates_ok 0 k F = True"
| "fates_ok (Suc n) k [] = False"
| "fates_ok (Suc n) k (txs # F) = (new_conns k txs \<and> answered_by txs \<and> fates_ok n (last_conn k txs) F)"

definition lossy_world_ready :: "nat \<Rightarrow> 's lossy_world \<Rightarrow> bool" where
  "lossy_world_ready n v \<longleftrightarrow>
     lossy_ready n (fst v) \<and> rc_bind_done (nt_clt (fst v)) \<and> fates_ok n (nt_conn (fst v)) (snd v)"

abbreviation world_srv :: "'s lossy_world \<Rightarrow> 's rpcs" where
  "world_srv v \<equiv> nt_srv (fst v)"

interpretation tlossy: transport "lossy_caller lossy" world_srv lossy_world_ready for lossy
proof
  fix n :: nat and v :: "'s lossy_world" and proc ret :: u32 and f :: "'s handler" and req abody app' body
  assume rdy: "lossy_world_ready (Suc n) v" and proc: "proc \<noteq> rpc_bind" "rs_procs (world_srv v) proc = Some f"
    and req: "marsh_wf req" "m_contents req = replicate 24 None @ map Some abody" "length abody + 24 < MARSH_LIMIT"
    and run: "\<And>u. unm_wf u \<Longrightarrow> u_ok u \<Longrightarrow> u_rest u = abody \<Longrightarrow> u_ind u \<le> u_sz u \<Longrightarrow>
      \<exists>rep. f u marshall_new (rs_app (world_srv v)) = Some (ret, rep, app') \<and> marsh_wf rep \<and>
        m_contents rep = replicate 24 None @ map Some body"
    and ret: "0 \<le> sint ret" and body: "length body + 24 < MARSH_LIMIT"
  obtain w txs F where v: "v = (w, txs # F)"
    using rdy by (cases v; cases "snd v") (auto simp: lossy_world_ready_def)
  have l: "lossy_ready (Suc n) w" "may_call (nt_clt w) proc" "rc_bind_done (nt_clt w)"
    and txs: "new_conns (nt_conn w) txs" "answered_by txs" "fates_ok n (last_conn (nt_conn w) txs) F"
    using rdy proc(1) by (simp_all add: v lossy_world_ready_def may_call_def)
  have reached: "reached_by txs" using txs(2) by force
  from lossy_call_serves [OF l(1,2) _ req _ _ body txs(1), of f ret app' lossy] proc(2) run ret v obtain u w' where
    w': "lossy_call lossy txs proc req w = Some ((ret, u), w')" "lossy_ready n w'"
      "same_client ((nt_clt w)\<lparr>rc_xid := rc_xid (nt_clt w) + 1\<rparr>) (nt_clt w')" "rs_procs (nt_srv w') = rs_procs (nt_srv w)"
      "rs_app (nt_srv w') = app'" "unm_wf u" "u_ok u" "u_rest u = body" "u_ind u + length body = u_sz u"
    unfolding if_P [OF txs(2)] if_P [OF reached] by auto
  have "nt_conn w' = last_conn (nt_conn w) txs" using l(2) w'(1) by (rule lossy_call_conn)
  then have "lossy_world_ready n (w', F)"
    using w'(2,3) l(3) txs(3) by (simp add: lossy_world_ready_def same_client_def)
  then show "\<exists>u v'. lossy_caller lossy proc req v = Some ((ret, u), v') \<and> lossy_world_ready n v' \<and> rs_app (world_srv v') = app' \<and>
      rs_procs (world_srv v') = rs_procs (world_srv v) \<and> unm_wf u \<and> u_ok u \<and> u_rest u = body \<and> u_ind u + length body = u_sz u"
    using w' by (auto simp: lossy_caller_def v)
qed

interpretation lext: extent_transport "lossy_caller lossy" world_srv lossy_world_ready for lossy
  by unfold_locales

abbreviation lossy_ext_ready :: "nat \<Rightarrow> extent_server lossy_world \<Rightarrow> bool" where
  "lossy_ext_ready n v \<equiv> lossy_world_ready n v \<and> ext_procs (world_srv v)"

abbreviation world_data :: "extent_server lossy_world \<Rightarrow> extentid_t \<rightharpoonup> bytes" where
  "world_data v \<equiv> es_data (rs_app (world_srv v))"

section \<open>Starting\<close>

text \<open>An extent server, and a client that binds over connections that may be lost.\<close>

definition lossy_extent_boot ::
  "u32 \<Rightarrow> u32 \<Rightarrow> attr \<Rightarrow> u32 \<Rightarrow> int \<Rightarrow> cid \<Rightarrow> nat \<Rightarrow> u32 \<Rightarrow> tx list \<Rightarrow> tx list list \<Rightarrow> extent_server lossy_world option" where
  "lossy_extent_boot srv_rnd ri ra clt_rnd lossy k fd r1 txs F = do {
     s \<leftarrow> extent_smain srv_rnd ri ra;
     (ret, w) \<leftarrow> lossy_bind lossy txs r1
       \<lparr>nt_clt = rpcc_new True clt_rnd (of_int lossy), nt_srv = conn_accepted s k fd lossy, nt_conn = k\<rparr>;
     Some (w, F)
   }"

lemma lossy_extent_started:
  assumes "clt_rnd \<noteq> 0" and "new_conns k txs" and "answered_by txs" and "fates_ok n (last_conn k txs) F" and "n \<le> 4294967293"
  shows "\<exists>v. lossy_extent_boot srv_rnd ri ra clt_rnd lossy k fd r1 txs F = Some v \<and> lossy_ext_ready n v \<and>
    rs_app (world_srv v) = extent_server_new"
proof -
  obtain s where s: "extent_smain srv_rnd ri ra = Some s" "rs_nonce s = srv_rnd" "rs_reply_window s = Map.empty"
     "rs_conns s = Map.empty" "rs_app s = extent_server_new"
     "rs_procs s = [rpc_bind \<mapsto> handler1 unmarshall_int marshall_int 0 (rpcbind srv_rnd), ext_get \<mapsto> h_get,
       ext_getattr \<mapsto> h_getattr ra, ext_put \<mapsto> h_put ri, ext_remove \<mapsto> h_remove ri]"
    using extent_smain_ok by blast
  have "binds 0 s" using s(2,6) by simp
  moreover have "txs_ok UNIV k txs" using assms(2,3) by (simp add: txs_ok_def)
  ultimately obtain w where w: "lossy_bind lossy txs r1
       \<lparr>nt_clt = rpcc_new True clt_rnd (of_int lossy), nt_srv = conn_accepted s k fd lossy, nt_conn = k\<rparr> = Some (0, w)"
    "lossy_client UNIV 4294967293 (nt_clt w) (nt_srv w) (nt_conn w)" "nt_conn w = last_conn k txs"
    "rs_procs (nt_srv w) = rs_procs s" "rs_app (nt_srv w) = rs_app s"
    using lossy_bind_new [of s clt_rnd 0 UNIV k txs lossy r1 fd] s(3,4) assms(1) by auto
  have "lossy_client UNIV n (nt_clt w) (nt_srv w) (nt_conn w)"
    using lossy_client_mono [of UNIV "4294967293 - n" n] w(2) assms(5) by simp
  then have "lossy_world_ready n (w, F)" using assms(4) w(3) by (simp add: lossy_world_ready_def lossy_client_def)
  moreover have "ext_procs (nt_srv w)" using w(4) s(6) by (auto simp: ext_procs_def)
  ultimately show ?thesis using s(1,5) w(1,5) by (auto simp: lossy_extent_boot_def)
qed

section \<open>The file system\<close>



end
