(* ===== verification/Gettime.thy ===== *)
theory Gettime
  imports Timing "HOL-Library.Log_Nat"
begin

text \<open>
  The replacement of \<open>clock_gettime\<close> in \<open>gettime.cc\<close>, for systems without it. The calls into the Mach kernel are
  collected in a record. The processor clocks split a number of nanoseconds into seconds and nanoseconds with arithmetic
  on \<open>double\<close>, which is modelled with its rounding: a \<open>double\<close> is an integer of at most 53 significant bits, scaled by a
  fixed power of two, so that the rounding of a result acts on an integer.
\<close>

section \<open>Arithmetic on double\<close>

text \<open>An integer rounded to 53 significant bits, ties to even.\<close>

definition round53 :: "nat \<Rightarrow> nat" where
  "round53 n =
     (let k = floorlog 2 n - 53; q = n div 2 ^ k; r = n mod 2 ^ k
      in (if 2 ^ k < 2 * r \<or> 2 ^ k = 2 * r \<and> odd q then q + 1 else q) * 2 ^ k)"

text \<open>The literal \<open>1e-9\<close> is \<open>NANO / 2^82\<close>.\<close>

abbreviation NANO :: nat where "NANO \<equiv> 4835703278458517"

text \<open>\<open>nano * 1e-9\<close>, cut off to an integer.\<close>

definition nano_sec :: "nat \<Rightarrow> nat" where
  "nano_sec nano = round53 (round53 nano * NANO) div 2 ^ 82"

text \<open>\<open>nano - (tp->tv_sec * 1e9)\<close>.\<close>

definition nano_nsec :: "nat \<Rightarrow> nat \<Rightarrow> int" where
  "nano_nsec nano sec = (let d = int (round53 nano) - int (round53 (round53 sec * 1000000000)) in sgn d * int (round53 (nat \<bar>d\<bar>)))"

section \<open>clock\_gettime\<close>

abbreviation (input) CLOCK_REALTIME :: int where "CLOCK_REALTIME \<equiv> 0"
abbreviation (input) CLOCK_MONOTONIC :: int where "CLOCK_MONOTONIC \<equiv> 1"
abbreviation (input) CLOCK_PROCESS_CPUTIME_ID :: int where "CLOCK_PROCESS_CPUTIME_ID \<equiv> 2"
abbreviation (input) CLOCK_THREAD_CPUTIME_ID :: int where "CLOCK_THREAD_CPUTIME_ID \<equiv> 3"
abbreviation (input) KERN_SUCCESS :: int where "KERN_SUCCESS \<equiv> 0"

datatype clock_serv = CALENDAR_CLOCK | SYSTEM_CLOCK

datatype errno = EINVAL

record timebase =
  tb_numer :: "32 word"
  tb_denom :: "32 word"

text \<open>What the kernel answers: the code of \<open>host_get_clock_service\<close>, the code and the time of \<open>clock_get_time\<close>, the two
  values of \<open>mach_absolute_time\<close>, before and after \<open>getpid\<close> or \<open>sched_yield\<close>, and \<open>mach_timebase_info\<close>.\<close>

record mach =
  mk_service :: "clock_serv \<Rightarrow> int"
  mk_time :: "clock_serv \<Rightarrow> int \<times> timespec"
  mk_start :: "64 word"
  mk_end :: "64 word"
  mk_timebase :: timebase

text \<open>\<open>tb\<close> is the static \<open>__clock_gettime_inf\<close>. The result: \<open>retval\<close>, \<open>errno\<close> if it is set, \<open>*tp\<close>, and the new value of
  the static variable; \<open>None\<close> is a division by zero.\<close>

definition clock_gettime :: "mach \<Rightarrow> int \<Rightarrow> timebase \<Rightarrow> timespec \<Rightarrow> (int \<times> errno option \<times> timespec \<times> timebase) option" where
  "clock_gettime m clk_id tb tp =
     (if clk_id = CLOCK_REALTIME \<or> clk_id = CLOCK_MONOTONIC then
        let clk = (if clk_id = CLOCK_REALTIME then CALENDAR_CLOCK else SYSTEM_CLOCK);
            (ret, tp, retval) =
              (if mk_service m clk = KERN_SUCCESS
               then if fst (mk_time m clk) = KERN_SUCCESS then (fst (mk_time m clk), snd (mk_time m clk), 0)
                    else (fst (mk_time m clk), tp, -1)
               else (mk_service m clk, tp, -1))
        in if ret \<noteq> KERN_SUCCESS then Some (-1, Some EINVAL, tp, tb) else Some (retval, None, tp, tb)
      else if clk_id = CLOCK_PROCESS_CPUTIME_ID \<or> clk_id = CLOCK_THREAD_CPUTIME_ID then
        let delta = mk_end m - mk_start m;
            tb = (if tb_denom tb = 0 then mk_timebase m else tb)
        in if tb_denom tb = 0 then None
           else let nano = unat (delta * ucast (tb_numer tb) div ucast (tb_denom tb));
                    sec = nano_sec nano
                in Some (0, None, \<lparr>tv_sec = int sec, tv_nsec = nano_nsec nano sec\<rparr>, tb)
      else Some (-1, Some EINVAL, tp, tb))"

section \<open>The rounding\<close>

lemma round53_small [simp]: "n < 9007199254740992 \<Longrightarrow> round53 n = n"
proof -
  assume "n < 9007199254740992"
  then have "floorlog 2 n \<le> 53" by (intro floorlog_leI) simp_all
  then show ?thesis by (simp add: round53_def)
qed

text \<open>Rounding does not cross a number with few significant bits, and it moves by at most one part in $2^{53}$.\<close>

lemma round53_lower:
  assumes "M * 2 ^ j \<le> n" and "n < 2 ^ (53 + j)"
  shows "M * 2 ^ j \<le> round53 n"
proof -
  define k where "k = floorlog 2 n - 53"
  have "floorlog 2 n \<le> 53 + j" using assms(2) by (intro floorlog_leI) simp_all
  then have "k \<le> j" by (simp add: k_def)
  then have j: "M * 2 ^ j = (M * 2 ^ (j - k)) * 2 ^ k" by (simp flip: power_add)
  then have "M * 2 ^ (j - k) \<le> n div 2 ^ k" using assms(1) by (metis less_eq_div_iff_mult_less_eq zero_less_numeral zero_less_power)
  then have "M * 2 ^ j \<le> (n div 2 ^ k) * 2 ^ k" unfolding j by (rule mult_right_mono) simp
  also have "\<dots> \<le> round53 n" by (simp add: round53_def Let_def flip: k_def)
  finally show ?thesis .
qed

lemma round53_upper: "9007199254740992 * round53 n \<le> 9007199254740993 * n"
proof (cases "floorlog 2 n \<le> 53")
  case True
  then show ?thesis by (simp add: round53_def)
next
  case False
  define k where "k = floorlog 2 n - 53"
  define q r where "q = n div 2 ^ k" and "r = n mod 2 ^ k"
  have "0 < n" using False by (cases n) (simp_all add: floorlog_def)
  then have "2 ^ (k + 52) \<le> n" using floorlog_bounds [of n 2] False by (simp add: k_def)
  then have n: "4503599627370496 * 2 ^ k \<le> n" by (simp add: power_add)
  have split: "n = q * 2 ^ k + r" unfolding q_def r_def by (rule div_mult_mod_eq [symmetric])
  have "round53 n = (if 2 ^ k < 2 * r \<or> 2 ^ k = 2 * r \<and> odd q then q + 1 else q) * 2 ^ k"
    by (simp add: round53_def Let_def q_def r_def flip: k_def)
  then have "2 * round53 n \<le> 2 * n + 2 ^ k" using split by (auto simp: algebra_simps)
  then have "9007199254740992 * round53 n \<le> 9007199254740992 * n + 4503599627370496 * 2 ^ k" by linarith
  then show ?thesis using n by linarith
qed

section \<open>The splitting\<close>

lemma nano_sec_div:
  assumes "nano < 2 ^ 52"
  shows "nano_sec nano = nano div 1000000000"
proof -
  define s where "s = nano div 1000000000"
  let ?N = "nano * NANO"
  have n: "nano < 4503599627370496" using assms by simp
  have s: "s * 1000000000 \<le> nano" "nano < (s + 1) * 1000000000" "s < 4503600" unfolding s_def using n by simp_all
  have "s * 4835703278458516698824704 \<le> ?N" using s(1) by linarith
  moreover have "?N < 2 ^ (53 + 82)" using n by simp
  ultimately have lower: "s * 2 ^ 82 \<le> round53 ?N" by (intro round53_lower) simp_all
  have "43556142965880130871761129887381 * (nano + 1) \<le> 43556142965880130871761129887381 * ((s + 1) * 1000000000)" using s(2) by simp
  moreover have "7548449180136114668933632 * (s + 1) < 43556142965880130871761129887381" using s(3) by simp
  ultimately have "9007199254740993 * ?N < 9007199254740992 * ((s + 1) * 4835703278458516698824704)" by simp
  with round53_upper [of ?N] have "round53 ?N < (s + 1) * 4835703278458516698824704" by linarith
  then have upper: "round53 ?N < (s + 1) * 2 ^ 82" by simp
  have "round53 nano = nano" using n by simp
  then have "nano_sec nano = round53 ?N div 2 ^ 82" by (simp add: nano_sec_def)
  also have "\<dots> = s" using lower upper by (intro div_nat_eqI) (simp_all add: mult.commute)
  finally show ?thesis by (simp add: s_def)
qed

lemma nano_nsec_mod:
  assumes "nano < 2 ^ 52"
  shows "nano_nsec nano (nano div 1000000000) = int (nano mod 1000000000)"
proof -
  have "nano < 4503599627370496" using assms by simp
  moreover have "nano div 1000000000 * 1000000000 \<le> nano" by simp
  ultimately have r: "round53 nano = nano" "round53 (nano div 1000000000) = nano div 1000000000"
    "round53 (nano div 1000000000 * 1000000000) = nano div 1000000000 * 1000000000" by simp_all
  have d: "int nano - int (nano div 1000000000 * 1000000000) = int (nano mod 1000000000)"
    by (metis add_diff_cancel_left' div_mult_mod_eq of_nat_add)
  have "nano mod 1000000000 < 1000000000" by simp
  then have "round53 (nano mod 1000000000) = nano mod 1000000000" by simp
  then show ?thesis unfolding nano_nsec_def r d by (simp add: Let_def sgn_if)
qed

lemma unat_ucast_64: "unat (ucast (x :: 32 word) :: 64 word) = unat x"
proof -
  have "unat x < 2 ^ 64" using unsigned_less [of x, where 'a = nat] by simp
  then show ?thesis by (simp add: unsigned_ucast_eq take_bit_nat_eq_self)
qed

text \<open>
  C39: The processor clocks of \<open>clock_gettime\<close> report the time that passed between the two readings of
  \<open>mach_absolute_time\<close>, scaled by the time base, as seconds and nanoseconds: in spite of the detour over \<open>double\<close> the
  result is exact, and its nanoseconds are below one second, up to $2^{52}$ ns (52 days). Only what \<open>getpid\<close> or
  \<open>sched_yield\<close> takes is measured, not what the process or the thread has used.
\<close>

theorem cpu_clock_exact:
  assumes clk: "clk_id \<in> {CLOCK_PROCESS_CPUTIME_ID, CLOCK_THREAD_CPUTIME_ID}"
    and tb': "tb' = (if tb_denom tb = 0 then mk_timebase m else tb)" "tb_denom tb' \<noteq> 0"
    and later: "mk_start m \<le> mk_end m"
    and small: "(unat (mk_end m) - unat (mk_start m)) * unat (tb_numer tb') < 2 ^ 64"
    and nano: "nano = (unat (mk_end m) - unat (mk_start m)) * unat (tb_numer tb') div unat (tb_denom tb')" "nano < 2 ^ 52"
  shows "\<exists>t. clock_gettime m clk_id tb tp = Some (0, None, t, tb') \<and> nanos t = int nano \<and> 0 \<le> tv_nsec t \<and> tv_nsec t < GIGA"
proof -
  have d: "unat (mk_end m - mk_start m) = unat (mk_end m) - unat (mk_start m)" using later by (rule unat_sub)
  have "unat ((mk_end m - mk_start m) * ucast (tb_numer tb')) = (unat (mk_end m) - unat (mk_start m)) * unat (tb_numer tb')"
    using small d by (simp add: unat_word_ariths unat_ucast_64)
  then have u: "unat ((mk_end m - mk_start m) * ucast (tb_numer tb') div ucast (tb_denom tb')) = nano"
    using nano(1) by (simp add: unat_div unat_ucast_64)
  let ?t = "\<lparr>tv_sec = int (nano_sec nano), tv_nsec = nano_nsec nano (nano_sec nano)\<rparr>"
  have "clock_gettime m clk_id tb tp = Some (0, None, ?t, tb')"
    using clk tb' u by (auto simp: clock_gettime_def Let_def)
  moreover have "nanos ?t = int nano" "0 \<le> tv_nsec ?t" "tv_nsec ?t < GIGA"
    using nano(2) nano_sec_div nano_nsec_mod by (simp_all add: nanos_def zdiv_int zmod_int)
  ultimately show ?thesis by blast
qed

theorem cpu_clock_exact_witness:
  "\<exists>t. clock_gettime \<lparr>mk_service = \<lambda>_. 0, mk_time = \<lambda>_. (0, \<lparr>tv_sec = 0, tv_nsec = 0\<rparr>), mk_start = 500, mk_end = 1500000500,
       mk_timebase = \<lparr>tb_numer = 125, tb_denom = 3\<rparr>\<rparr> CLOCK_PROCESS_CPUTIME_ID \<lparr>tb_numer = 0, tb_denom = 0\<rparr> \<lparr>tv_sec = 0, tv_nsec = 0\<rparr>
     = Some (0, None, t, \<lparr>tb_numer = 125, tb_denom = 3\<rparr>) \<and> nanos t = 62500000000 \<and> 0 \<le> tv_nsec t \<and> tv_nsec t < GIGA"
  using cpu_clock_exact [of 2 "\<lparr>tb_numer = 125, tb_denom = 3\<rparr>" "\<lparr>tb_numer = 0, tb_denom = 0\<rparr>"
    "\<lparr>mk_service = \<lambda>_. 0, mk_time = \<lambda>_. (0, \<lparr>tv_sec = 0, tv_nsec = 0\<rparr>), mk_start = 500, mk_end = 1500000500,
       mk_timebase = \<lparr>tb_numer = 125, tb_denom = 3\<rparr>\<rparr>" 62500000000 "\<lparr>tv_sec = 0, tv_nsec = 0\<rparr>"] by simp

text \<open>Beyond the bound the splitting goes wrong: just below a full second the seconds are rounded up, and the
  nanoseconds are negative.\<close>

lemma nano_split_negative: "nano_sec 8612382999999999 = 8612383" "nano_nsec 8612382999999999 8612383 = - 1"
proof -
  let ?N = "8612382999999999 * NANO"
  have "floorlog 2 ?N \<le> 106" by (intro floorlog_leI) simp_all
  moreover have "\<not> floorlog 2 ?N \<le> 105" by (simp add: floorlog_le_iff)
  ultimately have "floorlog 2 ?N = 106" by linarith
  then have "round53 ?N = 41646928708440395422174000709632" by (simp add: round53_def)
  then show "nano_sec 8612382999999999 = 8612383" by (simp add: nano_sec_def)
qed (simp add: nano_nsec_def)

text \<open>The wall clocks: the time is stored if both calls succeed; otherwise \<open>*tp\<close> is as before, and the call fails with
  \<open>EINVAL\<close>, as it does for an unknown clock.\<close>

lemma wall_clock:
  "clk_id \<in> {CLOCK_REALTIME, CLOCK_MONOTONIC} \<Longrightarrow> clk = (if clk_id = CLOCK_REALTIME then CALENDAR_CLOCK else SYSTEM_CLOCK) \<Longrightarrow>
   clock_gettime m clk_id tb tp =
     (if mk_service m clk = KERN_SUCCESS \<and> fst (mk_time m clk) = KERN_SUCCESS then Some (0, None, snd (mk_time m clk), tb)
      else Some (-1, Some EINVAL, tp, tb))"
  by (auto simp: clock_gettime_def Let_def)

lemma unknown_clock: "clk_id \<notin> {0..3} \<Longrightarrow> clock_gettime m clk_id tb tp = Some (-1, Some EINVAL, tp, tb)"
  by (auto simp: clock_gettime_def)

end
