(* ===== verification/Spec2Isabelle.thy ===== *)
theory Spec2Isabelle
  imports LockTester System Sending PollMgr Listener WireTypes ReplyBuf Sections Threads FuseMain RpctestMain LossyFs Gettime
begin

text \<open>
  A verification of the distributed file system of \<open>lab/\<close>: an RPC library (\<open>lab/rpc\<close>), a lock
  service, an extent service (storage of byte strings under 64-bit numbers), a file system client
  \<open>yfs_client\<close> on top of the extent service, and a FUSE server that offers it to the kernel.

  \<^bold>\<open>How the parts interact.\<close> A FUSE request calls an operation of \<open>yfs_client\<close>, which reads and writes
  directories as extents through the stubs of \<open>extent_client\<close>. A stub calls \<open>rpcc::call\<close>, which marshals
  its arguments behind a request header with a transaction id, registers itself as waiting, and
  sends the buffer on a \<open>connection\<close>, retrying on a new one when the old one is dead. The poll
  thread (\<open>PollMgr\<close> over \<open>SelectAIO\<close>) reads the PDU on the other side and hands it to \<open>rpcs::got_pdu\<close>, which
  puts a job into a thread pool (\<open>ThrPool\<close> over \<open>fifo\<close>). A worker runs \<open>rpcs::dispatch\<close>: it checks the reply
  window for duplicates, calls the registered handler, stores the reply and sends it. The poll
  thread of the client gives the reply to \<open>rpcc::got_pdu\<close>, which wakes the caller.

  \<^bold>\<open>Conventions.\<close> The state of an object is a record with the fields of its class; an operation is a
  function that takes and returns it. \<open>None\<close> as a result means that the process stops: a failed
  assertion, a null dereference, a use of a deleted object, an access out of bounds. Blocking
  operations are split at the points where they wait or release a mutex, and step relations
  interleave the pieces. Integers have the width of the source (\<open>u32\<close>, \<open>u64\<close>), except sizes and times
  that the text of their theory names. What comes from outside (clock, random numbers, answers of
  the kernel, uninitialised variables) is an argument.

  \<^bold>\<open>The theories.\<close>
  \<^item> \<open>Prelude\<close>: bytes of words, shared lemmas, collections.
  \<^item> \<open>Marshall\<close>, \<open>Codec\<close>, \<open>Wire\<close>, \<open>WireTypes\<close>: \<open>rpc/marshall.h\<close> and the operators of \<open>rpc/rpc.cc\<close>. \<open>Codec\<close> has the
    contract of a wire type, the locale of encoders and decoders that undo each other; \<open>Wire\<close> has
    the headers and the length check of \<open>rawbytes\<close> that wraps around; \<open>WireTypes\<close> interprets the
    contract at every type the overloaded operators accept, vectors and maps nested to any depth.
  \<^item> \<open>Window\<close>: the reply window of the client, \<open>update_xid_rep\<close>, refined from a set of ids.
  \<^item> \<open>Connection\<close>, \<open>Framing\<close>, \<open>Sending\<close>, \<open>Refs\<close>: \<open>rpc/connection.cc\<close>: framing of PDUs in any pieces the kernel
    chooses, several threads that send on one connection, and reference counts with the contract
    \<open>refcount\<close>.
  \<^item> \<open>Rpcs\<close>, \<open>AtMostOnce\<close>, \<open>Verdicts\<close>, \<open>Dispatch\<close>: the server \<open>rpcs\<close>: registration, dispatch, duplicate detection,
    and that no PDU makes it crash or lose a reference. \<open>Sections\<close> splits \<open>dispatch\<close> at its critical
    sections and interleaves the threads of the pool there; \<open>ReplyBuf\<close> has the reply window with the
    pointers to its buffers, refined to the window of \<open>Rpcs\<close>, and the ownership of the buffers.
  \<^item> \<open>Rpcc\<close>, \<open>RpcCall\<close>, \<open>RpcStubs\<close>, \<open>Net\<close>, \<open>System\<close>: the client \<open>rpcc\<close>, the templates \<open>call\<close> and \<open>reg\<close>, a call through both
    ends (the locale \<open>rpc_method\<close>), and the two ends with a network that loses, duplicates and
    reorders.
  \<^item> \<open>Timing\<close>, \<open>Retry\<close>, \<open>Listener\<close>, \<open>Addr\<close>: clock arithmetic, the retry loop of \<open>call1\<close> and its channel, the
    accepting side \<open>tcpsconn\<close>, addresses.
  \<^item> \<open>Aio\<close>, \<open>PollMgr\<close>: \<open>rpc/pollmgr.cc\<close>: the two polling back ends behind the locale \<open>aio\<close>, the callback table,
    and the promise of \<open>block_remove_fd\<close>.
  \<^item> \<open>Fifo\<close>, \<open>ThrPool\<close>: \<open>rpc/fifo.h\<close> and \<open>rpc/thr_pool.cc\<close>: the bounded queue (locale \<open>queue\<close>) with its condition
    variables, workers and the destructor.
  \<^item> \<open>Threads\<close>: \<open>rpc/slock.h\<close> and \<open>rpc/method_thread.h\<close>: why a critical section may be taken as one step, and the
    threads that run a method of an object, with the closure that carries their arguments.
  \<^item> \<open>Extent\<close>, \<open>Yfs\<close>, \<open>Fuse\<close>: \<open>extent_protocol.h\<close>, \<open>extent_server.cc\<close>, \<open>extent_client.cc\<close>, \<open>yfs_client.cc\<close>, \<open>fuse.cc\<close>. The
    contract of a store of extents is the locale \<open>extent_store\<close>; the stubs keep it over everything
    that keeps the contract \<open>transport\<close> of \<open>Net\<close>, and the file system is proved against it. \<open>LossyFs\<close>: the
    file system over connections that die. \<open>Names\<close>: \<open>filename\<close> and \<open>n2i\<close>. \<open>FuseMain\<close>: \<open>main\<close> of
    \<open>fuse.cc\<close>, with the functions of libfuse as a parameter of which nothing is assumed.
  \<^item> \<open>Locks\<close>: \<open>lock_server.cc\<close>, \<open>lock_client.cc\<close>: mutual exclusion, and the deadlock of the thread pool.
    \<open>LockTester\<close>: \<open>lock_tester.cc\<close> and \<open>lock_demo.cc\<close>, whose threads run against the interleaved server.
  \<^item> \<open>RpcTest\<close>: the handlers of \<open>rpc/rpctest.cc\<close> and the calls of its simple tests over the network of \<open>Net\<close>.
    \<open>Clients\<close>: several clients of one server, which do not disturb each other. \<open>Lossy\<close>: calls over
    connections that die between the transmissions of a request. \<open>RpcFailures\<close>: the tests with several
    threads and those in which the server is deleted and started again. \<open>LossyTest\<close>: \<open>lossy_test\<close>.
    \<open>RpctestMain\<close>: the memory test, the options and \<open>main\<close>, which runs all tests; the debug level of
    \<open>rpc/jsl_log.cc\<close>.
  \<^item> \<open>Gettime\<close>: \<open>clock_gettime\<close> of \<open>gettime.cc\<close>, with the rounding of its arithmetic on \<open>double\<close>.

  \<^bold>\<open>What is shown.\<close> Safety of the RPC layer: a handler runs at most once for a call that waits,
  whatever the network does, and exactly once if one of its transmissions over connections that die
  arrives; the dispatch threads survive every PDU in every interleaving of their
  critical sections; descriptors and connections are not used after their removal. Functional
  behaviour end to end: what is created through FUSE is found, what is put is got, directories and
  values of every wire type survive their encoding, and extraction is type sound on any bytes. The
  repository's own tests pass: the lock tester in all runs, and \<open>rpctest\<close> for all random numbers,
  schedules and losses, up to the memory it measures. Termination: the retry loop and the destructor of the pool. Flaws of the code are
  theorems too: a late duplicate of an acknowledged request is taken for new, a replayed reply may
  be freed while it is sent, the buffer of every stored reply leaks, ten waiting \<open>acquire\<close> block the
  lock server, a failing FUSE session leaves the mount behind, and others.

  \<^bold>\<open>Bounds.\<close> A client makes fewer than \<open>2 ^ 32 - 1\<close> calls: then the id counter does not wrap (\<open>System\<close>,
  \<open>Net\<close>). Messages are at most \<open>2 ^ 30\<close> bytes so that the doubling buffer of \<open>marshall\<close> stays within an
  \<open>int\<close>. The 23 turns of the retry loop are enough for every timeout that fits an \<open>int\<close>, because the
  wait doubles from one second. \<open>read_pages\<close> of \<open>Fuse\<close> has as many pages as the directory needs. The nine
  sections that \<open>run_sects\<close> allows are the longest way through \<open>dispatch\<close>. Replies of the tests are
  shorter than 252000 bytes, the most that \<open>client4\<close> asks for.

  \<^bold>\<open>Not modelled.\<close> What is printed, but for the choice by the debug level; the seed of the random
  numbers (\<open>set_rand_seed\<close>), which are arguments; \<open>rpctest -l\<close>, which runs all its tests over lossy
  connections, and its measurement of memory on MacOS. A call of the concurrent tests is one step of
  its schedule, and in \<open>Lossy\<close> the transmissions of a call follow each other; the interleaving inside a
  call is that of \<open>Sections\<close> and \<open>System\<close>. A wake-up without a signal is modelled for the queue, not
  for \<open>block_remove_fd\<close>, which does not guard against it.
\<close>

section \<open>The end of a server\<close>

text \<open>\<open>rpcs::~rpcs\<close> deletes the listener, then the pool (the steps \<open>destroy\<close> to \<open>joins\<close> of \<open>tstep\<close>, which do
  not touch the state of the server), then frees the stored replies.\<close>

definition rpcs_delete :: "'s rpcs \<Rightarrow> tcpsconn \<Rightarrow> 's rpcs option" where
  "rpcs_delete s t = do {
     H \<leftarrow> tcpsconn_delete (rs_heap s) t;
     Some (s\<lparr>rs_heap := H, rs_reply_window := free_reply_window (rs_reply_window s)\<rparr>)
   }"

lemma conns_refs_holds:
  assumes "finite (dom M)" and "M n = Some (Some c)"
  shows "0 < holders (conns_refs M) c"
proof -
  from conns_refs_upd [OF assms(1), of n] obtain R0 where "conns_refs M = R0 + opt_refs (conn_entry M n)" by blast
  with assms(2) show ?thesis by (simp add: conn_entry_def holders_def)
qed

text \<open>
  C32: The destructor of a server leaks connections. When only the listener and \<open>conns_\<close> hold
  references, deleting the listener deletes every connection it accepted except those that are
  the latest connection of a client in \<open>conns_\<close>: the destructor of \<open>rpcs\<close> never gives these
  references back, so the connections stay, dead, with their descriptors open.
\<close>

theorem rpcs_destructor_leaks:
  assumes "conn_refs (rs_heap s) (listener_refs (tc_conns t) + conns_refs (rs_conns s))"
    and "finite (dom (rs_conns s))" and "(fd, c) \<in> set (tc_conns t)"
  shows "\<exists>s'. rpcs_delete s t = Some s' \<and> rs_reply_window s' = Map.empty \<and>
    (rs_heap s' c = None \<longleftrightarrow> holders (conns_refs (rs_conns s)) c = 0) \<and>
    (\<forall>n. rs_conns s n = Some (Some c) \<longrightarrow> rs_heap s' c \<noteq> None)"
proof -
  from close_conns_ok [OF assms(1)] obtain H where H: "close_conns (rs_heap s) (tc_conns t) = Some H"
    "conn_refs H (conns_refs (rs_conns s))" by blast
  have "c \<in> snd ` set (tc_conns t)" using image_eqI [of c snd "(fd, c)"] assms(3) by simp
  then have gone: "H c = None \<longleftrightarrow> holders (conns_refs (rs_conns s)) c = 0"
    using close_conns_gone [OF assms(1) H(1)] conn_refs_dom [OF H(2)] by auto
  have leak: "rs_conns s n = Some (Some c) \<Longrightarrow> H c \<noteq> None" for n
    using gone conns_refs_holds [OF assms(2), of n c] by simp
  show ?thesis using H(1) gone leak
    by (auto simp: rpcs_delete_def tcpsconn_delete_def free_reply_window_def)
qed

theorem rpcs_destructor_leaks_witness:
  "\<exists>s'. rpcs_delete (sample_server\<lparr>rs_heap := [0 \<mapsto> (fst (connection_new 3 0))\<lparr>c_refno := 2\<rparr>], rs_conns := [5 \<mapsto> Some 0]\<rparr>)
     \<lparr>tc_pipe = 1, tc_tcp = 2, tc_lossy = 0, tc_conns = [(3, 0)]\<rparr> = Some s' \<and> rs_heap s' 0 \<noteq> None"
proof -
  let ?s = "sample_server\<lparr>rs_heap := [0 \<mapsto> (fst (connection_new 3 0))\<lparr>c_refno := 2\<rparr>], rs_conns := [5 \<mapsto> Some 0]\<rparr>"
  let ?t = "\<lparr>tc_pipe = 1, tc_tcp = 2, tc_lossy = 0, tc_conns = [(3, 0)]\<rparr>"
  have "conn_refs (rs_heap ?s) (listener_refs (tc_conns ?t) + conns_refs (rs_conns ?s))"
    by (simp add: conn_refs_def conns_refs_def conn_entry_def holders_def connection_new_def charbuf_new_def)
  from rpcs_destructor_leaks [OF this, of 3 0] show ?thesis by auto
qed

end
